(* ===== verification/Prelude.thy ===== *)
theory Prelude
  imports Main "HOL-Library.AList" "HOL-Library.Char_ord" "HOL-Library.List_Lexorder"
begin

text \<open>
  Shared vocabulary of the development: how the Rust data of the program is written in HOL.

  \<^item> A Rust \<open>String\<close> / \<open>&str\<close> is a \<open>string\<close>, its UTF-8 bytes; \<open>len()\<close> is \<open>length\<close>.
    The standard library's string operations the code uses are the functions of the section
    "Strings".
  \<^item> A \<open>HashMap\<close> is an association list with distinct keys (\<open>hm_wf\<close>); the order of the list is
    the iteration order, which Rust leaves open, so a lemma about every list holds for every
    iteration order.
  \<^item> A \<open>serde_json::Value\<close> is a \<open>json\<close>; an object is an association list kept sorted by key, as
    the \<open>BTreeMap\<close> behind \<open>serde_json::Map\<close> does (the crate's \<open>preserve_order\<close> feature is off).
  \<^item> Time (\<open>Instant\<close>, epoch milliseconds) and fresh identifiers (\<open>Uuid::new_v4\<close>) are arguments.
\<close>

named_theorems byte_simps "character classes"
named_theorems str_simps "string operations"
named_theorems json_simps "JSON accessors"
named_theorems wf_intros "preservation of well-formedness"

type_synonym str = string

section \<open>Keyed maps\<close>

type_synonym ('k, 'v) hmap = "('k \<times> 'v) list"

abbreviation hm_get :: "('k, 'v) hmap \<Rightarrow> 'k \<Rightarrow> 'v option" where
  "hm_get m k \<equiv> map_of m k"

abbreviation hm_put :: "'k \<Rightarrow> 'v \<Rightarrow> ('k, 'v) hmap \<Rightarrow> ('k, 'v) hmap" where
  "hm_put k v m \<equiv> AList.update k v m"

abbreviation hm_del :: "'k \<Rightarrow> ('k, 'v) hmap \<Rightarrow> ('k, 'v) hmap" where
  "hm_del k m \<equiv> AList.delete k m"

abbreviation hm_wf :: "('k, 'v) hmap \<Rightarrow> bool" where
  "hm_wf m \<equiv> distinct (map fst m)"

abbreviation hm_has :: "('k, 'v) hmap \<Rightarrow> 'k \<Rightarrow> bool" where
  "hm_has m k \<equiv> map_of m k \<noteq> None"

definition hm_retain :: "('k \<Rightarrow> 'v \<Rightarrow> bool) \<Rightarrow> ('k, 'v) hmap \<Rightarrow> ('k, 'v) hmap" where
  "hm_retain P m = filter (\<lambda>(k, v). P k v) m"

definition hm_map :: "('v \<Rightarrow> 'v) \<Rightarrow> ('k, 'v) hmap \<Rightarrow> ('k, 'v) hmap" where
  "hm_map f m = map (\<lambda>(k, v). (k, f v)) m"

text \<open>What every store of the program relies on: a lookup sees the last insertion or removal of
  its own key and no other.\<close>

locale keyed_map =
  fixes get :: "'m \<Rightarrow> 'k \<Rightarrow> 'v option"
    and put :: "'k \<Rightarrow> 'v \<Rightarrow> 'm \<Rightarrow> 'm"
    and del :: "'k \<Rightarrow> 'm \<Rightarrow> 'm"
    and wf :: "'m \<Rightarrow> bool"
    and emp :: "'m"
  assumes get_emp: "get emp k = None"
    and get_put: "get (put k v m) k' = (if k' = k then Some v else get m k')"
    and get_del: "get (del k m) k' = (if k' = k then None else get m k')"
    and wf_emp: "wf emp"
    and wf_put: "wf m \<Longrightarrow> wf (put k v m)"
    and wf_del: "wf m \<Longrightarrow> wf (del k m)"
begin

lemma get_put_same: "get (put k v m) k = Some v"
  by (simp add: get_put)

lemma get_del_same: "get (del k m) k = None"
  by (simp add: get_del)

lemma put_del_other: "k' \<noteq> k \<Longrightarrow> get (put k v (del k m)) k' = get m k'"
  by (simp add: get_put get_del)

lemma get_fold_del: "get (fold del ks m) k = (if k \<in> set ks then None else get m k)"
  by (induction ks arbitrary: m) (auto simp: get_del)

lemma wf_fold_del: "wf m \<Longrightarrow> wf (fold del ks m)"
  by (induction ks arbitrary: m) (auto intro: wf_del)

end

lemma distinct_hm_del: "hm_wf m \<Longrightarrow> hm_wf (hm_del k m)"
  by (rule distinct_delete)

interpretation hm: keyed_map hm_get hm_put hm_del hm_wf "[]"
  by unfold_locales (auto simp: update_conv' delete_conv' distinct_update distinct_hm_del)

lemma hm_get_retain [simp]:
  "hm_wf m \<Longrightarrow> hm_get (hm_retain P m) k
     = (case hm_get m k of Some v \<Rightarrow> if P k v then Some v else None | None \<Rightarrow> None)"
  by (induction m) (auto simp: hm_retain_def split: option.splits intro: rev_image_eqI)

lemma hm_wf_retain [wf_intros]: "hm_wf m \<Longrightarrow> hm_wf (hm_retain P m)"
  by (induction m) (auto simp: hm_retain_def)

lemma hm_wf_put [wf_intros]: "hm_wf m \<Longrightarrow> hm_wf (hm_put k v m)"
  by (rule hm.wf_put)

lemma hm_wf_del [wf_intros]: "hm_wf m \<Longrightarrow> hm_wf (hm_del k m)"
  by (rule hm.wf_del)

lemma hm_get_map [simp]: "hm_get (hm_map f m) k = map_option f (hm_get m k)"
  by (induction m) (auto simp: hm_map_def)

lemma hm_keys_map [simp]: "map fst (hm_map f m) = map fst m"
  by (induction m) (auto simp: hm_map_def)

lemma hm_keys_put_same: "hm_has m k \<Longrightarrow> map fst (hm_put k v m) = map fst m"
  by (induction m) auto

lemma length_hm_put: "length (hm_put k v m) = (if hm_has m k then length m else Suc (length m))"
  by (induction m) auto

lemma length_hm_del_le: "length (hm_del k m) \<le> length m"
  by (rule length_delete_le)

lemma set_hm_del: "set (hm_del k m) = {e \<in> set m. fst e \<noteq> k}"
  by (auto simp: AList.delete_eq)

lemma set_hm_put: "set (hm_put k v m) \<subseteq> insert (k, v) (set m)"
  by (induction m) auto

lemma keys_hm_del: "fst ` set (hm_del k m) = fst ` set m - {k}"
  by (auto simp: set_hm_del)

lemma keys_fold_hm_del: "fst ` set (fold hm_del ks m) = fst ` set m - set ks"
  by (induction ks arbitrary: m) (auto simp: keys_hm_del)

lemma keys_hm_put: "fst ` set (hm_put k v m) = insert k (fst ` set m)"
  by (simp add: dom_update)

lemma distinct_map_hm_del: "distinct (map f m) \<Longrightarrow> distinct (map f (hm_del k m))"
  by (simp add: AList.delete_eq distinct_map inj_on_def)

lemma hm_mem_get: "hm_wf m \<Longrightarrow> (k, v) \<in> set m \<longleftrightarrow> hm_get m k = Some v"
  by simp

section \<open>Runs and invariants\<close>

text \<open>A component with state is a step function; what every step keeps, every run keeps.\<close>

locale invariant_machine =
  fixes step :: "'s \<Rightarrow> 'e \<Rightarrow> 's"
    and inv :: "'s \<Rightarrow> bool"
  assumes step_inv: "inv s \<Longrightarrow> inv (step s e)"
begin

lemma run_inv: "inv s \<Longrightarrow> inv (foldl step s es)"
  by (induction es arbitrary: s) (auto intro: step_inv)

lemma run_prefix_inv: "inv s \<Longrightarrow> inv (foldl step s (take n es))"
  by (rule run_inv)

end

text \<open>An observation that only grows along every step grows along every run.\<close>

locale monotone_machine = invariant_machine +
  fixes obs :: "'s \<Rightarrow> 'o::preorder"
  assumes step_mono: "inv s \<Longrightarrow> obs s \<le> obs (step s e)"
begin

lemma run_mono: "inv s \<Longrightarrow> obs s \<le> obs (foldl step s es)"
proof (induction es arbitrary: s)
  case Nil
  show ?case by simp
next
  case (Cons e es)
  have "obs s \<le> obs (step s e)" using Cons.prems by (rule step_mono)
  also have "obs (step s e) \<le> obs (foldl step (step s e) es)"
    using Cons.prems by (intro Cons.IH step_inv)
  finally show ?case by simp
qed

end

text \<open>Labelled runs, and the simulation of a system by an abstract one: every step of a state within the
  invariant is a step of its abstraction with the same label, or leaves the abstraction as it is.\<close>

inductive trace :: "('l \<Rightarrow> 's \<Rightarrow> 's \<Rightarrow> bool) \<Rightarrow> 'l list \<Rightarrow> 's \<Rightarrow> 's \<Rightarrow> bool" for step where
  trace_Nil: "trace step [] s s"
| trace_Cons: "step l s t \<Longrightarrow> trace step ls t u \<Longrightarrow> trace step (l # ls) s u"

inductive_cases trace_ConsE: "trace step (l # ls) s u"
inductive_simps trace_Nil_iff [simp]: "trace step [] s u"

lemma trace_Cons_iff: "trace step (l # ls) s u \<longleftrightarrow> (\<exists>t. step l s t \<and> trace step ls t u)"
  by (auto intro: trace_Cons elim: trace_ConsE)

lemma trace_append: "trace step (xs @ ys) s u \<longleftrightarrow> (\<exists>t. trace step xs s t \<and> trace step ys t u)"
  by (induction xs arbitrary: s) (auto simp: trace_Cons_iff)

definition stutter :: "('l \<Rightarrow> 'a \<Rightarrow> 'a \<Rightarrow> bool) \<Rightarrow> 'l \<Rightarrow> 'a \<Rightarrow> 'a \<Rightarrow> bool" where
  "stutter step l a b \<longleftrightarrow> a = b \<or> step l a b"

locale simulation =
  fixes cstep :: "'l \<Rightarrow> 'c \<Rightarrow> 'c \<Rightarrow> bool"
    and astep :: "'l \<Rightarrow> 'a \<Rightarrow> 'a \<Rightarrow> bool"
    and abst :: "'c \<Rightarrow> 'a"
    and cinv :: "'c \<Rightarrow> bool"
  assumes inv_step: "cinv s \<Longrightarrow> cstep l s s' \<Longrightarrow> cinv s'"
    and sim_step: "cinv s \<Longrightarrow> cstep l s s' \<Longrightarrow> stutter astep l (abst s) (abst s')"
begin

lemma runs_keep_inv: "trace cstep ls s s' \<Longrightarrow> cinv s \<Longrightarrow> cinv s'"
  by (induction rule: trace.induct) (auto intro: inv_step)

lemma runs_refine: "trace cstep ls s s' \<Longrightarrow> cinv s \<Longrightarrow> trace (stutter astep) ls (abst s) (abst s')"
  by (induction rule: trace.induct) (auto intro: trace_Nil trace_Cons inv_step sim_step)

end

lemma trace_inv: "trace step ls s t \<Longrightarrow> P s \<Longrightarrow> (\<And>l x y. step l x y \<Longrightarrow> P x \<Longrightarrow> P y) \<Longrightarrow> P t"
  by (induction rule: trace.induct) auto

lemma trace_snoc: "trace step (ls @ [l]) s u \<longleftrightarrow> (\<exists>t. trace step ls s t \<and> step l t u)"
  by (simp add: trace_append trace_Cons_iff)

section \<open>Ordering by age\<close>

text \<open>Items are listed oldest first and by id among equals
  (\<open>created_at.cmp(..).then_with(|| id.cmp(..))\<close>).\<close>

datatype age_key = AgeKey (age_ms: int) (age_id: str)

instantiation age_key :: linorder
begin

definition less_eq_age_key :: "age_key \<Rightarrow> age_key \<Rightarrow> bool" where
  "less_eq_age_key a b \<longleftrightarrow> age_ms a < age_ms b \<or> (age_ms a = age_ms b \<and> age_id a \<le> age_id b)"

definition less_age_key :: "age_key \<Rightarrow> age_key \<Rightarrow> bool" where
  "less_age_key a b \<longleftrightarrow> age_ms a < age_ms b \<or> (age_ms a = age_ms b \<and> age_id a < age_id b)"

instance
  by standard (auto simp: less_eq_age_key_def less_age_key_def age_key.expand)

end

lemma AgeKey_le_ms: "AgeKey a x \<le> AgeKey b y \<Longrightarrow> a \<le> b"
  by (auto simp: less_eq_age_key_def)

section \<open>Lists\<close>

text \<open>Drop from the front while a condition of the whole remaining list holds: the loops
  \<open>while cond { queue.pop_front() }\<close>.\<close>

fun pop_while :: "('a list \<Rightarrow> bool) \<Rightarrow> 'a list \<Rightarrow> 'a list" where
  "pop_while P [] = []"
| "pop_while P (x # xs) = (if P (x # xs) then pop_while P xs else x # xs)"

lemma pop_while_suffix: "\<exists>ys. xs = ys @ pop_while P xs"
proof (induction xs)
  case (Cons x xs)
  then obtain ys where "xs = ys @ pop_while P xs" by blast
  then show ?case by (cases "P (x # xs)") (auto intro: exI [of _ "x # ys"])
qed simp

lemma set_pop_while: "set (pop_while P xs) \<subseteq> set xs"
  using pop_while_suffix [of xs P] by (metis set_append sup_ge2)

lemma pop_while_stop: "pop_while P xs \<noteq> [] \<Longrightarrow> \<not> P (pop_while P xs)"
  by (induction xs) auto

lemma length_pop_while: "length (pop_while P xs) \<le> length xs"
  by (induction xs) auto

lemma distinct_pop_while: "distinct xs \<Longrightarrow> distinct (pop_while P xs)"
  using pop_while_suffix [of xs P] by (metis distinct_append)

lemma pop_while_len_bound: "length (pop_while (\<lambda>q. length q > n) xs) \<le> n"
  by (induction xs) auto

lemma pop_while_len: "pop_while (\<lambda>q. length q > n) xs = drop (length xs - n) xs"
  by (induction xs) (auto simp: Suc_diff_le)

text \<open>The first element satisfying a predicate, and its removal.\<close>

fun remove_first :: "('a \<Rightarrow> bool) \<Rightarrow> 'a list \<Rightarrow> 'a list" where
  "remove_first P [] = []"
| "remove_first P (x # xs) = (if P x then xs else x # remove_first P xs)"

lemma set_remove_first: "set (remove_first P xs) \<subseteq> set xs"
  by (induction xs) auto

lemma length_remove_first:
  "length (remove_first P xs) = (if \<exists>x\<in>set xs. P x then length xs - 1 else length xs)"
  by (induction xs) (auto simp: Suc_diff_le, (metis Suc_pred length_pos_if_in_set)+)

lemma remove_first_none: "(\<And>x. x \<in> set xs \<Longrightarrow> \<not> P x) \<Longrightarrow> remove_first P xs = xs"
  by (induction xs) auto

lemma filter_remove_first_other:
  "(\<And>x. P x \<Longrightarrow> \<not> Q x) \<Longrightarrow> filter Q (remove_first P xs) = filter Q xs"
  by (induction xs) auto

lemma length_filter_remove_first:
  "(\<And>x. P x \<Longrightarrow> Q x) \<Longrightarrow> \<exists>x\<in>set xs. P x
     \<Longrightarrow> Suc (length (filter Q (remove_first P xs))) = length (filter Q xs)"
  by (induction xs) auto

lemma length_filter_remove_first_le:
  "length (filter Q (remove_first P xs)) \<le> length (filter Q xs)"
  by (induction xs) auto

lemma distinct_map_remove_first: "distinct (map f xs) \<Longrightarrow> distinct (map f (remove_first P xs))"
  by (induction xs) (auto dest!: set_remove_first [THEN subsetD])

lemma find_Some_mem: "find P xs = Some x \<Longrightarrow> x \<in> set xs \<and> P x"
  by (induction xs) (auto split: if_splits)

lemma filter_eq_length1: "length (filter P xs) \<ge> 1 \<longleftrightarrow> (\<exists>x\<in>set xs. P x)"
  by (induction xs) auto

end
