(* ===== verification/RustText.thy ===== *)
theory RustText
  imports Prelude
begin

text \<open>
  The string and byte operations of the Rust standard library that the program uses, on the UTF-8
  bytes of a string. Offsets are byte offsets. Where a Rust function works on characters
  (\<open>trim\<close>, \<open>chars().count()\<close>) its byte-level reading on valid UTF-8 is written out.
\<close>

section \<open>Bytes\<close>

definition byte :: "char \<Rightarrow> nat" where
  "byte c = of_char c"

definition is_ascii_digit :: "char \<Rightarrow> bool" where
  "is_ascii_digit c \<longleftrightarrow> 48 \<le> byte c \<and> byte c \<le> 57"

definition is_ascii_alpha :: "char \<Rightarrow> bool" where
  "is_ascii_alpha c \<longleftrightarrow> (65 \<le> byte c \<and> byte c \<le> 90) \<or> (97 \<le> byte c \<and> byte c \<le> 122)"

definition is_ascii_alnum :: "char \<Rightarrow> bool" where
  "is_ascii_alnum c \<longleftrightarrow> is_ascii_digit c \<or> is_ascii_alpha c"

text \<open>\<open>(b'a'..=b'f').contains(c)\<close>\<close>

definition is_hex_letter :: "char \<Rightarrow> bool" where
  "is_hex_letter c \<longleftrightarrow> 97 \<le> byte c \<and> byte c \<le> 102"

definition lower_byte :: "char \<Rightarrow> char" where
  "lower_byte c = (if 65 \<le> byte c \<and> byte c \<le> 90 then char_of (byte c + 32) else c)"

definition to_ascii_lowercase :: "str \<Rightarrow> str" where
  "to_ascii_lowercase s = map lower_byte s"

definition eq_ignore_ascii_case :: "str \<Rightarrow> str \<Rightarrow> bool" where
  "eq_ignore_ascii_case a b \<longleftrightarrow> to_ascii_lowercase a = to_ascii_lowercase b"

lemmas [byte_simps] = is_ascii_digit_def is_ascii_alpha_def is_ascii_alnum_def is_hex_letter_def
  byte_def

text \<open>The number of characters of a UTF-8 string: the bytes that do not continue a character.\<close>

definition is_cont_byte :: "char \<Rightarrow> bool" where
  "is_cont_byte c \<longleftrightarrow> 128 \<le> byte c \<and> byte c \<le> 191"

definition char_count :: "str \<Rightarrow> nat" where
  "char_count s = length (filter (\<lambda>c. \<not> is_cont_byte c) s)"

lemma char_count_le: "char_count s \<le> length s"
  by (simp add: char_count_def)

lemma char_count_append [simp]: "char_count (a @ b) = char_count a + char_count b"
  by (simp add: char_count_def)

lemma char_count_Nil [simp]: "char_count [] = 0"
  by (simp add: char_count_def)

lemma byte_lt [simp]: "byte c < 256"
  by (simp add: byte_def)

lemma byte_char_of: "n < 256 \<Longrightarrow> byte (char_of n) = n"
  by (simp add: byte_def)

lemma lower_byte_idem [simp]: "lower_byte (lower_byte c) = lower_byte c"
  by (simp add: lower_byte_def byte_char_of)

lemma lower_lower [simp]: "to_ascii_lowercase (to_ascii_lowercase s) = to_ascii_lowercase s"
  by (simp add: to_ascii_lowercase_def)

lemma length_lower [simp]: "length (to_ascii_lowercase s) = length s"
  by (simp add: to_ascii_lowercase_def)

section \<open>Searching\<close>

definition starts_with :: "str \<Rightarrow> str \<Rightarrow> bool" where
  "starts_with s p \<longleftrightarrow> take (length p) s = p"

definition ends_with :: "str \<Rightarrow> str \<Rightarrow> bool" where
  "ends_with s p \<longleftrightarrow> length p \<le> length s \<and> drop (length s - length p) s = p"

definition strip_prefix :: "str \<Rightarrow> str \<Rightarrow> str option" where
  "strip_prefix s p = (if starts_with s p then Some (drop (length p) s) else None)"

definition strip_suffix :: "str \<Rightarrow> str \<Rightarrow> str option" where
  "strip_suffix s p = (if ends_with s p then Some (take (length s - length p) s) else None)"

text \<open>\<open>hay.find(needle)\<close>: the offset of the first occurrence.\<close>

fun find_from :: "nat \<Rightarrow> str \<Rightarrow> str \<Rightarrow> nat option" where
  "find_from i [] n = (if n = [] then Some i else None)"
| "find_from i (c # s) n = (if starts_with (c # s) n then Some i else find_from (Suc i) s n)"

definition find_str :: "str \<Rightarrow> str \<Rightarrow> nat option" where
  "find_str hay needle = find_from 0 hay needle"

definition contains :: "str \<Rightarrow> str \<Rightarrow> bool" where
  "contains hay needle \<longleftrightarrow> find_str hay needle \<noteq> None"

text \<open>\<open>s.find(|c| p c)\<close> and \<open>s.rfind(..)\<close> for an ASCII class of characters.\<close>

fun find_byte :: "(char \<Rightarrow> bool) \<Rightarrow> str \<Rightarrow> nat option" where
  "find_byte p [] = None"
| "find_byte p (c # s) = (if p c then Some 0 else map_option Suc (find_byte p s))"

definition split_once :: "str \<Rightarrow> str \<Rightarrow> (str \<times> str) option" where
  "split_once s d = map_option (\<lambda>i. (take i s, drop (i + length d) s)) (find_str s d)"

fun rsplit_once_byte :: "str \<Rightarrow> char \<Rightarrow> (str \<times> str) option" where
  "rsplit_once_byte [] d = None"
| "rsplit_once_byte (c # s) d =
     (case rsplit_once_byte s d of
        Some (a, b) \<Rightarrow> Some (c # a, b)
      | None \<Rightarrow> if c = d then Some ([], s) else None)"

text \<open>\<open>s.split(c)\<close>: the pieces between the separators, at least one.\<close>

fun split_byte :: "char \<Rightarrow> str \<Rightarrow> str list" where
  "split_byte d [] = [[]]"
| "split_byte d (c # s) =
     (if c = d then [] # split_byte d s
      else (case split_byte d s of p # ps \<Rightarrow> (c # p) # ps | [] \<Rightarrow> [[c]]))"

lemma split_byte_nonempty [simp]: "split_byte d s \<noteq> []"
  by (induction s) (auto split: list.splits)

lemma split_byte_no_sep: "d \<notin> set s \<Longrightarrow> split_byte d s = [s]"
  by (induction s) auto

text \<open>\<open>s.split(sep)\<close> for a non-empty separator string; \<open>k\<close> bytes of a separator just found are
  still to be skipped.\<close>

fun split_str_aux :: "str \<Rightarrow> nat \<Rightarrow> str \<Rightarrow> str \<Rightarrow> str list" where
  "split_str_aux d k acc [] = [rev acc]"
| "split_str_aux d (Suc k) acc (c # s) = split_str_aux d k acc s"
| "split_str_aux d 0 acc (c # s) =
     (if starts_with (c # s) d then rev acc # split_str_aux d (length d - 1) [] s
      else split_str_aux d 0 (c # acc) s)"

definition split_str :: "str \<Rightarrow> str \<Rightarrow> str list" where
  "split_str s d = split_str_aux d 0 [] s"

fun join :: "str \<Rightarrow> str list \<Rightarrow> str" where
  "join sep [] = []"
| "join sep [x] = x"
| "join sep (x # y # ys) = x @ sep @ join sep (y # ys)"

lemma starts_with_iff: "starts_with s p \<longleftrightarrow> (\<exists>t. s = p @ t)"
  unfolding starts_with_def by (metis append_eq_conv_conj)

lemma starts_with_Nil [simp]: "starts_with s []"
  by (simp add: starts_with_def)

lemma starts_with_Cons [simp]:
  "starts_with s (c # p) \<longleftrightarrow> (case s of [] \<Rightarrow> False | x # t \<Rightarrow> x = c \<and> starts_with t p)"
  by (auto simp: starts_with_def split: list.splits)

lemma ends_with_iff: "ends_with s p \<longleftrightarrow> (\<exists>t. s = t @ p)"
  unfolding ends_with_def by (metis append_eq_conv_conj append_take_drop_id diff_le_self le_add1
      length_append add_diff_cancel_right' length_rev le_add2)

lemma find_from_shift: "find_from i s n = map_option (\<lambda>k. k + i) (find_from 0 s n)"
proof (induction s arbitrary: i)
  case (Cons c s)
  show ?case
    using Cons.IH [of "Suc i"] Cons.IH [of "Suc 0"] by (auto simp: option.map_comp comp_def
        simp del: starts_with_Cons)
qed auto

lemma find_from_None: "find_from i s n = None \<longleftrightarrow> (\<nexists>a b. s = a @ n @ b)"
proof (induction s arbitrary: i)
  case (Cons c s)
  have "(\<exists>a b. c # s = a @ n @ b) \<longleftrightarrow> starts_with (c # s) n \<or> (\<exists>a b. s = a @ n @ b)"
    (is "?L \<longleftrightarrow> ?R")
  proof
    assume ?L
    then obtain a b where ab: "c # s = a @ n @ b" by blast
    then show ?R by (cases a) (auto simp: starts_with_iff simp del: starts_with_Cons)
  next
    assume ?R
    then show ?L
      by (auto simp: starts_with_iff simp del: starts_with_Cons) (metis append_Nil, metis append_Cons)
  qed
  then show ?case using Cons.IH [of "Suc i"] by (auto simp del: starts_with_Cons)
qed auto

lemma find_str_None: "find_str s n = None \<longleftrightarrow> (\<nexists>a b. s = a @ n @ b)"
  by (simp add: find_str_def find_from_None)

lemma contains_iff: "contains s n \<longleftrightarrow> (\<exists>a b. s = a @ n @ b)"
  by (auto simp: contains_def find_str_None)

lemma contains_append1: "contains a n \<Longrightarrow> contains (a @ b) n"
  by (auto simp: contains_iff) (metis append_assoc)

lemma contains_append2: "contains b n \<Longrightarrow> contains (a @ b) n"
  by (auto simp: contains_iff) (metis append_assoc)

lemma contains_self [simp]: "contains n n"
  unfolding contains_iff by (rule exI [of _ "[]"], rule exI [of _ "[]"]) simp

lemma find_from_Some:
  "find_from i s n = Some k \<Longrightarrow> i \<le> k \<and> k - i + length n \<le> length s \<and> starts_with (drop (k - i) s) n"
proof (induction s arbitrary: i)
  case Nil
  then show ?case by (auto split: if_splits)
next
  case (Cons c s)
  show ?case
  proof (cases "starts_with (c # s) n")
    case True
    then have "length n \<le> length (c # s)" unfolding starts_with_iff by (metis length_append le_add1)
    with True Cons.prems show ?thesis by (auto simp del: starts_with_Cons)
  next
    case False
    with Cons.prems have "find_from (Suc i) s n = Some k" by simp
    from Cons.IH [OF this] show ?thesis by (auto simp: Suc_diff_le drop_Cons' not_less_eq_eq)
  qed
qed

lemma find_str_Some:
  "find_str s n = Some k \<Longrightarrow> k + length n \<le> length s \<and> starts_with (drop k s) n"
  unfolding find_str_def using find_from_Some [of 0 s n k] by simp

section \<open>Trimming\<close>

text \<open>The length in bytes of the white-space character (\<open>char::is_whitespace\<close>) a string starts
  with, 0 when it starts with another character.\<close>

fun ws_len :: "nat list \<Rightarrow> nat" where
  "ws_len (a # b # c # _) =
     (if (9 \<le> a \<and> a \<le> 13) \<or> a = 32 then 1
      else if a = 194 \<and> (b = 133 \<or> b = 160) then 2
      else if a = 225 \<and> b = 154 \<and> c = 128 then 3
      else if a = 226 \<and> b = 128 \<and> ((128 \<le> c \<and> c \<le> 138) \<or> c = 168 \<or> c = 169 \<or> c = 175) then 3
      else if a = 226 \<and> b = 129 \<and> c = 159 then 3
      else if a = 227 \<and> b = 128 \<and> c = 128 then 3
      else 0)"
| "ws_len [a, b] =
     (if (9 \<le> a \<and> a \<le> 13) \<or> a = 32 then 1
      else if a = 194 \<and> (b = 133 \<or> b = 160) then 2
      else 0)"
| "ws_len [a] = (if (9 \<le> a \<and> a \<le> 13) \<or> a = 32 then 1 else 0)"
| "ws_len [] = 0"

text \<open>The same at the end of a string.\<close>

definition ws_len_end :: "nat list \<Rightarrow> nat" where
  "ws_len_end xs =
     (let n = length xs in
      if n \<ge> 1 \<and> ws_len (drop (n - 1) xs) = 1 then 1
      else if n \<ge> 2 \<and> ws_len (drop (n - 2) xs) = 2 then 2
      else if n \<ge> 3 \<and> ws_len (drop (n - 3) xs) = 3 then 3
      else 0)"

fun trim_start :: "str \<Rightarrow> str" where
  "trim_start [] = []"
| "trim_start (c # s) =
     (let n = ws_len (map byte (take 3 (c # s)))
      in if n = 0 then c # s else trim_start (drop (n - 1) s))"

function trim_end :: "str \<Rightarrow> str" where
  "trim_end s =
     (let n = ws_len_end (map byte (drop (length s - 3) s))
      in if n = 0 \<or> s = [] then s else trim_end (take (length s - n) s))"
  by pat_completeness auto
termination
  by (relation "measure length") auto

declare trim_end.simps [simp del]

definition trim :: "str \<Rightarrow> str" where
  "trim s = trim_end (trim_start s)"

lemma trim_start_Cons:
  "n = ws_len (map byte (take 3 (c # s)))
     \<Longrightarrow> trim_start (c # s) = (if n = 0 then c # s else trim_start (drop (n - 1) s))"
  by (simp only: trim_start.simps Let_def)

declare trim_start.simps(2) [simp del]

lemma length_trim_start: "length (trim_start s) \<le> length s"
proof (induction s rule: trim_start.induct)
  case (2 c s)
  define n where "n = ws_len (map byte (take 3 (c # s)))"
  show ?case
  proof (cases "n = 0")
    case True
    then show ?thesis by (simp add: trim_start_Cons [OF n_def])
  next
    case False
    have "length (trim_start (drop (n - 1) s)) \<le> length (drop (n - 1) s)"
      by (rule "2.IH" [OF n_def False])
    then show ?thesis using False by (simp add: trim_start_Cons [OF n_def])
  qed
qed simp

lemma trim_start_suffix: "\<exists>p. s = p @ trim_start s"
proof (induction s rule: trim_start.induct)
  case (2 c s)
  define n where "n = ws_len (map byte (take 3 (c # s)))"
  show ?case
  proof (cases "n = 0")
    case True
    then show ?thesis by (simp add: trim_start_Cons [OF n_def])
  next
    case False
    from "2.IH" [OF n_def False] obtain p where p: "drop (n - 1) s = p @ trim_start (drop (n - 1) s)"
      by blast
    have "c # s = (c # take (n - 1) s) @ drop (n - 1) s" by simp
    also have "\<dots> = ((c # take (n - 1) s) @ p) @ trim_start (drop (n - 1) s)" using p by simp
    finally have eq: "c # s = ((c # take (n - 1) s) @ p) @ trim_start (drop (n - 1) s)" .
    have "trim_start (c # s) = trim_start (drop (n - 1) s)"
      using False by (simp add: trim_start_Cons [OF n_def])
    with eq show ?thesis by metis
  qed
qed simp

lemma trim_end_prefix: "\<exists>q. s = trim_end s @ q"
proof (induction s rule: trim_end.induct)
  case (1 s)
  define n where "n = ws_len_end (map byte (drop (length s - 3) s))"
  show ?case
  proof (cases "n = 0 \<or> s = []")
    case True
    then show ?thesis by (subst trim_end.simps) (simp add: n_def Let_def)
  next
    case False
    from "1.IH" [OF n_def False] obtain q where
      q: "take (length s - n) s = trim_end (take (length s - n) s) @ q" by blast
    have "s = take (length s - n) s @ drop (length s - n) s" by simp
    then have "s = trim_end (take (length s - n) s) @ (q @ drop (length s - n) s)"
      using q by (metis append_assoc)
    moreover have "trim_end s = trim_end (take (length s - n) s)"
      using False by (subst trim_end.simps) (simp add: n_def Let_def)
    ultimately show ?thesis by metis
  qed
qed

lemma set_trim: "set (trim s) \<subseteq> set s"
  unfolding trim_def
  using trim_start_suffix [of s] trim_end_prefix [of "trim_start s"]
  by (metis Un_subset_iff order_trans set_append subset_refl sup_ge1 sup_ge2)

section \<open>Numbers\<close>

text \<open>\<open>s.parse::<uN>()\<close> for a string of ASCII digits: \<open>None\<close> when empty, when a byte is not a
  digit or when the value does not fit. (Rust also takes a leading \<open>+\<close>; \<open>parse_uint\<close> does.)\<close>

fun digits_val :: "nat \<Rightarrow> str \<Rightarrow> nat option" where
  "digits_val acc [] = Some acc"
| "digits_val acc (c # s) =
     (if is_ascii_digit c then digits_val (10 * acc + (byte c - 48)) s else None)"

definition parse_uint :: "nat \<Rightarrow> str \<Rightarrow> nat option" where
  "parse_uint maxv s =
     (let ds = (case s of c # t \<Rightarrow> if byte c = 43 then t else s | [] \<Rightarrow> [])
      in if ds = [] then None
         else (case digits_val 0 ds of Some v \<Rightarrow> if v \<le> maxv then Some v else None | None \<Rightarrow> None))"

lemma parse_uint_le: "parse_uint m s = Some v \<Longrightarrow> v \<le> m"
  by (auto simp: parse_uint_def Let_def split: if_splits option.splits)

text \<open>\<open>format!("{n}")\<close> for an unsigned number.\<close>

fun show_nat :: "nat \<Rightarrow> str" where
  "show_nat n = (if n < 10 then [char_of (48 + n)] else show_nat (n div 10) @ [char_of (48 + n mod 10)])"

declare show_nat.simps [simp del]

lemma digits_val_append:
  "digits_val a (s @ t) = (case digits_val a s of Some b \<Rightarrow> digits_val b t | None \<Rightarrow> None)"
  by (induction s arbitrary: a) auto

lemma digits_val_show: "digits_val 0 (show_nat n) = Some n"
proof (induction n rule: show_nat.induct)
  case (1 n)
  show ?case
  proof (cases "n < 10")
    case True
    then show ?thesis
      by (subst show_nat.simps) (simp add: is_ascii_digit_def byte_char_of)
  next
    case False
    have "n mod 10 < 10" by simp
    with "1.IH" [OF False] False show ?thesis
      by (subst show_nat.simps) (simp add: digits_val_append is_ascii_digit_def byte_char_of)
  qed
qed

section \<open>Occurrences\<close>

definition occurs_at :: "str \<Rightarrow> str \<Rightarrow> nat \<Rightarrow> bool" where
  "occurs_at hay n i \<longleftrightarrow> i + length n \<le> length hay \<and> starts_with (drop i hay) n"

lemma occurs_at_iff: "occurs_at hay n i \<longleftrightarrow> (\<exists>a b. hay = a @ n @ b \<and> length a = i)"
proof
  assume "occurs_at hay n i"
  then obtain t where t: "drop i hay = n @ t" "i \<le> length hay"
    by (auto simp: occurs_at_def starts_with_iff)
  then have "hay = take i hay @ n @ t \<and> length (take i hay) = i"
    by (metis append_take_drop_id length_take min.absorb2)
  then show "\<exists>a b. hay = a @ n @ b \<and> length a = i" by blast
qed (auto simp: occurs_at_def starts_with_iff)

lemma occurs_at_drop: "frm \<le> length hay \<Longrightarrow> occurs_at (drop frm hay) n i \<longleftrightarrow> occurs_at hay n (frm + i)"
  by (auto simp: occurs_at_def add.commute)

lemma find_from_first:
  "find_from i s n = Some k \<Longrightarrow> j < k - i \<Longrightarrow> \<not> occurs_at s n j"
proof (induction s arbitrary: i j)
  case (Cons c s)
  show ?case
  proof (cases "starts_with (c # s) n")
    case True
    with Cons.prems show ?thesis by (simp del: starts_with_Cons)
  next
    case False
    with Cons.prems(1) have f: "find_from (Suc i) s n = Some k" by (simp del: starts_with_Cons)
    show ?thesis
    proof (cases j)
      case 0
      with False show ?thesis by (simp add: occurs_at_def del: starts_with_Cons)
    next
      case (Suc j')
      have "\<not> occurs_at s n j'" using Cons.IH [OF f, of j'] Cons.prems(2) Suc by simp
      then show ?thesis using Suc by (simp add: occurs_at_def)
    qed
  qed
qed (simp split: if_splits)

lemma find_str_first: "find_str s n = Some k \<Longrightarrow> occurs_at s n k \<and> (\<forall>j<k. \<not> occurs_at s n j)"
  unfolding find_str_def using find_from_first [of 0 s n k] find_from_Some [of 0 s n k]
  by (auto simp: occurs_at_def)

lemma find_str_None_occurs: "find_str s n = None \<longleftrightarrow> (\<forall>i. \<not> occurs_at s n i)"
  by (auto simp: find_str_None occurs_at_iff)

lemma occurs_at_nth: "occurs_at hay n i \<Longrightarrow> j < length n \<Longrightarrow> hay ! (i + j) = n ! j"
  by (auto simp: occurs_at_iff nth_append)

end
