(* ===== verification/Json.thy ===== *)
theory Json
  imports RustText
begin

text \<open>
  \<open>serde_json::Value\<close> and the accessors the program uses. Objects are kept sorted by key without
  duplicates (\<open>obj_insert\<close> is \<open>BTreeMap::insert\<close>). Numbers are integers: the modelled code
  stores and returns numbers but never computes with a fraction.
\<close>

datatype json =
    JNull
  | JBool bool
  | JNum int
  | JStr str
  | JArr "json list"
  | JObj "(str \<times> json) list"

fun obj_insert :: "str \<Rightarrow> json \<Rightarrow> (str \<times> json) list \<Rightarrow> (str \<times> json) list" where
  "obj_insert k v [] = [(k, v)]"
| "obj_insert k v ((k', v') # m) =
     (if k < k' then (k, v) # (k', v') # m
      else if k = k' then (k, v) # m
      else (k', v') # obj_insert k v m)"

text \<open>\<open>json!({ k: v, .. })\<close>\<close>

definition obj :: "(str \<times> json) list \<Rightarrow> json" where
  "obj kvs = JObj (foldl (\<lambda>m (k, v). obj_insert k v m) [] kvs)"

text \<open>\<open>v.get(key)\<close>, \<open>as_str\<close>, \<open>as_array\<close>, \<open>as_object\<close>, \<open>as_bool\<close>.\<close>

fun as_object :: "json \<Rightarrow> (str \<times> json) list option" where
  "as_object (JObj m) = Some m"
| "as_object _ = None"

fun as_str :: "json \<Rightarrow> str option" where
  "as_str (JStr s) = Some s"
| "as_str _ = None"

fun as_array :: "json \<Rightarrow> json list option" where
  "as_array (JArr xs) = Some xs"
| "as_array _ = None"

fun as_bool :: "json \<Rightarrow> bool option" where
  "as_bool (JBool b) = Some b"
| "as_bool _ = None"

definition jget :: "json \<Rightarrow> str \<Rightarrow> json option" where
  "jget v k = (case as_object v of Some m \<Rightarrow> map_of m k | None \<Rightarrow> None)"

definition jget_str :: "json \<Rightarrow> str \<Rightarrow> str option" where
  "jget_str v k = Option.bind (jget v k) as_str"

definition jget_array :: "json \<Rightarrow> str \<Rightarrow> json list option" where
  "jget_array v k = Option.bind (jget v k) as_array"

definition is_object :: "json \<Rightarrow> bool" where
  "is_object v \<longleftrightarrow> as_object v \<noteq> None"

lemmas [json_simps] = jget_def jget_str_def jget_array_def is_object_def obj_def

lemma map_of_obj_insert [simp]:
  "map_of (obj_insert k v m) k' = (if k' = k then Some v else map_of m k')"
  by (induction k v m rule: obj_insert.induct) auto

lemma jget_JObj [simp]: "jget (JObj m) k = map_of m k"
  by (simp add: jget_def)

lemma set_obj_insert: "fst ` set (obj_insert k v m) = insert k (fst ` set m)"
  by (induction k v m rule: obj_insert.induct) auto

definition obj_wf :: "(str \<times> json) list \<Rightarrow> bool" where
  "obj_wf m \<longleftrightarrow> sorted_wrt (<) (map fst m)"

lemma obj_wf_insert [wf_intros]: "obj_wf m \<Longrightarrow> obj_wf (obj_insert k v m)"
  by (induction k v m rule: obj_insert.induct)
    (auto simp: obj_wf_def set_obj_insert dest: less_trans)

end
