(* ===== verification/Errors.thy ===== *)
theory Errors
  imports Json
begin

text \<open>
  The two error envelopes: \<open>ApiError\<close> of the dashboard API (\<open>server/error.rs\<close>) and
  \<open>BridgeError\<close> of the HTTP bridge (\<open>bridge/error.rs\<close>). A status is its HTTP number. A
  \<open>Result<T, E>\<close> is a sum with the error on the left.
\<close>

section \<open>The dashboard's error (server/error.rs)\<close>

record api_error =
  ae_status :: nat
  ae_code :: str
  ae_message :: str
  ae_extra :: "(str \<times> json) list"
  ae_retry_after :: "nat option"

definition api_new :: "nat \<Rightarrow> str \<Rightarrow> str \<Rightarrow> api_error" where
  "api_new status code message =
     \<lparr>ae_status = status, ae_code = code, ae_message = message, ae_extra = [], ae_retry_after = None\<rparr>"

definition api_with :: "api_error \<Rightarrow> str \<Rightarrow> json \<Rightarrow> api_error" where
  "api_with e key v = e\<lparr>ae_extra := obj_insert key v (ae_extra e)\<rparr>"

definition api_bad_request :: "str \<Rightarrow> api_error" where
  "api_bad_request m = api_new 400 ''bad_request'' m"

definition api_unauthorized :: "str \<Rightarrow> api_error" where
  "api_unauthorized m = api_new 401 ''unauthorized'' m"

definition api_forbidden :: "str \<Rightarrow> str \<Rightarrow> api_error" where
  "api_forbidden code m = api_new 403 code m"

definition api_dangerous_blocked :: "str \<Rightarrow> api_error" where
  "api_dangerous_blocked m = api_forbidden ''dangerous_blocked'' m"

definition api_not_found :: "str \<Rightarrow> str \<Rightarrow> api_error" where
  "api_not_found code m = api_new 404 code m"

definition api_no_such_session :: "str \<Rightarrow> api_error" where
  "api_no_such_session i = api_not_found ''session_not_found'' (''No session '' @ i @ ''.'')"

definition api_conflict :: "str \<Rightarrow> str \<Rightarrow> api_error" where
  "api_conflict code m = api_new 409 code m"

definition api_unprocessable :: "str \<Rightarrow> str \<Rightarrow> api_error" where
  "api_unprocessable code m = api_new 422 code m"

definition api_internal :: "str \<Rightarrow> api_error" where
  "api_internal m = api_new 500 ''internal'' m"

definition api_not_implemented :: "str \<Rightarrow> api_error" where
  "api_not_implemented what = api_new 501 ''not_implemented'' (what @ '' is not implemented yet.'')"

definition api_too_many_requests :: "nat \<Rightarrow> str \<Rightarrow> api_error" where
  "api_too_many_requests secs m =
     (let e = (api_new 429 ''rate_limited'' m)\<lparr>ae_retry_after := Some (max secs 1)\<rparr>
      in api_with e ''retryAfter'' (JNum (int (max secs 1))))"

definition merge_extra :: "(str \<times> json) list \<Rightarrow> (str \<times> json) list \<Rightarrow> (str \<times> json) list" where
  "merge_extra extra m = fold (\<lambda>(k, v) m. obj_insert k v m) extra m"

definition api_body :: "api_error \<Rightarrow> json" where
  "api_body e =
     (let m = obj_insert ''message'' (JStr (ae_message e)) (obj_insert ''code'' (JStr (ae_code e)) [])
      in obj [(''error'', JObj (merge_extra (ae_extra e) m))])"

section \<open>The bridge's error (bridge/error.rs)\<close>

record bridge_error =
  be_status :: nat
  be_code :: str
  be_message :: str
  be_extra :: "(str \<times> json) list"

definition bridge_new :: "nat \<Rightarrow> str \<Rightarrow> str \<Rightarrow> bridge_error" where
  "bridge_new status code message =
     \<lparr>be_status = status, be_code = code, be_message = message, be_extra = []\<rparr>"

text \<open>A \<open>null\<close> value is dropped.\<close>

definition bridge_with :: "bridge_error \<Rightarrow> str \<Rightarrow> json \<Rightarrow> bridge_error" where
  "bridge_with e key v =
     (if v \<noteq> JNull then e\<lparr>be_extra := obj_insert key v (be_extra e)\<rparr> else e)"

definition bridge_body :: "bridge_error \<Rightarrow> json" where
  "bridge_body e =
     (let m = obj_insert ''message'' (JStr (be_message e)) (obj_insert ''code'' (JStr (be_code e)) [])
      in obj [(''error'', JObj (merge_extra (be_extra e) m))])"

definition bridge_not_found :: "str \<Rightarrow> str \<Rightarrow> bridge_error" where
  "bridge_not_found code m = bridge_new 404 code m"

definition bridge_operation_not_found :: "str \<Rightarrow> bridge_error" where
  "bridge_operation_not_found i =
     bridge_with (bridge_not_found ''operation_not_found''
       ''Operation expired or belongs to a previous server process.'') ''operation_id'' (JStr i)"

definition bridge_conflict :: "str \<Rightarrow> str \<Rightarrow> bridge_error" where
  "bridge_conflict code m = bridge_new 409 code m"

definition bridge_busy :: "str \<Rightarrow> bridge_error" where
  "bridge_busy m = bridge_conflict ''busy'' m"

definition bridge_events_expired :: bridge_error where
  "bridge_events_expired = bridge_new 410 ''events_expired''
     ''The requested events are no longer retained; read the operation result instead.''"

definition bridge_unprocessable :: "str \<Rightarrow> str \<Rightarrow> bridge_error" where
  "bridge_unprocessable code m = bridge_new 422 code m"

definition bridge_invalid_cursor :: "str \<Rightarrow> bridge_error" where
  "bridge_invalid_cursor m = bridge_unprocessable ''invalid_cursor'' m"

text \<open>A bridge error shown by the dashboard API keeps its status, code and context.\<close>

definition api_of_bridge :: "bridge_error \<Rightarrow> api_error" where
  "api_of_bridge e = (api_new (be_status e) (be_code e) (be_message e))\<lparr>ae_extra := be_extra e\<rparr>"

section \<open>Lemmas\<close>

lemma map_of_merge_extra:
  "map_of (merge_extra xs m) k = (case map_of (rev xs) k of Some v \<Rightarrow> Some v | None \<Rightarrow> map_of m k)"
  by (induction xs arbitrary: m)
    (auto simp: merge_extra_def map_add_def split: option.splits)

lemma obj_wf_merge_extra [wf_intros]: "obj_wf m \<Longrightarrow> obj_wf (merge_extra xs m)"
  by (induction xs arbitrary: m) (auto simp: merge_extra_def intro: wf_intros)

lemma api_with_simps [simp]:
  "ae_status (api_with e k v) = ae_status e" "ae_code (api_with e k v) = ae_code e"
  "ae_message (api_with e k v) = ae_message e" "ae_retry_after (api_with e k v) = ae_retry_after e"
  by (simp_all add: api_with_def)

lemma bridge_with_simps [simp]:
  "be_status (bridge_with e k v) = be_status e" "be_code (bridge_with e k v) = be_code e"
  "be_message (bridge_with e k v) = be_message e"
  by (simp_all add: bridge_with_def)

lemma api_new_simps [simp]:
  "ae_status (api_new s c m) = s" "ae_code (api_new s c m) = c" "ae_message (api_new s c m) = m"
  "ae_extra (api_new s c m) = []" "ae_retry_after (api_new s c m) = None"
  by (simp_all add: api_new_def)

lemma bridge_new_simps [simp]:
  "be_status (bridge_new s c m) = s" "be_code (bridge_new s c m) = c"
  "be_message (bridge_new s c m) = m" "be_extra (bridge_new s c m) = []"
  by (simp_all add: bridge_new_def)

lemma api_body_of_bridge: "api_body (api_of_bridge e) = bridge_body e"
  by (simp add: api_body_def bridge_body_def api_of_bridge_def)

lemma bridge_body_code:
  assumes "map_of (be_extra e) ''code'' = None"
  shows "\<exists>m. bridge_body e = JObj [(''error'', JObj m)] \<and> map_of m ''code'' = Some (JStr (be_code e))"
proof -
  have "map_of (rev (be_extra e)) ''code'' = None"
    using assms by (simp add: map_of_eq_None_iff)
  then show ?thesis
    by (simp add: bridge_body_def obj_def map_of_merge_extra)
qed

end
