(* ===== verification/RustPath.thy ===== *)
theory RustPath
  imports RustText "HOL-Library.Sublist"
begin

text \<open>
  \<open>std::path\<close> on Unix: a path is its list of components, which is all that \<open>Path\<close>'s equality,
  \<open>join\<close>, \<open>pop\<close>, \<open>parent\<close>, \<open>file_name\<close> and \<open>starts_with\<close> look at. Repeated slashes vanish,
  a \<open>.\<close> survives only at the very start of a relative path, \<open>..\<close> is kept.
\<close>

datatype comp = RootDir | CurDir | ParentDir | Normal str

type_synonym path = "comp list"

definition comp_of_part :: "str \<Rightarrow> comp list" where
  "comp_of_part p =
     (if p = '''' \<or> p = ''.'' then [] else if p = ''..'' then [ParentDir] else [Normal p])"

definition components :: "str \<Rightarrow> path" where
  "components s =
     (let parts = split_byte (CHR ''/'') s
      in (if starts_with s ''/'' then [RootDir] else if hd parts = ''.'' then [CurDir] else [])
         @ concat (map comp_of_part parts))"

definition is_absolute :: "path \<Rightarrow> bool" where
  "is_absolute p \<longleftrightarrow> (case p of RootDir # _ \<Rightarrow> True | _ \<Rightarrow> False)"

text \<open>\<open>a.join(b)\<close> (\<open>push\<close>): an absolute \<open>b\<close> replaces \<open>a\<close>; the leading \<open>.\<close> of a relative \<open>b\<close>
  disappears once it is no longer in front.\<close>

definition path_join :: "path \<Rightarrow> path \<Rightarrow> path" where
  "path_join a b =
     (if is_absolute b then b
      else if a = [] then b
      else a @ (case b of CurDir # r \<Rightarrow> r | _ \<Rightarrow> b))"

definition path_parent :: "path \<Rightarrow> path option" where
  "path_parent p = (if p = [] \<or> last p = RootDir then None else Some (butlast p))"

definition path_pop :: "path \<Rightarrow> path" where
  "path_pop p = (case path_parent p of Some q \<Rightarrow> q | None \<Rightarrow> p)"

definition path_file_name :: "path \<Rightarrow> str option" where
  "path_file_name p = (if p = [] then None else case last p of Normal s \<Rightarrow> Some s | _ \<Rightarrow> None)"

definition path_starts_with :: "path \<Rightarrow> path \<Rightarrow> bool" where
  "path_starts_with p base \<longleftrightarrow> take (length base) p = base"

lemma path_starts_with_iff: "path_starts_with p base \<longleftrightarrow> (\<exists>r. p = base @ r)"
  unfolding path_starts_with_def by (metis append_eq_conv_conj)

lemma path_starts_with_refl [simp]: "path_starts_with p p"
  by (simp add: path_starts_with_def)

lemma path_starts_with_trans:
  "path_starts_with p q \<Longrightarrow> path_starts_with q r \<Longrightarrow> path_starts_with p r"
  by (auto simp: path_starts_with_iff)

lemma components_simple:
  assumes "s \<noteq> []" "CHR ''/'' \<notin> set s" "s \<noteq> ''.''" "s \<noteq> ''..''"
  shows "components s = [Normal s]"
proof -
  have "\<not> starts_with s ''/''" using assms by (cases s) auto
  then show ?thesis
    using assms by (simp add: components_def split_byte_no_sep comp_of_part_def)
qed

text \<open>A path is well formed when its root, if any, is in front and a \<open>.\<close> only at the start.\<close>

definition path_ok :: "path \<Rightarrow> bool" where
  "path_ok p \<longleftrightarrow> RootDir \<notin> set (tl p) \<and> CurDir \<notin> set (tl p)"

lemma comp_of_part_plain: "c \<in> set (comp_of_part x) \<Longrightarrow> c \<noteq> RootDir \<and> c \<noteq> CurDir"
  by (auto simp: comp_of_part_def split: if_splits)

lemma set_tl_subset: "set (tl xs) \<subseteq> set xs"
  by (cases xs) auto

lemma components_ok: "path_ok (components s)"
proof -
  define parts where "parts = split_byte (CHR ''/'') s"
  have body: "RootDir \<notin> set (concat (map comp_of_part parts))"
    "CurDir \<notin> set (concat (map comp_of_part parts))"
    by (auto dest: comp_of_part_plain)
  then have "RootDir \<notin> set (tl (concat (map comp_of_part parts)))"
    "CurDir \<notin> set (tl (concat (map comp_of_part parts)))"
    using set_tl_subset [of "concat (map comp_of_part parts)"] by blast+
  with body show ?thesis
    by (simp add: components_def path_ok_def parts_def [symmetric] Let_def del: set_concat)
qed

lemma path_ok_append:
  "path_ok (a @ b) \<longleftrightarrow>
     path_ok a \<and> (if a = [] then path_ok b else RootDir \<notin> set b \<and> CurDir \<notin> set b)"
  by (cases a) (auto simp: path_ok_def)

lemma path_ok_join: "path_ok a \<Longrightarrow> path_ok b \<Longrightarrow> path_ok (path_join a b)"
  by (cases b)
    (auto simp: path_join_def path_ok_append path_ok_def is_absolute_def split: comp.splits)

lemma path_join_under:
  "\<not> is_absolute b \<Longrightarrow> path_starts_with (path_join a b) a"
  by (auto simp: path_join_def path_starts_with_iff)

end
