(* ===== verification/Ids.thy ===== *)
theory Ids
  imports Errors RustPath
begin

text \<open>
  \<open>claude/ids.rs\<close>: the validators every id passes before it reaches a path, a glob or an argv.
  The lemmas show what the paths built from them rely on: an accepted id is one plain path
  component, an accepted relative path stays under the directory it is joined to.
\<close>

definition is_uuid :: "str \<Rightarrow> bool" where
  "is_uuid s \<longleftrightarrow>
     length s = 36 \<and>
     list_all (\<lambda>(i, c). if i = 8 \<or> i = 13 \<or> i = 18 \<or> i = 23 then c = CHR ''-''
                         else is_ascii_digit c \<or> is_hex_letter c)
       (List.enumerate 0 s)"

definition is_session_id :: "str \<Rightarrow> bool" where
  "is_session_id s \<longleftrightarrow> is_uuid s"

definition simple :: "str \<Rightarrow> nat \<Rightarrow> bool" where
  "simple s maxlen \<longleftrightarrow>
     s \<noteq> [] \<and> length s \<le> maxlen
     \<and> list_all (\<lambda>c. is_ascii_alnum c \<or> c = CHR ''_'' \<or> c = CHR ''-'') s"

definition is_simple_id :: "str \<Rightarrow> bool" where
  "is_simple_id s \<longleftrightarrow> simple s 80"

definition is_agent_id :: "str \<Rightarrow> bool" where
  "is_agent_id s \<longleftrightarrow> is_simple_id s"

definition is_task_id :: "str \<Rightarrow> bool" where
  "is_task_id s \<longleftrightarrow> is_simple_id s"

definition is_tool_use_id :: "str \<Rightarrow> bool" where
  "is_tool_use_id s \<longleftrightarrow> is_simple_id s"

definition is_run_id :: "str \<Rightarrow> bool" where
  "is_run_id s \<longleftrightarrow>
     (case strip_prefix s ''wf_'' of Some rest \<Rightarrow> simple rest 64 | None \<Rightarrow> False)"

definition is_short_job_id :: "str \<Rightarrow> bool" where
  "is_short_job_id s \<longleftrightarrow>
     6 \<le> length s \<and> length s \<le> 16 \<and> list_all (\<lambda>c. is_ascii_digit c \<or> is_hex_letter c) s"

text \<open>One index of a block path, and the whole path (\<open>collect::<Option<Vec<_>>>\<close>).\<close>

definition parse_block_part :: "str \<Rightarrow> nat option" where
  "parse_block_part p =
     (if p = [] \<or> length p > 5 \<or> \<not> list_all is_ascii_digit p then None
      else parse_uint 65535 p)"

fun collect_some :: "'a option list \<Rightarrow> 'a list option" where
  "collect_some [] = Some []"
| "collect_some (None # _) = None"
| "collect_some (Some x # xs) = map_option ((#) x) (collect_some xs)"

definition parse_block_path :: "str \<Rightarrow> nat list option" where
  "parse_block_path s =
     (if s = [] \<or> length s > 32 then None
      else case collect_some (map parse_block_part (split_byte (CHR ''.'') s)) of
             None \<Rightarrow> None
           | Some v \<Rightarrow> if v \<noteq> [] \<and> length v \<le> 4 then Some v else None)"

definition require_session_id :: "str \<Rightarrow> api_error + unit" where
  "require_session_id i =
     (if is_session_id i then Inr ()
      else Inl (api_new 400 ''invalid_id'' ''Not a valid session id.''))"

definition require_simple_id :: "str \<Rightarrow> str \<Rightarrow> api_error + unit" where
  "require_simple_id i what =
     (if is_simple_id i then Inr ()
      else Inl (api_new 400 ''invalid_id'' (''Not a valid '' @ what @ ''.'')))"

text \<open>The file system's \<open>canonicalize\<close> is the parameter \<open>canon\<close> (\<open>None\<close>: the path does not
  exist).\<close>

definition under_root :: "(path \<Rightarrow> path option) \<Rightarrow> path \<Rightarrow> path \<Rightarrow> path option" where
  "under_root canon root candidate =
     (case canon root of None \<Rightarrow> None
      | Some r \<Rightarrow>
         (case canon candidate of None \<Rightarrow> None
          | Some real \<Rightarrow> if path_starts_with real r then Some real else None))"

definition is_safe_relative_path :: "str \<Rightarrow> bool" where
  "is_safe_relative_path p \<longleftrightarrow>
     \<not> (p = [] \<or> length p > 4096 \<or> contains p [CHR 0x00] \<or> starts_with p ''/''
        \<or> starts_with p [CHR 0x5C])
     \<and> list_all (\<lambda>c. case c of Normal _ \<Rightarrow> True | CurDir \<Rightarrow> True | _ \<Rightarrow> False) (components p)"

section \<open>An accepted id is one plain path component\<close>

lemma id_char_plain:
  "is_ascii_alnum c \<or> c = CHR ''_'' \<or> c = CHR ''-''
     \<Longrightarrow> c \<noteq> CHR ''/'' \<and> c \<noteq> CHR ''.'' \<and> c \<noteq> CHR ''*'' \<and> c \<noteq> CHR ''?'' \<and> c \<noteq> CHR ''['' \<and> c \<noteq> CHR 0x00"
  by (auto simp: byte_simps)

lemma simple_component:
  assumes "simple s n"
  shows "components s = [Normal s]"
proof (rule components_simple)
  have chars: "\<And>c. c \<in> set s \<Longrightarrow> c \<noteq> CHR ''/'' \<and> c \<noteq> CHR ''.''"
    using assms id_char_plain by (auto simp: simple_def list_all_iff)
  show "s \<noteq> []" using assms by (simp add: simple_def)
  show "CHR ''/'' \<notin> set s" using chars by blast
  show "s \<noteq> ''.''" "s \<noteq> ''..''" using chars by auto
qed

lemma simple_mono: "simple s n \<Longrightarrow> n \<le> m \<Longrightarrow> simple s m"
  by (simp add: simple_def)

lemma uuid_char:
  assumes "is_uuid s" "c \<in> set s"
  shows "is_ascii_alnum c \<or> c = CHR ''_'' \<or> c = CHR ''-''"
proof -
  from assms(2) obtain i where "i < length s" "s ! i = c"
    by (auto simp: in_set_conv_nth)
  then have "(i, c) \<in> set (List.enumerate 0 s)"
    by (force simp: in_set_enumerate_eq)
  with assms(1) have "if i = 8 \<or> i = 13 \<or> i = 18 \<or> i = 23 then c = CHR ''-''
      else is_ascii_digit c \<or> is_hex_letter c"
    unfolding is_uuid_def list_all_iff by blast
  then show ?thesis
    by (auto simp: byte_simps split: if_splits)
qed

lemma uuid_simple: "is_uuid s \<Longrightarrow> is_simple_id s"
  using uuid_char [of s] by (auto simp: is_simple_id_def simple_def is_uuid_def list_all_iff)

lemma run_id_simple: "is_run_id s \<Longrightarrow> simple s 67"
  by (auto simp: is_run_id_def strip_prefix_def simple_def starts_with_iff byte_simps list_all_iff
      simp del: starts_with_Cons split: option.splits if_splits)

lemma short_job_simple: "is_short_job_id s \<Longrightarrow> simple s 16"
  by (auto simp: is_short_job_id_def simple_def byte_simps list_all_iff)

lemmas ids_simple = uuid_simple run_id_simple short_job_simple

lemma accepted_component:
  "is_session_id s \<or> is_simple_id s \<or> is_agent_id s \<or> is_task_id s \<or> is_tool_use_id s
     \<or> is_run_id s \<or> is_short_job_id s \<Longrightarrow> components s = [Normal s]"
  using ids_simple [of s] simple_component [of s]
  by (auto simp: is_session_id_def is_agent_id_def is_task_id_def is_tool_use_id_def is_simple_id_def)

section \<open>Block paths\<close>

lemma collect_some_eq: "collect_some os = Some xs \<longleftrightarrow> os = map Some xs"
proof (induction os arbitrary: xs rule: collect_some.induct)
  case (3 x os)
  then show ?case by (cases xs) auto
qed auto

definition show_block_path :: "nat list \<Rightarrow> str" where
  "show_block_path v = join ''.'' (map show_nat v)"

lemma show_nat_digits: "list_all is_ascii_digit (show_nat n)"
proof (induction n rule: show_nat.induct)
  case (1 n)
  have d: "is_ascii_digit (char_of (48 + n mod 10))"
    by (simp add: is_ascii_digit_def byte_char_of less_Suc_eq_le [symmetric])
  show ?case
  proof (cases "n < 10")
    case True
    with d show ?thesis by (subst show_nat.simps) simp
  next
    case False
    with "1.IH" d show ?thesis by (subst show_nat.simps) simp
  qed
qed

lemma show_nat_nonempty [simp]: "show_nat n \<noteq> []"
  by (subst show_nat.simps) simp

lemma length_show_nat: "n < 10 ^ k \<Longrightarrow> 0 < k \<Longrightarrow> length (show_nat n) \<le> k"
proof (induction k arbitrary: n)
  case (Suc k)
  show ?case
  proof (cases "n < 10")
    case True
    then show ?thesis by (subst show_nat.simps) simp
  next
    case False
    with Suc.prems have "n div 10 < 10 ^ k" "0 < k" by (auto intro: ccontr [of "0 < k"])
    with Suc.IH [of "n div 10"] False show ?thesis by (subst show_nat.simps) simp
  qed
qed simp

lemma show_nat_no_plus: "show_nat n = c # t \<Longrightarrow> byte c \<noteq> 43"
  using show_nat_digits [of n] by (auto simp: is_ascii_digit_def)

lemma parse_show_part: "n \<le> 65535 \<Longrightarrow> parse_block_part (show_nat n) = Some n"
proof -
  assume n: "n \<le> 65535"
  then have len: "length (show_nat n) \<le> 5" by (intro length_show_nat) auto
  have "(case show_nat n of c # t \<Rightarrow> if byte c = 43 then t else show_nat n | [] \<Rightarrow> []) = show_nat n"
    by (cases "show_nat n") (auto dest: show_nat_no_plus)
  then show ?thesis
    using n len show_nat_digits [of n]
    by (simp add: parse_block_part_def parse_uint_def digits_val_show)
qed

lemma split_join:
  "xs \<noteq> [] \<Longrightarrow> (\<And>x. x \<in> set xs \<Longrightarrow> d \<notin> set x) \<Longrightarrow> split_byte d (join [d] xs) = xs"
proof (induction xs rule: induct_list012)
  case (3 x y zs)
  have *: "split_byte d (a @ d # b) = a # split_byte d b" if "d \<notin> set a" for a b
    using that by (induction a) auto
  have "join [d] (x # y # zs) = x @ d # join [d] (y # zs)" by simp
  moreover have "split_byte d (join [d] (y # zs)) = y # zs"
    using "3.prems" by (intro "3.IH"(2)) auto
  ultimately show ?case using * [of x] "3.prems" by simp
qed (auto simp: split_byte_no_sep)

lemma length_join: "(\<And>x. x \<in> set xs \<Longrightarrow> length x \<le> k) \<Longrightarrow> length (join [d] xs) \<le> length xs * (k + 1)"
proof (induction xs rule: induct_list012)
  case (3 x y zs)
  have "length (join [d] (y # zs)) \<le> length (y # zs) * (k + 1)"
    using "3.prems" by (intro "3.IH"(2)) auto
  moreover have "length x \<le> k" using "3.prems" by simp
  ultimately show ?case by simp
qed auto

lemma join_nonempty: "xs \<noteq> [] \<Longrightarrow> (\<And>x. x \<in> set xs \<Longrightarrow> x \<noteq> []) \<Longrightarrow> join d xs \<noteq> []"
  by (induction xs rule: induct_list012) auto

lemma show_nat_no_dot: "CHR ''.'' \<notin> set (show_nat n)"
  using show_nat_digits [of n] by (auto simp: list_all_iff is_ascii_digit_def byte_def)

lemma collect_parse_show:
  "list_all (\<lambda>n. n \<le> 65535) v \<Longrightarrow> collect_some (map parse_block_part (map show_nat v)) = Some v"
  by (induction v) (auto simp: parse_show_part)

lemma block_path_bounds:
  assumes "parse_block_path s = Some v"
  shows "v \<noteq> [] \<and> length v \<le> 4 \<and> list_all (\<lambda>n. n \<le> 65535) v"
proof -
  from assms have c: "collect_some (map parse_block_part (split_byte (CHR ''.'') s)) = Some v"
    and v: "v \<noteq> []" "length v \<le> 4"
    by (auto simp: parse_block_path_def split: if_splits option.splits)
  from c have eq: "map parse_block_part (split_byte (CHR ''.'') s) = map Some v"
    by (simp add: collect_some_eq)
  have "n \<le> 65535" if "n \<in> set v" for n
  proof -
    from that have "Some n \<in> set (map Some v)" by simp
    then have "Some n \<in> set (map parse_block_part (split_byte (CHR ''.'') s))"
      unfolding eq by simp
    then obtain p where "parse_block_part p = Some n" by auto
    then show ?thesis by (auto simp: parse_block_part_def dest: parse_uint_le split: if_splits)
  qed
  with v show ?thesis by (simp add: list_all_iff)
qed

section \<open>Safe relative paths\<close>

lemma safe_relative_not_absolute: "is_safe_relative_path p \<Longrightarrow> \<not> is_absolute (components p)"
  by (auto simp: is_safe_relative_path_def is_absolute_def split: list.splits comp.splits)

lemma safe_relative_no_parent: "is_safe_relative_path p \<Longrightarrow> ParentDir \<notin> set (components p)"
  by (auto simp: is_safe_relative_path_def list_all_iff)

section \<open>Properties\<close>

text \<open>C34: An id accepted by any of the validators is exactly one plain path component, so joining it
  to a directory yields that directory's direct child and can never climb or name another root.\<close>

theorem accepted_id_is_child:
  assumes "is_session_id s \<or> is_simple_id s \<or> is_agent_id s \<or> is_task_id s \<or> is_tool_use_id s
     \<or> is_run_id s \<or> is_short_job_id s"
    and "dir \<noteq> []"
  shows "path_join dir (components s) = dir @ [Normal s]
    \<and> path_parent (path_join dir (components s)) = Some dir"
  using accepted_component [OF assms(1)] assms(2)
  by (simp add: path_join_def is_absolute_def path_parent_def)

theorem accepted_id_is_child_witness:
  "path_join [RootDir, Normal ''jobs''] (components ''631b387d'')
     = [RootDir, Normal ''jobs'', Normal ''631b387d'']"
proof -
  have "is_short_job_id ''631b387d''" by (simp add: is_short_job_id_def byte_simps)
  then show ?thesis
    using accepted_id_is_child [of "''631b387d''" "[RootDir, Normal ''jobs'']"] by simp
qed

text \<open>A relative path a client may send, joined to any directory, stays under that directory:
  the directory is a prefix of the result, and what follows holds no parent step and no root.\<close>

theorem safe_relative_stays_under:
  assumes "is_safe_relative_path p" and "dir \<noteq> []"
  shows "path_starts_with (path_join dir (components p)) dir
    \<and> ParentDir \<notin> set (drop (length dir) (path_join dir (components p)))
    \<and> RootDir \<notin> set (drop (length dir) (path_join dir (components p)))"
proof -
  have rel: "\<not> is_absolute (components p)" and up: "ParentDir \<notin> set (components p)"
    using assms(1) safe_relative_not_absolute safe_relative_no_parent by auto
  have root: "RootDir \<notin> set (components p)"
    using assms(1) by (auto simp: is_safe_relative_path_def list_all_iff)
  show ?thesis
    using path_join_under [OF rel, of dir] rel up root assms(2)
    by (auto simp: path_join_def split: list.splits comp.splits)
qed

theorem safe_relative_stays_under_witness:
  "path_starts_with (path_join [RootDir, Normal ''repo''] (components ''./src/main.rs''))
     [RootDir, Normal ''repo'']"
proof -
  have "is_safe_relative_path ''./src/main.rs''"
    by (simp add: is_safe_relative_path_def contains_def find_str_def components_def comp_of_part_def)
  then show ?thesis
    using safe_relative_stays_under [of "''./src/main.rs''" "[RootDir, Normal ''repo'']"] by simp
qed

text \<open>Block paths round-trip: every list of one to four 16-bit indices, written with dots, parses
  back to itself.\<close>

theorem block_path_roundtrip:
  assumes "v \<noteq> []" and "length v \<le> 4" and "list_all (\<lambda>n. n \<le> 65535) v"
  shows "parse_block_path (show_block_path v) = Some v"
proof -
  have len: "length (show_block_path v) \<le> 32"
  proof -
    have "length (show_block_path v) \<le> length (map show_nat v) * (5 + 1)"
      unfolding show_block_path_def using assms(3)
      by (intro length_join) (auto simp: list_all_iff intro!: length_show_nat)
    with assms(2) show ?thesis by simp
  qed
  have split: "split_byte (CHR ''.'') (show_block_path v) = map show_nat v"
    unfolding show_block_path_def using assms(1) show_nat_no_dot by (intro split_join) auto
  have "show_block_path v \<noteq> []"
    unfolding show_block_path_def using assms(1) by (intro join_nonempty) auto
  then show ?thesis
    using assms len collect_parse_show [OF assms(3)] by (simp add: parse_block_path_def split)
qed

theorem block_path_roundtrip_witness:
  "parse_block_path (show_block_path [3, 65535, 0]) = Some [3, 65535, 0]"
  using block_path_roundtrip [of "[3, 65535, 0]"] by simp

end
