(* ===== verification/EventLog.thy ===== *)
theory EventLog
  imports Errors
begin

text \<open>
  \<open>bridge/events.rs\<close>: the bounded replay log behind every event stream. The state is the
  mutex-guarded \<open>Inner\<close> plus the two caps; sequence numbers and byte counts are natural numbers
  (a \<open>u64\<close> / \<open>usize\<close> that would take 2^64 appends or bytes to wrap). A reader's wait on the
  watch channel is the list of states in which it was woken, then the state at its timeout.
\<close>

section \<open>The log\<close>

definition MAX_EVENTS :: nat where
  "MAX_EVENTS = 2048"

definition MAX_BYTES :: nat where
  "MAX_BYTES = 8 * 1024 * 1024"

record log_event =
  le_seq :: nat
  le_data :: str

record event_log =
  el_events :: "log_event list"
  el_bytes :: nat
  el_sequence :: nat
  el_closed :: bool
  el_max_events :: nat
  el_max_bytes :: nat

record read_out =
  ro_events :: "log_event list"
  ro_closed :: bool

definition log_new :: "nat \<Rightarrow> nat \<Rightarrow> event_log" where
  "log_new me mb =
     \<lparr>el_events = [], el_bytes = 0, el_sequence = 0, el_closed = False,
      el_max_events = me, el_max_bytes = mb\<rparr>"

definition log_default :: event_log where
  "log_default = log_new MAX_EVENTS MAX_BYTES"

text \<open>The eviction loop: it stops at one event, even one larger than the byte cap.\<close>

fun evict :: "nat \<Rightarrow> nat \<Rightarrow> log_event list \<Rightarrow> nat \<Rightarrow> log_event list \<times> nat" where
  "evict me mb [] b = ([], b)"
| "evict me mb (e # es) b =
     (if length (e # es) > 1 \<and> (length (e # es) > me \<or> b > mb)
      then evict me mb es (b - length (le_data e))
      else (e # es, b))"

definition append_raw :: "event_log \<Rightarrow> str \<Rightarrow> event_log \<times> nat option" where
  "append_raw l data =
     (if el_closed l then (l, None)
      else let seq = el_sequence l + 1;
               evs = el_events l @ [\<lparr>le_seq = seq, le_data = data\<rparr>];
               (evs', b') = evict (el_max_events l) (el_max_bytes l) evs (el_bytes l + length data)
           in (l\<lparr>el_events := evs', el_bytes := b', el_sequence := seq\<rparr>, Some seq))"

text \<open>\<open>append\<close> serialises a JSON value first; the serialiser is the parameter \<open>ser\<close>.\<close>

definition log_append :: "(json \<Rightarrow> str) \<Rightarrow> event_log \<Rightarrow> json \<Rightarrow> event_log \<times> nat option" where
  "log_append ser l v = append_raw l (ser v)"

definition log_close :: "event_log \<Rightarrow> event_log" where
  "log_close l = (if el_closed l then l else l\<lparr>el_closed := True\<rparr>)"

definition oldest_cursor :: "event_log \<Rightarrow> nat" where
  "oldest_cursor l = (case el_events l of e # _ \<Rightarrow> le_seq e - 1 | [] \<Rightarrow> el_sequence l)"

definition check_cursor :: "event_log \<Rightarrow> nat \<Rightarrow> bridge_error + unit" where
  "check_cursor l after =
     (if after > el_sequence l
      then Inl (bridge_with (bridge_invalid_cursor
             (''Cursor '' @ show_nat after @ '' is ahead of the newest event ''
              @ show_nat (el_sequence l) @ ''.''))
             ''newest_event_id'' (JNum (int (el_sequence l))))
      else case el_events l of
             [] \<Rightarrow> Inr ()
           | front # _ \<Rightarrow>
               if after < le_seq front - 1
               then Inl (bridge_with (bridge_with bridge_events_expired
                      ''oldest_event_id'' (JNum (int (le_seq front))))
                      ''requested_after'' (JNum (int after)))
               else Inr ())"

text \<open>One pass of the reader: the events after the cursor when there are any or the log is closed,
  otherwise \<open>None\<close> (keep waiting).\<close>

definition read_look :: "event_log \<Rightarrow> nat \<Rightarrow> bridge_error + read_out option" where
  "read_look l after =
     (case check_cursor l after of
        Inl e \<Rightarrow> Inl e
      | Inr _ \<Rightarrow>
          let events = filter (\<lambda>e. le_seq e > after) (el_events l)
          in if events \<noteq> [] \<or> el_closed l
             then Inr (Some \<lparr>ro_events = events, ro_closed = el_closed l\<rparr>)
             else Inr None)"

fun log_read :: "event_log \<Rightarrow> nat \<Rightarrow> event_log list \<Rightarrow> event_log \<Rightarrow> bridge_error + read_out" where
  "log_read l after wakes at_timeout =
     (case read_look l after of
        Inl e \<Rightarrow> Inl e
      | Inr (Some out) \<Rightarrow> Inr out
      | Inr None \<Rightarrow>
          (case wakes of
             l' # ws \<Rightarrow> log_read l' after ws at_timeout
           | [] \<Rightarrow>
               (case check_cursor at_timeout after of
                  Inl e \<Rightarrow> Inl e
                | Inr _ \<Rightarrow> Inr \<lparr>ro_events = [], ro_closed = el_closed at_timeout\<rparr>)))"

declare log_read.simps [simp del]

section \<open>Invariant\<close>

declare upt_Suc [simp del]

definition data_bytes :: "log_event list \<Rightarrow> nat" where
  "data_bytes es = sum_list (map (\<lambda>e. length (le_data e)) es)"

text \<open>Sequence numbers are consecutive and end at the newest one; the byte counter is exact; the
  log is empty only before the first append.\<close>

definition log_wf :: "event_log \<Rightarrow> bool" where
  "log_wf l \<longleftrightarrow>
     length (el_events l) \<le> el_sequence l
     \<and> map le_seq (el_events l) = [Suc (el_sequence l) - length (el_events l) ..< Suc (el_sequence l)]
     \<and> el_bytes l = data_bytes (el_events l)
     \<and> (el_events l = [] \<longrightarrow> el_sequence l = 0)"

definition within_caps :: "nat \<Rightarrow> nat \<Rightarrow> log_event list \<Rightarrow> bool" where
  "within_caps me mb es \<longleftrightarrow> length es \<le> me \<and> data_bytes es \<le> mb"

lemma data_bytes_simps [simp]:
  "data_bytes [] = 0" "data_bytes (e # es) = length (le_data e) + data_bytes es"
  "data_bytes (xs @ ys) = data_bytes xs + data_bytes ys"
  by (simp_all add: data_bytes_def)

text \<open>The loop keeps a suffix and the exact byte count, so its subtraction never underflows; what
  it returns fits or is a single event, and whatever it dropped had to go.\<close>

lemma evict_spec:
  assumes "b = data_bytes es"
  shows "\<exists>k \<le> length es. evict me mb es b = (drop k es, data_bytes (drop k es))
     \<and> (es \<noteq> [] \<longrightarrow> k < length es)
     \<and> (length (drop k es) \<le> 1 \<or> within_caps me mb (drop k es))
     \<and> (0 < k \<longrightarrow> \<not> within_caps me mb (drop (k - 1) es))"
  using assms
proof (induction es arbitrary: b)
  case Nil
  then show ?case by simp
next
  case (Cons e es)
  show ?case
  proof (cases "length (e # es) > 1 \<and> (length (e # es) > me \<or> b > mb)")
    case True
    have "b - length (le_data e) = data_bytes es" using Cons.prems by simp
    from Cons.IH [OF this] obtain k where k: "k \<le> length es"
      "evict me mb es (b - length (le_data e)) = (drop k es, data_bytes (drop k es))"
      "es \<noteq> [] \<longrightarrow> k < length es"
      "length (drop k es) \<le> 1 \<or> within_caps me mb (drop k es)"
      "0 < k \<longrightarrow> \<not> within_caps me mb (drop (k - 1) es)" by blast
    have over: "\<not> within_caps me mb (e # es)"
      using True Cons.prems by (auto simp: within_caps_def)
    show ?thesis
    proof (intro exI [of _ "Suc k"] conjI)
      show "0 < Suc k \<longrightarrow> \<not> within_caps me mb (drop (Suc k - 1) (e # es))"
        using k(5) over by (cases k) auto
    qed (use True k in auto)
  next
    case False
    then show ?thesis
      using Cons.prems by (intro exI [of _ 0]) (auto simp: within_caps_def)
  qed
qed

lemma map_le_seq_drop:
  assumes "map le_seq es = [Suc s - length es ..< Suc s]" "length es \<le> s" "k \<le> length es"
  shows "map le_seq (drop k es) = [Suc s - length (drop k es) ..< Suc s]"
proof -
  have "map le_seq (drop k es) = drop k [Suc s - length es ..< Suc s]"
    by (metis assms(1) drop_map)
  moreover have "Suc s - length es + k = Suc s - (length es - k)"
    using assms(2,3) by arith
  ultimately show ?thesis by (simp add: drop_upt)
qed

text \<open>One append in terms of the history: the new events are a suffix of the old ones and the new
  one.\<close>

lemma append_raw_open:
  fixes l :: event_log and d :: str
  assumes "log_wf l" "\<not> el_closed l"
  defines "es \<equiv> el_events l @ [\<lparr>le_seq = Suc (el_sequence l), le_data = d\<rparr>]"
  obtains k where "k \<le> length (el_events l)"
    "append_raw l d = (l\<lparr>el_events := drop k es, el_bytes := data_bytes (drop k es),
                         el_sequence := Suc (el_sequence l)\<rparr>, Some (Suc (el_sequence l)))"
    "length (drop k es) \<le> 1 \<or> within_caps (el_max_events l) (el_max_bytes l) (drop k es)"
    "0 < k \<longrightarrow> \<not> within_caps (el_max_events l) (el_max_bytes l) (drop (k - 1) es)"
proof -
  have b: "el_bytes l + length d = data_bytes es"
    using assms(1) by (simp add: log_wf_def es_def)
  from evict_spec [OF b, of "el_max_events l" "el_max_bytes l"] obtain k where
    k: "k \<le> length es"
      "evict (el_max_events l) (el_max_bytes l) es (el_bytes l + length d)
         = (drop k es, data_bytes (drop k es))"
      "es \<noteq> [] \<longrightarrow> k < length es"
      "length (drop k es) \<le> 1 \<or> within_caps (el_max_events l) (el_max_bytes l) (drop k es)"
      "0 < k \<longrightarrow> \<not> within_caps (el_max_events l) (el_max_bytes l) (drop (k - 1) es)" by blast
  have "append_raw l d = (l\<lparr>el_events := drop k es, el_bytes := data_bytes (drop k es),
      el_sequence := Suc (el_sequence l)\<rparr>, Some (Suc (el_sequence l)))"
    using assms(2) k(2) by (simp add: append_raw_def es_def Let_def)
  moreover have "k \<le> length (el_events l)" using k(3) by (auto simp: es_def)
  ultimately show thesis using that k(4,5) by blast
qed

lemma append_raw_closed [simp]: "el_closed l \<Longrightarrow> append_raw l d = (l, None)"
  by (simp add: append_raw_def)

lemma log_wf_set_closed [simp]: "log_wf (l\<lparr>el_closed := c\<rparr>) = log_wf l"
  by (simp add: log_wf_def)

lemma log_wf_new [wf_intros]: "log_wf (log_new me mb)"
  by (simp add: log_wf_def log_new_def)

lemma log_wf_default [wf_intros]: "log_wf log_default"
  by (simp add: log_default_def wf_intros)

lemma log_wf_append [wf_intros]:
  assumes "log_wf l"
  shows "log_wf (fst (append_raw l d))"
proof (cases "el_closed l")
  case False
  define es where "es = el_events l @ [\<lparr>le_seq = Suc (el_sequence l), le_data = d\<rparr>]"
  from append_raw_open [OF assms False, of d] obtain k where k: "k \<le> length (el_events l)"
    "append_raw l d = (l\<lparr>el_events := drop k es, el_bytes := data_bytes (drop k es),
        el_sequence := Suc (el_sequence l)\<rparr>, Some (Suc (el_sequence l)))"
    unfolding es_def by metis
  have "map le_seq es = [Suc (Suc (el_sequence l)) - length es ..< Suc (Suc (el_sequence l))]"
    using assms by (simp add: es_def log_wf_def upt_Suc_append)
  moreover have "length es \<le> Suc (el_sequence l)" "k < length es"
    using assms k(1) by (auto simp: es_def log_wf_def)
  ultimately have "map le_seq (drop k es)
      = [Suc (Suc (el_sequence l)) - length (drop k es) ..< Suc (Suc (el_sequence l))]"
    by (intro map_le_seq_drop) auto
  with k(2) \<open>length es \<le> Suc (el_sequence l)\<close> \<open>k < length es\<close> show ?thesis
    by (simp add: log_wf_def)
qed (use assms in simp)

lemma log_wf_close [wf_intros]: "log_wf l \<Longrightarrow> log_wf (log_close l)"
  by (simp add: log_close_def log_wf_def)

section \<open>The log as an event sink\<close>

text \<open>What the operations rely on: an open log numbers each frame one above the last and keeps it,
  a closed one takes nothing more.\<close>

locale event_sink =
  fixes app :: "'l \<Rightarrow> str \<Rightarrow> 'l \<times> nat option"
    and close :: "'l \<Rightarrow> 'l"
    and closed :: "'l \<Rightarrow> bool"
    and head :: "'l \<Rightarrow> nat"
    and newest :: "'l \<Rightarrow> str option"
    and ok :: "'l \<Rightarrow> bool"
  assumes app_closed: "closed l \<Longrightarrow> app l d = (l, None)"
    and app_open: "ok l \<Longrightarrow> \<not> closed l \<Longrightarrow>
       snd (app l d) = Some (Suc (head l)) \<and> head (fst (app l d)) = Suc (head l)
       \<and> \<not> closed (fst (app l d)) \<and> newest (fst (app l d)) = Some d"
    and app_ok: "ok l \<Longrightarrow> ok (fst (app l d))"
    and close_closed: "closed (close l)"
    and close_head: "head (close l) = head l \<and> newest (close l) = newest l"
    and close_ok: "ok l \<Longrightarrow> ok (close l)"
begin

lemma app_head_mono: "ok l \<Longrightarrow> head l \<le> head (fst (app l d))"
  by (cases "closed l") (auto simp: app_closed app_open)

lemma final_frame:
  assumes "ok l" "\<not> closed l"
  shows "closed (close (fst (app l d))) \<and> newest (close (fst (app l d))) = Some d
    \<and> head (close (fst (app l d))) = Suc (head l)"
  using app_open [OF assms, of d] close_head [of "fst (app l d)"] close_closed by auto

lemma after_close: "app (close l) d = (close l, None)"
  by (simp add: app_closed close_closed)

lemma fold_app_closed: "closed l \<Longrightarrow> fold (\<lambda>d l. fst (app l d)) ds l = l"
  by (induction ds) (auto simp: app_closed)

lemma fold_app_ok: "ok l \<Longrightarrow> ok (fold (\<lambda>d l. fst (app l d)) ds l)"
  by (induction ds arbitrary: l) (auto intro: app_ok)

lemma fold_app_head:
  assumes "ok l" "\<not> closed l"
  shows "head (fold (\<lambda>d l. fst (app l d)) ds l) = head l + length ds
     \<and> \<not> closed (fold (\<lambda>d l. fst (app l d)) ds l)"
  using assms
proof (induction ds arbitrary: l)
  case (Cons d ds)
  from app_open [OF Cons.prems, of d] app_ok [OF Cons.prems(1), of d] Cons.IH [of "fst (app l d)"]
  show ?case by simp
qed simp

end

definition log_newest :: "event_log \<Rightarrow> str option" where
  "log_newest l = (if el_events l = [] then None else Some (le_data (last (el_events l))))"

lemma append_raw_open_sink:
  assumes "log_wf l" "\<not> el_closed l"
  shows "snd (append_raw l d) = Some (Suc (el_sequence l))
    \<and> el_sequence (fst (append_raw l d)) = Suc (el_sequence l)
    \<and> \<not> el_closed (fst (append_raw l d)) \<and> log_newest (fst (append_raw l d)) = Some d"
  using assms by (rule append_raw_open [of l d]) (auto simp: log_newest_def)

interpretation log_sink: event_sink append_raw log_close el_closed el_sequence log_newest log_wf
proof
  fix l :: event_log and d
  show "log_wf l \<Longrightarrow> \<not> el_closed l \<Longrightarrow> snd (append_raw l d) = Some (Suc (el_sequence l))
    \<and> el_sequence (fst (append_raw l d)) = Suc (el_sequence l)
    \<and> \<not> el_closed (fst (append_raw l d)) \<and> log_newest (fst (append_raw l d)) = Some d"
    by (rule append_raw_open_sink)
qed (auto simp: log_close_def log_newest_def intro: log_wf_append)

section \<open>Retention\<close>

text \<open>The abstract log is the whole history of payloads; the concrete one keeps its longest suffix
  within the caps, or just the newest event when nothing fits.\<close>

definition history_events :: "str list \<Rightarrow> log_event list" where
  "history_events ds = map (\<lambda>(i, d). \<lparr>le_seq = Suc i, le_data = d\<rparr>) (List.enumerate 0 ds)"

definition retains :: "str list \<Rightarrow> event_log \<Rightarrow> bool" where
  "retains ds l \<longleftrightarrow>
     (\<exists>k \<le> length ds.
        el_events l = drop k (history_events ds)
        \<and> el_sequence l = length ds
        \<and> (ds \<noteq> [] \<longrightarrow> el_events l \<noteq> [])
        \<and> (length (el_events l) \<le> 1 \<or> within_caps (el_max_events l) (el_max_bytes l) (el_events l))
        \<and> (0 < k \<longrightarrow> \<not> within_caps (el_max_events l) (el_max_bytes l) (drop (k - 1) (history_events ds))))"

lemma length_history [simp]: "length (history_events ds) = length ds"
  by (simp add: history_events_def)

lemma history_snoc:
  "history_events (ds @ [d]) = history_events ds @ [\<lparr>le_seq = Suc (length ds), le_data = d\<rparr>]"
  by (simp add: history_events_def enumerate_append_eq)

lemma within_caps_append1: "within_caps me mb (xs @ ys) \<Longrightarrow> within_caps me mb xs"
  by (auto simp: within_caps_def)

lemma retains_append:
  assumes wf: "log_wf l" and opn: "\<not> el_closed l" and r: "retains ds l"
  shows "retains (ds @ [d]) (fst (append_raw l d))"
proof -
  from r obtain j where j: "j \<le> length ds" "el_events l = drop j (history_events ds)"
    "el_sequence l = length ds"
    "0 < j \<longrightarrow> \<not> within_caps (el_max_events l) (el_max_bytes l) (drop (j - 1) (history_events ds))"
    by (auto simp: retains_def)
  define es where "es = el_events l @ [\<lparr>le_seq = Suc (el_sequence l), le_data = d\<rparr>]"
  have es: "es = drop j (history_events (ds @ [d]))"
    using j(1-3) by (simp add: es_def history_snoc)
  from append_raw_open [OF wf opn, of d] obtain k where k: "k \<le> length (el_events l)"
    "append_raw l d = (l\<lparr>el_events := drop k es, el_bytes := data_bytes (drop k es),
        el_sequence := Suc (el_sequence l)\<rparr>, Some (Suc (el_sequence l)))"
    "length (drop k es) \<le> 1 \<or> within_caps (el_max_events l) (el_max_bytes l) (drop k es)"
    "0 < k \<longrightarrow> \<not> within_caps (el_max_events l) (el_max_bytes l) (drop (k - 1) es)"
    unfolding es_def by metis
  have kept: "drop k es = drop (j + k) (history_events (ds @ [d]))"
    by (simp add: es add.commute)
  have len: "j + k \<le> length ds" using k(1) j(1,2) by simp
  have maximal: "\<not> within_caps (el_max_events l) (el_max_bytes l)
      (drop (j + k - 1) (history_events (ds @ [d])))" if "0 < j + k"
  proof (cases "0 < k")
    case True
    then have "drop (k - 1) es = drop (j + k - 1) (history_events (ds @ [d]))"
      by (simp add: es add.commute)
    with True k(4) show ?thesis by simp
  next
    case False
    with that have "0 < j" by simp
    with j(4) have no: "\<not> within_caps (el_max_events l) (el_max_bytes l) (drop (j - 1) (history_events ds))"
      by simp
    have "drop (j - 1) (history_events (ds @ [d]))
        = drop (j - 1) (history_events ds) @ [\<lparr>le_seq = Suc (length ds), le_data = d\<rparr>]"
      using j(1) \<open>0 < j\<close> by (simp add: history_snoc)
    with no show ?thesis using False within_caps_append1 by fastforce
  qed
  show ?thesis
    unfolding retains_def
  proof (intro exI [of _ "j + k"] conjI)
    show "j + k \<le> length (ds @ [d])" using len by simp
    show "el_events (fst (append_raw l d)) = drop (j + k) (history_events (ds @ [d]))"
      using k(2) kept by simp
    show "ds @ [d] \<noteq> [] \<longrightarrow> el_events (fst (append_raw l d)) \<noteq> []"
      using k(2) kept len by simp
  qed (use k kept j maximal in auto)
qed

lemma retains_fold:
  "log_wf l \<Longrightarrow> \<not> el_closed l \<Longrightarrow> retains hs l \<Longrightarrow>
     retains (hs @ ds) (fold (\<lambda>d l. fst (append_raw l d)) ds l)"
proof (induction ds arbitrary: hs l)
  case (Cons d ds)
  have "retains (hs @ [d]) (fst (append_raw l d))"
    using Cons.prems by (intro retains_append)
  moreover have "\<not> el_closed (fst (append_raw l d))"
    using Cons.prems append_raw_open_sink by blast
  ultimately have "retains ((hs @ [d]) @ ds) (fold (\<lambda>d l. fst (append_raw l d)) ds (fst (append_raw l d)))"
    using Cons.prems by (intro Cons.IH) (auto intro: wf_intros)
  then show ?case by simp
qed simp

section \<open>Reading\<close>

lemma check_cursor_ok:
  assumes "log_wf l"
  shows "check_cursor l after = Inr () \<longleftrightarrow> oldest_cursor l \<le> after \<and> after \<le> el_sequence l"
  using assms by (auto simp: check_cursor_def oldest_cursor_def log_wf_def split: list.splits)

lemma check_cursor_error:
  "check_cursor l after = Inl e \<Longrightarrow>
     (be_status e = 422 \<and> after > el_sequence l) \<or>
     (be_status e = 410 \<and> after \<le> el_sequence l \<and> after < oldest_cursor l)"
  by (auto simp: check_cursor_def oldest_cursor_def bridge_invalid_cursor_def
      bridge_unprocessable_def bridge_events_expired_def split: if_splits list.splits)

lemma filter_upt_greater: "n \<le> Suc a \<Longrightarrow> a \<le> m \<Longrightarrow> filter (\<lambda>s. a < s) [n ..< Suc m] = [Suc a ..< Suc m]"
  by (induction m) (auto simp: le_Suc_eq upt_conv_Nil upt_Suc)

lemma read_events_seqs:
  assumes wf: "log_wf l" and ok: "check_cursor l after = Inr ()"
  shows "map le_seq (filter (\<lambda>e. after < le_seq e) (el_events l)) = [Suc after ..< Suc (el_sequence l)]"
proof -
  have "map le_seq (filter (\<lambda>e. after < le_seq e) (el_events l))
      = filter (\<lambda>s. after < s) (map le_seq (el_events l))"
    by (simp add: filter_map comp_def)
  also have "\<dots> = filter (\<lambda>s. after < s) [Suc (el_sequence l) - length (el_events l) ..< Suc (el_sequence l)]"
    using wf by (simp add: log_wf_def)
  also have "\<dots> = [Suc after ..< Suc (el_sequence l)]"
  proof (rule filter_upt_greater)
    from check_cursor_ok [OF wf] ok have r: "oldest_cursor l \<le> after" "after \<le> el_sequence l" by auto
    then show "after \<le> el_sequence l" by simp
    show "Suc (el_sequence l) - length (el_events l) \<le> Suc after"
    proof (cases "el_events l")
      case Nil
      with wf show ?thesis by (simp add: log_wf_def)
    next
      case (Cons e es)
      from wf have "map le_seq (el_events l)
          = [Suc (el_sequence l) - length (el_events l) ..< Suc (el_sequence l)]" by (simp add: log_wf_def)
      with Cons have "le_seq e = Suc (el_sequence l) - length (el_events l)"
        by (auto simp: upt_rec split: if_splits)
      with r(1) Cons show ?thesis by (simp add: oldest_cursor_def)
    qed
  qed
  finally show ?thesis .
qed

section \<open>Properties\<close>

text \<open>C33: After any sequence of appends to a new log, whatever its caps, the log retains the longest
  suffix of the whole history that fits both caps, and at least the newest event, each with its
  position in the history as its sequence number.\<close>

theorem log_retains_longest_suffix:
  "retains ds (fold (\<lambda>d l. fst (append_raw l d)) ds (log_new me mb))"
proof -
  have "retains [] (log_new me mb)"
    by (auto simp: retains_def log_new_def history_events_def)
  moreover have "\<not> el_closed (log_new me mb)" by (simp add: log_new_def)
  ultimately have "retains ([] @ ds) (fold (\<lambda>d l. fst (append_raw l d)) ds (log_new me mb))"
    by (intro retains_fold) (auto intro: wf_intros)
  then show ?thesis by simp
qed

text \<open>C32: A successful read never skips an event: what it returns is a state of the log's events
  numbered from the one after the cursor up to that state's newest, without a gap.\<close>

theorem read_has_no_gap:
  assumes "list_all log_wf (l # wakes)"
    and "log_read l after wakes fin = Inr out" and "ro_events out \<noteq> []"
  shows "\<exists>l' \<in> set (l # wakes). set (ro_events out) \<subseteq> set (el_events l')
    \<and> map le_seq (ro_events out) = [Suc after ..< Suc (el_sequence l')]"
  using assms
proof (induction l after wakes fin rule: log_read.induct)
  case (1 l after wakes fin)
  show ?case
  proof (cases "check_cursor l after")
    case (Inl e)
    with "1.prems" show ?thesis by (simp add: log_read.simps [of l] read_look_def)
  next
    case (Inr u)
    let ?evs = "filter (\<lambda>e. after < le_seq e) (el_events l)"
    show ?thesis
    proof (cases "?evs \<noteq> [] \<or> el_closed l")
      case True
      with Inr have look: "read_look l after = Inr (Some \<lparr>ro_events = ?evs, ro_closed = el_closed l\<rparr>)"
        by (simp add: read_look_def Let_def)
      with "1.prems" have "out = \<lparr>ro_events = ?evs, ro_closed = el_closed l\<rparr>"
        by (simp add: log_read.simps [of l])
      with "1.prems" Inr show ?thesis
        using read_events_seqs [of l after] by (intro bexI [of _ l]) auto
    next
      case False
      with Inr have look: "read_look l after = Inr None" by (simp add: read_look_def Let_def)
      with "1.prems" obtain l' ws where ws: "wakes = l' # ws"
        by (cases wakes) (auto simp: log_read.simps [of l] split: sum.splits)
      with look "1.prems" have "log_read l' after ws fin = Inr out"
        by (simp add: log_read.simps [of l])
      with "1.IH" [OF look refl ws] "1.prems" ws show ?thesis by auto
    qed
  qed
qed

theorem read_has_no_gap_witness:
  "let l = fold (\<lambda>d l. fst (append_raw l d)) [''a'', ''b'', ''c''] (log_new 2 100)
   in \<exists>l' \<in> set [l]. map le_seq (filter (\<lambda>e. 1 < le_seq e) (el_events l)) = [2 ..< Suc (el_sequence l')]"
proof -
  define l where "l = fold (\<lambda>d l. fst (append_raw l d)) [''a'', ''b'', ''c''] (log_new 2 100)"
  have wf: "list_all log_wf [l]"
    by (simp add: l_def log_wf_append log_wf_new)
  have read: "log_read l 1 [] l
      = Inr \<lparr>ro_events = filter (\<lambda>e. 1 < le_seq e) (el_events l), ro_closed = el_closed l\<rparr>"
    and ne: "filter (\<lambda>e. 1 < le_seq e) (el_events l) \<noteq> []"
    by (simp_all add: l_def log_new_def append_raw_def log_read.simps read_look_def check_cursor_def)
  show ?thesis
    unfolding Let_def l_def [symmetric]
    using read_has_no_gap [OF wf read] ne by (auto simp: numeral_2_eq_2)
qed

text \<open>The cursor contract is exactly the documented one: beyond the newest event is 422
  \<open>invalid_cursor\<close>, older than the retained window is 410 \<open>events_expired\<close>, and every other cursor
  is accepted.\<close>

theorem cursor_contract:
  assumes "log_wf l"
  shows "(check_cursor l after = Inr () \<longleftrightarrow> oldest_cursor l \<le> after \<and> after \<le> el_sequence l)
    \<and> (after > el_sequence l \<longrightarrow> (\<exists>e. check_cursor l after = Inl e \<and> be_status e = 422
           \<and> be_code e = ''invalid_cursor''))
    \<and> (after < oldest_cursor l \<longrightarrow> (\<exists>e. check_cursor l after = Inl e \<and> be_status e = 410
           \<and> be_code e = ''events_expired''))"
proof -
  have "oldest_cursor l \<le> el_sequence l"
    using assms by (auto simp: log_wf_def oldest_cursor_def split: list.splits)
      (metis diff_le_self list.set_intros(1) order_trans set_upt atLeastLessThan_iff less_Suc_eq_le)
  moreover have "el_events l = [] \<Longrightarrow> el_sequence l = 0"
    using assms by (simp add: log_wf_def)
  ultimately show ?thesis
    unfolding check_cursor_ok [OF assms]
    by (auto simp: check_cursor_def oldest_cursor_def bridge_invalid_cursor_def
        bridge_unprocessable_def bridge_events_expired_def split: list.splits)
qed

theorem cursor_contract_witness:
  "\<exists>e. check_cursor (log_new 2 8) 9 = Inl e \<and> be_status e = 422 \<and> be_code e = ''invalid_cursor''"
  using cursor_contract [OF log_wf_new [of 2 8], of 9] by (simp add: log_new_def)

end
