(* ===== verification/Operations.thy ===== *)
theory Operations
  imports EventLog "HOL-Library.Multiset"
begin

text \<open>
  \<open>bridge/ops.rs\<close>: background operations and their registry. An \<open>Instant\<close> is a natural number
  (milliseconds), the clock and the fresh UUID are arguments, the JSON serialiser is the parameter
  \<open>ser\<close>. The registry owns its operations; what a caller still holding the \<open>Arc\<close> of an evicted
  or discarded operation does to it is outside the registry.
\<close>

section \<open>Operations\<close>

definition MAX_ACTIVE :: nat where
  "MAX_ACTIVE = 16"

definition MAX_RETAINED :: nat where
  "MAX_RETAINED = 128"

definition RETENTION :: nat where
  "RETENTION = 1800 * 1000"

datatype operation_status = Running | Completed | Failed | Interrupted

definition is_terminal :: "operation_status \<Rightarrow> bool" where
  "is_terminal s \<longleftrightarrow> s \<noteq> Running"

text \<open>The lower-case name serde writes.\<close>

fun status_name :: "operation_status \<Rightarrow> str" where
  "status_name Running = ''running''"
| "status_name Completed = ''completed''"
| "status_name Failed = ''failed''"
| "status_name Interrupted = ''interrupted''"

record operation =
  op_id :: str
  op_thread_id :: "str option"
  op_turn_id :: "str option"
  op_log :: event_log
  op_created_at :: nat
  op_status :: operation_status
  op_result :: "json option"
  op_error :: "json option"
  op_finished_at :: "nat option"
  op_done :: bool

definition operation_new :: "str \<Rightarrow> str option \<Rightarrow> str option \<Rightarrow> nat \<Rightarrow> operation" where
  "operation_new i thread turn now =
     \<lparr>op_id = i, op_thread_id = thread, op_turn_id = turn, op_log = log_default,
      op_created_at = now, op_status = Running, op_result = None, op_error = None,
      op_finished_at = None, op_done = False\<rparr>"

definition op_is_finished :: "operation \<Rightarrow> bool" where
  "op_is_finished p \<longleftrightarrow> is_terminal (op_status p)"

definition op_context :: "operation \<Rightarrow> (str \<times> json) list" where
  "op_context p =
     (case op_thread_id p of Some t \<Rightarrow> [(''thread_id'', JStr t)] | None \<Rightarrow> [])
     @ (case op_turn_id p of Some t \<Rightarrow> [(''turn_id'', JStr t)] | None \<Rightarrow> [])"

definition or_null :: "json option \<Rightarrow> json" where
  "or_null v = (case v of Some x \<Rightarrow> x | None \<Rightarrow> JNull)"

definition op_snapshot :: "operation \<Rightarrow> json" where
  "op_snapshot p =
     obj ([(''operation_id'', JStr (op_id p))] @ op_context p
          @ [(''status'', JStr (status_name (op_status p))),
             (''result'', or_null (op_result p)),
             (''error'', or_null (op_error p))])"

text \<open>\<open>emit\<close>: one payload to the operation's log and to the global one.\<close>

definition op_emit :: "(json \<Rightarrow> str) \<Rightarrow> operation \<Rightarrow> event_log \<Rightarrow> json \<Rightarrow> operation \<times> event_log" where
  "op_emit ser p global v =
     (let data = ser v
      in (p\<lparr>op_log := fst (append_raw (op_log p) data)\<rparr>, fst (append_raw global data)))"

definition terminal_frame :: "operation \<Rightarrow> operation_status \<Rightarrow> json option \<Rightarrow> json option \<Rightarrow> json" where
  "terminal_frame p status result err =
     (let params = [(''operation_id'', JStr (op_id p))] @ op_context p
                   @ [(''status'', JStr (status_name status))]
      in case err of
           Some e \<Rightarrow> obj [(''method'', JStr ''bridge/error''),
                          (''params'', obj (params @ [(''error'', e)]))]
         | None \<Rightarrow> obj [(''method'', JStr ''bridge/completed''),
                        (''params'', obj (params @ [(''result'', or_null result)]))])"

text \<open>\<open>finish\<close>: the first caller wins; the terminal frame goes to both logs, then the operation's
  log is closed.\<close>

definition op_finish :: "(json \<Rightarrow> str) \<Rightarrow> nat \<Rightarrow> operation \<Rightarrow> event_log \<Rightarrow> operation_status
    \<Rightarrow> json option \<Rightarrow> json option \<Rightarrow> operation \<times> event_log \<times> bool" where
  "op_finish ser now p global status result err =
     (if is_terminal (op_status p) then (p, global, False)
      else let p1 = p\<lparr>op_status := status, op_result := result, op_error := err,
                      op_finished_at := Some now\<rparr>;
               (p2, global') = op_emit ser p1 global (terminal_frame p1 status result err)
           in (p2\<lparr>op_log := log_close (op_log p2), op_done := True\<rparr>, global', True))"

definition op_fail :: "(json \<Rightarrow> str) \<Rightarrow> nat \<Rightarrow> operation \<Rightarrow> event_log \<Rightarrow> str \<Rightarrow> str
    \<Rightarrow> operation \<times> event_log \<times> bool" where
  "op_fail ser now p global code message =
     op_finish ser now p global Failed None
       (Some (obj ([(''code'', JStr code), (''message'', JStr message)] @ op_context p)))"

text \<open>\<open>wait_done\<close>: already finished, or finished by the time the wait ended (\<open>signalled\<close>: the
  watch channel changed in time; \<open>later\<close>: the operation as it is then).\<close>

definition op_wait_done :: "operation \<Rightarrow> bool \<Rightarrow> operation \<Rightarrow> bool" where
  "op_wait_done p signalled later =
     (if op_done p \<or> op_is_finished p then True else signalled \<or> op_is_finished later)"

section \<open>The registry\<close>

record registry =
  rg_ops :: "(str, operation) hmap"
  rg_by_turn :: "(str \<times> str, str) hmap"
  rg_global :: event_log
  rg_max_active :: nat
  rg_max_retained :: nat
  rg_retention :: nat

definition registry_new :: "nat \<Rightarrow> nat \<Rightarrow> nat \<Rightarrow> registry" where
  "registry_new ma mr ret =
     \<lparr>rg_ops = [], rg_by_turn = [], rg_global = log_default,
      rg_max_active = ma, rg_max_retained = mr, rg_retention = ret\<rparr>"

definition registry_default :: registry where
  "registry_default = registry_new MAX_ACTIVE MAX_RETAINED RETENTION"

definition finished_list :: "(str, operation) hmap \<Rightarrow> (nat \<times> str) list" where
  "finished_list ops =
     sort_key fst (List.map_filter (\<lambda>p. map_option (\<lambda>at. (at, op_id p)) (op_finished_at p)) (map snd ops))"

fun prune_loop :: "nat \<Rightarrow> nat \<Rightarrow> nat \<Rightarrow> (nat \<times> str) list \<Rightarrow> nat \<Rightarrow> (str, operation) hmap
    \<Rightarrow> (str, operation) hmap \<times> str list" where
  "prune_loop now retention max_retained [] n ops = (ops, [])"
| "prune_loop now retention max_retained ((at, i) # finished) n ops =
     (if \<not> (now - at > retention) \<and> \<not> (n > max_retained) then (ops, [])
      else let (ops', evicted) = prune_loop now retention max_retained finished (n - 1) (hm_del i ops)
           in (ops', i # evicted))"

definition reg_prune :: "nat \<Rightarrow> registry \<Rightarrow> registry" where
  "reg_prune now r =
     (let (ops', evicted) = prune_loop now (rg_retention r) (rg_max_retained r)
                              (finished_list (rg_ops r)) (length (rg_ops r)) (rg_ops r)
      in r\<lparr>rg_ops := ops',
           rg_by_turn := (if evicted \<noteq> [] then hm_retain (\<lambda>_ i. i \<notin> set evicted) (rg_by_turn r)
                          else rg_by_turn r)\<rparr>)"

definition active_count :: "registry \<Rightarrow> nat" where
  "active_count r = length (filter (\<lambda>p. \<not> op_is_finished p) (map snd (rg_ops r)))"

definition reg_create :: "nat \<Rightarrow> str \<Rightarrow> registry \<Rightarrow> str option \<Rightarrow> str option
    \<Rightarrow> registry \<times> (bridge_error + operation)" where
  "reg_create now fresh r thread turn =
     (let r1 = reg_prune now r; active = active_count r1
      in if active \<ge> rg_max_active r1
         then (r1, Inl (bridge_with (bridge_busy
                 (show_nat active @ '' operations are already running (limit ''
                  @ show_nat (rg_max_active r1) @ ''); wait for one to finish.''))
                 ''max_active_operations'' (JNum (int (rg_max_active r1)))))
         else let p = operation_new fresh thread turn now;
                  r2 = r1\<lparr>rg_ops := hm_put fresh p (rg_ops r1)\<rparr>
              in (case (thread, turn) of
                    (Some t, Some u) \<Rightarrow> (r2\<lparr>rg_by_turn := hm_put (t, u) fresh (rg_by_turn r2)\<rparr>, Inr p)
                  | _ \<Rightarrow> (r2, Inr p)))"

definition reg_discard :: "registry \<Rightarrow> str \<Rightarrow> registry" where
  "reg_discard r i =
     r\<lparr>rg_ops := hm_del i (rg_ops r), rg_by_turn := hm_retain (\<lambda>_ j. j \<noteq> i) (rg_by_turn r)\<rparr>"

definition reg_get :: "nat \<Rightarrow> registry \<Rightarrow> str \<Rightarrow> registry \<times> (bridge_error + operation)" where
  "reg_get now r i =
     (let r1 = reg_prune now r
      in (r1, case hm_get (rg_ops r1) i of
                Some p \<Rightarrow> Inr p
              | None \<Rightarrow> Inl (bridge_operation_not_found i)))"

definition reg_for_turn :: "registry \<Rightarrow> str \<Rightarrow> str \<Rightarrow> operation option" where
  "reg_for_turn r thread turn =
     Option.bind (hm_get (rg_by_turn r) (thread, turn)) (\<lambda>i. hm_get (rg_ops r) i)"

definition reg_for_thread :: "registry \<Rightarrow> str \<Rightarrow> operation list" where
  "reg_for_thread r thread =
     sort_key (\<lambda>p. - int (op_created_at p))
       (filter (\<lambda>p. op_thread_id p = Some thread) (map snd (rg_ops r)))"

text \<open>\<open>op.emit(&reg.global, ..)\<close>, \<open>op.finish(&reg.global, ..)\<close> and \<open>op.fail\<close> on an operation the
  registry holds.\<close>

definition reg_emit :: "(json \<Rightarrow> str) \<Rightarrow> registry \<Rightarrow> str \<Rightarrow> json \<Rightarrow> registry" where
  "reg_emit ser r i v =
     (case hm_get (rg_ops r) i of
        None \<Rightarrow> r
      | Some p \<Rightarrow>
          let (p', g') = op_emit ser p (rg_global r) v
          in r\<lparr>rg_ops := hm_put i p' (rg_ops r), rg_global := g'\<rparr>)"

definition reg_finish :: "(json \<Rightarrow> str) \<Rightarrow> nat \<Rightarrow> registry \<Rightarrow> str \<Rightarrow> operation_status
    \<Rightarrow> json option \<Rightarrow> json option \<Rightarrow> registry \<times> bool" where
  "reg_finish ser now r i status result err =
     (case hm_get (rg_ops r) i of
        None \<Rightarrow> (r, False)
      | Some p \<Rightarrow>
          let (p', g', won) = op_finish ser now p (rg_global r) status result err
          in (r\<lparr>rg_ops := hm_put i p' (rg_ops r), rg_global := g'\<rparr>, won))"

definition reg_fail :: "(json \<Rightarrow> str) \<Rightarrow> nat \<Rightarrow> registry \<Rightarrow> str \<Rightarrow> str \<Rightarrow> str \<Rightarrow> registry" where
  "reg_fail ser now r i code message =
     (case hm_get (rg_ops r) i of
        None \<Rightarrow> r
      | Some p \<Rightarrow>
          let (p', g', won) = op_fail ser now p (rg_global r) code message
          in r\<lparr>rg_ops := hm_put i p' (rg_ops r), rg_global := g'\<rparr>)"

definition reg_fail_all :: "(json \<Rightarrow> str) \<Rightarrow> nat \<Rightarrow> registry \<Rightarrow> str \<Rightarrow> str \<Rightarrow> registry" where
  "reg_fail_all ser now r code message =
     (let running = map fst (filter (\<lambda>(_, p). \<not> op_is_finished p) (rg_ops r))
      in foldl (\<lambda>r i. reg_fail ser now r i code message) r running)"

section \<open>One operation\<close>

text \<open>An operation is consistent when it is finished exactly if it has a finish time, its log is
  closed and its waiters were told.\<close>

definition op_wf :: "operation \<Rightarrow> bool" where
  "op_wf p \<longleftrightarrow>
     log_wf (op_log p)
     \<and> (op_is_finished p \<longleftrightarrow> el_closed (op_log p))
     \<and> (op_is_finished p \<longleftrightarrow> op_finished_at p \<noteq> None)
     \<and> (op_is_finished p \<longleftrightarrow> op_done p)"

lemmas op_defs = op_is_finished_def is_terminal_def

lemma op_wf_new [wf_intros]: "op_wf (operation_new i t u now)"
  by (simp add: op_wf_def operation_new_def op_defs log_default_def log_new_def log_wf_def)

lemma op_wf_emit [wf_intros]: "op_wf p \<Longrightarrow> op_wf (fst (op_emit ser p g v))"
  using log_wf_append [of "op_log p" "ser v"] append_raw_open_sink [of "op_log p" "ser v"]
  by (cases "el_closed (op_log p)") (auto simp: op_wf_def op_emit_def Let_def op_defs)

lemma op_emit_simps [simp]:
  "op_status (fst (op_emit ser p g v)) = op_status p" "op_id (fst (op_emit ser p g v)) = op_id p"
  "op_finished_at (fst (op_emit ser p g v)) = op_finished_at p"
  "op_thread_id (fst (op_emit ser p g v)) = op_thread_id p"
  "op_is_finished (fst (op_emit ser p g v)) = op_is_finished p"
  by (simp_all add: op_emit_def Let_def op_defs)

lemma op_finish_done:
  assumes "op_is_finished p"
  shows "op_finish ser now p g st res err = (p, g, False)"
  using assms by (simp add: op_finish_def op_defs)

lemma op_finish_running:
  assumes "op_wf p" "\<not> op_is_finished p"
  shows "op_finish ser now p g st res err =
    (p\<lparr>op_status := st, op_result := res, op_error := err, op_finished_at := Some now,
       op_log := log_close (fst (append_raw (op_log p) (ser (terminal_frame p st res err)))), op_done := True\<rparr>,
     fst (append_raw g (ser (terminal_frame p st res err))), True)"
proof -
  have "terminal_frame (p\<lparr>op_status := st, op_result := res, op_error := err, op_finished_at := Some now\<rparr>)
      st res err = terminal_frame p st res err"
    by (simp add: terminal_frame_def op_context_def Let_def)
  then show ?thesis
    using assms(2) by (simp add: op_finish_def op_defs op_emit_def Let_def)
qed

lemma op_wf_finish [wf_intros]:
  assumes "op_wf p" "is_terminal st"
  shows "op_wf (fst (op_finish ser now p g st res err))"
proof (cases "op_is_finished p")
  case True
  with assms show ?thesis by (simp add: op_finish_done)
next
  case False
  then show ?thesis
    using assms log_wf_append [of "op_log p"]
    by (simp add: op_finish_running [OF assms(1) False] op_wf_def op_defs log_sink.close_closed log_wf_close)
qed

lemma op_wf_fail [wf_intros]: "op_wf p \<Longrightarrow> op_wf (fst (op_fail ser now p g c m))"
  unfolding op_fail_def by (rule op_wf_finish) (simp_all add: is_terminal_def)

lemma op_finish_id [simp]:
  "op_id (fst (op_finish ser now p g st res err)) = op_id p"
  "op_thread_id (fst (op_finish ser now p g st res err)) = op_thread_id p"
  by (simp_all add: op_finish_def op_emit_def Let_def)

lemma op_fail_id [simp]: "op_id (fst (op_fail ser now p g c m)) = op_id p"
  by (simp add: op_fail_def)

lemma op_finish_finishes:
  "is_terminal st \<Longrightarrow> op_is_finished (fst (op_finish ser now p g st res err))"
  by (simp add: op_finish_def op_emit_def Let_def op_defs)

lemma op_fail_finishes: "op_is_finished (fst (op_fail ser now p g c m))"
  unfolding op_fail_def by (rule op_finish_finishes) (simp add: is_terminal_def)

lemma global_wf_finish: "log_wf g \<Longrightarrow> log_wf (fst (snd (op_finish ser now p g st res err)))"
  by (simp add: op_finish_def op_emit_def Let_def log_wf_append)

section \<open>The registry's invariant\<close>

definition reg_wf :: "registry \<Rightarrow> bool" where
  "reg_wf r \<longleftrightarrow>
     hm_wf (rg_ops r) \<and> hm_wf (rg_by_turn r)
     \<and> (\<forall>(i, p) \<in> set (rg_ops r). op_id p = i \<and> op_wf p)
     \<and> (\<forall>(k, i) \<in> set (rg_by_turn r). i \<in> fst ` set (rg_ops r))
     \<and> active_count r \<le> rg_max_active r
     \<and> log_wf (rg_global r)"

lemma reg_wf_new [wf_intros]: "reg_wf (registry_new ma mr ret)"
  by (simp add: reg_wf_def registry_new_def active_count_def log_wf_default)

subsection \<open>Pruning\<close>

lemma prune_loop_evicts:
  "prune_loop now ret mx fs n ops = (ops', ev) \<Longrightarrow>
     ops' = fold hm_del ev ops \<and> (\<exists>k \<le> length fs. ev = map snd (take k fs)
       \<and> (\<forall>(at, i) \<in> set (drop k (take (Suc k) fs)). now - at \<le> ret \<and> n - k \<le> mx))"
proof (induction fs arbitrary: n ops ops' ev)
  case (Cons f fs)
  obtain at i where f: "f = (at, i)" by force
  show ?case
  proof (cases "\<not> (now - at > ret) \<and> \<not> (n > mx)")
    case True
    with Cons.prems f show ?thesis by (auto intro!: exI [of _ 0])
  next
    case False
    obtain ops1 ev1 where r: "prune_loop now ret mx fs (n - 1) (hm_del i ops) = (ops1, ev1)" by force
    from Cons.IH [OF r] obtain k where k: "ops1 = fold hm_del ev1 (hm_del i ops)" "k \<le> length fs"
      "ev1 = map snd (take k fs)"
      "\<forall>(at, i) \<in> set (drop k (take (Suc k) fs)). now - at \<le> ret \<and> n - 1 - k \<le> mx" by blast
    have e: "ops' = ops1" "ev = i # ev1"
      using Cons.prems False r unfolding f by auto
    show ?thesis
      using k e f by (auto intro!: exI [of _ "Suc k"])
  qed
qed simp

lemma filter_fold_hm_del:
  "filter P (fold hm_del ks m) = fold hm_del ks (filter P m)"
  by (induction ks arbitrary: m) (simp_all add: AList.delete_eq filter_filter conj_commute comp_def)

lemma fold_hm_del_filter: "fold hm_del ks m = filter (\<lambda>x. fst x \<notin> set ks) m"
proof (induction ks arbitrary: m)
  case (Cons k ks)
  have "filter (\<lambda>x. fst x \<notin> set ks) (hm_del k m) = filter (\<lambda>x. fst x \<notin> set (k # ks)) m"
    by (induction m) (auto simp: AList.delete_eq)
  with Cons.IH show ?case by simp
qed simp

lemma set_finished_list:
  "set (finished_list ops) = {(at, op_id p) |at p. p \<in> snd ` set ops \<and> op_finished_at p = Some at}"
  by (force simp: finished_list_def map_filter_def)

lemma sorted_finished_list: "sorted (map fst (finished_list ops))"
  by (simp add: finished_list_def)

lemma reg_prune_ops:
  obtains k where "k \<le> length (finished_list (rg_ops r))"
    "rg_ops (reg_prune now r) =
       filter (\<lambda>x. fst x \<notin> snd ` set (take k (finished_list (rg_ops r)))) (rg_ops r)"
    "rg_by_turn (reg_prune now r) =
       hm_retain (\<lambda>_ i. i \<notin> snd ` set (take k (finished_list (rg_ops r)))) (rg_by_turn r)"
    "\<forall>(at, i) \<in> set (drop k (take (Suc k) (finished_list (rg_ops r)))).
       now - at \<le> rg_retention r \<and> length (rg_ops r) - k \<le> rg_max_retained r"
proof -
  let ?fs = "finished_list (rg_ops r)"
  obtain ops' ev where pl:
    "prune_loop now (rg_retention r) (rg_max_retained r) ?fs (length (rg_ops r)) (rg_ops r) = (ops', ev)"
    by force
  from prune_loop_evicts [OF pl] obtain k where k: "ops' = fold hm_del ev (rg_ops r)" "k \<le> length ?fs"
    "ev = map snd (take k ?fs)"
    "\<forall>(at, i) \<in> set (drop k (take (Suc k) ?fs)).
       now - at \<le> rg_retention r \<and> length (rg_ops r) - k \<le> rg_max_retained r" by blast
  have "rg_by_turn (reg_prune now r) = hm_retain (\<lambda>_ i. i \<notin> set ev) (rg_by_turn r)"
    using pl by (simp add: reg_prune_def hm_retain_def)
  moreover have "rg_ops (reg_prune now r) = fold hm_del ev (rg_ops r)"
    using pl k(1) by (simp add: reg_prune_def)
  ultimately show thesis
    using that [of k] k by (simp add: fold_hm_del_filter)
qed

lemma reg_prune_frame [simp]:
  "rg_global (reg_prune now r) = rg_global r" "rg_max_active (reg_prune now r) = rg_max_active r"
  "rg_max_retained (reg_prune now r) = rg_max_retained r" "rg_retention (reg_prune now r) = rg_retention r"
  by (simp_all add: reg_prune_def Let_def split: prod.splits)

lemma reg_wf_op: "reg_wf r \<Longrightarrow> (i, p) \<in> set (rg_ops r) \<Longrightarrow> op_id p = i \<and> op_wf p"
  by (auto simp: reg_wf_def)

text \<open>Everything the finished list names is a finished operation under its own key.\<close>

lemma finished_list_mem:
  assumes "reg_wf r" "(at, i) \<in> set (finished_list (rg_ops r))"
  shows "\<exists>p. (i, p) \<in> set (rg_ops r) \<and> op_is_finished p \<and> op_finished_at p = Some at"
proof -
  from assms(2) obtain j p where p: "(j, p) \<in> set (rg_ops r)" "op_finished_at p = Some at" "i = op_id p"
    by (force simp: set_finished_list)
  with reg_wf_op [OF assms(1) p(1)] show ?thesis by (auto simp: op_wf_def)
qed

lemma prune_keeps_running:
  assumes wf: "reg_wf r" and p: "(i, p) \<in> set (rg_ops r)" and run: "\<not> op_is_finished p"
  shows "(i, p) \<in> set (rg_ops (reg_prune now r))"
proof -
  obtain k where k: "rg_ops (reg_prune now r) =
      filter (\<lambda>x. fst x \<notin> snd ` set (take k (finished_list (rg_ops r)))) (rg_ops r)"
    by (rule reg_prune_ops)
  have "i \<notin> snd ` set (take k (finished_list (rg_ops r)))"
  proof
    assume "i \<in> snd ` set (take k (finished_list (rg_ops r)))"
    then obtain at where "(at, i) \<in> set (finished_list (rg_ops r))"
      by (force dest: in_set_takeD)
    from finished_list_mem [OF wf this] obtain q where "(i, q) \<in> set (rg_ops r)" "op_is_finished q"
      by blast
    with p run wf show False
      by (auto simp: reg_wf_def dest: eq_key_imp_eq_value)
  qed
  with k p show ?thesis by simp
qed

lemma filter_running_prune:
  assumes "reg_wf r"
  shows "filter (\<lambda>x. \<not> op_is_finished (snd x)) (rg_ops (reg_prune now r))
       = filter (\<lambda>x. \<not> op_is_finished (snd x)) (rg_ops r)"
proof -
  obtain k where k: "rg_ops (reg_prune now r) =
      filter (\<lambda>x. fst x \<notin> snd ` set (take k (finished_list (rg_ops r)))) (rg_ops r)"
    by (rule reg_prune_ops)
  have "fst x \<notin> snd ` set (take k (finished_list (rg_ops r)))"
    if "x \<in> set (rg_ops r)" "\<not> op_is_finished (snd x)" for x
  proof -
    obtain i p where x: "x = (i, p)" by force
    with that prune_keeps_running [OF assms, of i p now] k show ?thesis by auto
  qed
  then show ?thesis unfolding k filter_filter by (intro filter_cong) auto
qed

lemma active_count_alt:
  "active_count r = length (filter (\<lambda>x. \<not> op_is_finished (snd x)) (rg_ops r))"
  by (simp add: active_count_def filter_map comp_def)

lemma active_count_prune: "reg_wf r \<Longrightarrow> active_count (reg_prune now r) = active_count r"
  by (simp add: active_count_alt filter_running_prune)

lemma reg_wf_prune [wf_intros]:
  assumes "reg_wf r"
  shows "reg_wf (reg_prune now r)"
proof -
  obtain k where k:
    "rg_ops (reg_prune now r) =
       filter (\<lambda>x. fst x \<notin> snd ` set (take k (finished_list (rg_ops r)))) (rg_ops r)"
    "rg_by_turn (reg_prune now r) =
       hm_retain (\<lambda>_ i. i \<notin> snd ` set (take k (finished_list (rg_ops r)))) (rg_by_turn r)"
    by (rule reg_prune_ops)
  have "hm_wf (rg_ops (reg_prune now r))"
    unfolding k(1) using assms by (simp add: reg_wf_def distinct_map_filter)
  moreover have "hm_wf (rg_by_turn (reg_prune now r))"
    unfolding k(2) using assms by (simp add: reg_wf_def hm_wf_retain)
  moreover have "\<forall>(key, i) \<in> set (rg_by_turn (reg_prune now r)). i \<in> fst ` set (rg_ops (reg_prune now r))"
    using assms unfolding k by (fastforce simp: reg_wf_def hm_retain_def)
  ultimately show ?thesis
    using assms active_count_prune [OF assms] unfolding reg_wf_def k(1) by auto
qed

subsection \<open>The other operations\<close>

lemma active_count_put_running:
  assumes "\<not> hm_has (rg_ops r) i" "\<not> op_is_finished p"
  shows "active_count (r\<lparr>rg_ops := hm_put i p (rg_ops r)\<rparr>) = Suc (active_count r)"
proof -
  have "hm_put i p m = m @ [(i, p)]" if "map_of m i = None" for m :: "(str, operation) hmap"
    using that by (induction m) (auto split: if_splits)
  with assms show ?thesis by (simp add: active_count_def)
qed

lemma active_count_put_mono:
  assumes "hm_wf ops" "map_of ops i = Some p" "op_is_finished p \<longrightarrow> op_is_finished p'"
  shows "length (filter (\<lambda>q. \<not> op_is_finished q) (map snd (hm_put i p' ops)))
       \<le> length (filter (\<lambda>q. \<not> op_is_finished q) (map snd ops))"
  using assms by (induction ops) auto

lemma hm_put_mem: "hm_wf m \<Longrightarrow> (j, q) \<in> set (hm_put i p m) \<longleftrightarrow> (if j = i then q = p else (j, q) \<in> set m)"
  using hm_mem_get [of "hm_put i p m" j q] hm_mem_get [of m j q]
  by (auto simp: distinct_update update_conv')

lemma hm_put_vals: "x \<in> set (hm_put k v m) \<Longrightarrow> snd x = v \<or> x \<in> set m"
  by (induction m) (auto split: if_splits)

lemma hm_put_keys: "fst ` set (hm_put i p m) = insert i (fst ` set m)"
  by (induction m) auto

text \<open>Replacing an operation of the registry by a later state of itself.\<close>

lemma reg_wf_replace:
  assumes wf: "reg_wf r" and get: "hm_get (rg_ops r) i = Some p"
    and p': "op_wf p'" "op_id p' = op_id p" "op_is_finished p \<longrightarrow> op_is_finished p'" and g: "log_wf g"
  shows "reg_wf (r\<lparr>rg_ops := hm_put i p' (rg_ops r), rg_global := g\<rparr>)"
proof -
  have mem: "(i, p) \<in> set (rg_ops r)" using get by (rule map_of_SomeD)
  have "active_count (r\<lparr>rg_ops := hm_put i p' (rg_ops r), rg_global := g\<rparr>) \<le> active_count r"
    using active_count_put_mono [OF _ get p'(3)] wf by (simp add: active_count_def reg_wf_def)
  moreover have "op_id p' = i" using p'(2) reg_wf_op [OF wf mem] by simp
  ultimately show ?thesis
    using wf p'(1) g by (auto simp: reg_wf_def hm_put_mem hm_put_keys distinct_update split: if_splits)
qed

lemma reg_wf_emit [wf_intros]:
  assumes "reg_wf r"
  shows "reg_wf (reg_emit ser r i v)"
proof (cases "hm_get (rg_ops r) i")
  case None
  with assms show ?thesis by (simp add: reg_emit_def)
next
  case (Some p)
  have p: "op_wf p" using reg_wf_op [OF assms map_of_SomeD [OF Some]] by simp
  have "log_wf (snd (op_emit ser p (rg_global r) v))"
    using assms by (simp add: op_emit_def Let_def reg_wf_def log_wf_append)
  then have "reg_wf (r\<lparr>rg_ops := hm_put i (fst (op_emit ser p (rg_global r) v)) (rg_ops r),
      rg_global := snd (op_emit ser p (rg_global r) v)\<rparr>)"
    using p by (intro reg_wf_replace [OF assms Some]) (auto intro: wf_intros)
  with Some show ?thesis by (simp add: reg_emit_def case_prod_unfold Let_def)
qed

lemma reg_wf_finish [wf_intros]:
  assumes "reg_wf r" "is_terminal st"
  shows "reg_wf (fst (reg_finish ser now r i st res err))"
proof (cases "hm_get (rg_ops r) i")
  case None
  with assms show ?thesis by (simp add: reg_finish_def)
next
  case (Some p)
  have p: "op_wf p" using reg_wf_op [OF assms(1) map_of_SomeD [OF Some]] by simp
  let ?f = "op_finish ser now p (rg_global r) st res err"
  have "reg_wf (r\<lparr>rg_ops := hm_put i (fst ?f) (rg_ops r), rg_global := fst (snd ?f)\<rparr>)"
    using p assms by (intro reg_wf_replace [OF assms(1) Some])
      (auto intro: wf_intros op_finish_finishes global_wf_finish simp: reg_wf_def)
  with Some show ?thesis by (simp add: reg_finish_def case_prod_unfold Let_def)
qed

lemma reg_fail_finish:
  "reg_fail ser now r i c m = (case hm_get (rg_ops r) i of None \<Rightarrow> r | Some p \<Rightarrow>
     fst (reg_finish ser now r i Failed None
       (Some (obj ([(''code'', JStr c), (''message'', JStr m)] @ op_context p)))))"
  by (simp add: reg_fail_def reg_finish_def op_fail_def Let_def split: option.splits prod.splits)

lemma reg_wf_fail [wf_intros]: "reg_wf r \<Longrightarrow> reg_wf (reg_fail ser now r i c m)"
  unfolding reg_fail_finish by (auto split: option.splits intro!: reg_wf_finish simp: is_terminal_def)

lemma reg_wf_fail_all [wf_intros]: "reg_wf r \<Longrightarrow> reg_wf (reg_fail_all ser now r c m)"
proof -
  have "reg_wf (foldl (\<lambda>r i. reg_fail ser now r i c m) r ks)" if "reg_wf r" for r ks
    using that by (induction ks arbitrary: r) (auto intro: reg_wf_fail)
  then show "reg_wf r \<Longrightarrow> reg_wf (reg_fail_all ser now r c m)"
    by (simp add: reg_fail_all_def Let_def)
qed

lemma active_count_del_le: "length (filter P (hm_del i m)) \<le> length (filter P m)"
  by (induction m) auto

lemma reg_wf_discard [wf_intros]:
  assumes "reg_wf r"
  shows "reg_wf (reg_discard r i)"
proof -
  have "active_count (reg_discard r i) \<le> active_count r"
    by (simp add: active_count_alt reg_discard_def active_count_del_le)
  moreover have "set (hm_del i (rg_ops r)) = {x \<in> set (rg_ops r). fst x \<noteq> i}"
    by (auto simp: AList.delete_eq)
  ultimately show ?thesis
    using assms by (fastforce simp: reg_wf_def reg_discard_def hm_retain_def hm_wf_retain
        distinct_delete distinct_map_filter)
qed

lemma reg_wf_create [wf_intros]:
  assumes wf: "reg_wf r" and fresh: "\<not> hm_has (rg_ops r) fresh"
  shows "reg_wf (fst (reg_create now fresh r thread turn))"
proof -
  define r1 where "r1 = reg_prune now r"
  have wf1: "reg_wf r1" unfolding r1_def using wf by (rule reg_wf_prune)
  have fresh1: "map_of (rg_ops r1) fresh = None"
  proof -
    obtain k where "rg_ops r1 =
        filter (\<lambda>x. fst x \<notin> snd ` set (take k (finished_list (rg_ops r)))) (rg_ops r)"
      unfolding r1_def by (rule reg_prune_ops)
    with fresh show ?thesis by (auto simp: map_of_eq_None_iff)
  qed
  show ?thesis
  proof (cases "active_count r1 \<ge> rg_max_active r1")
    case True
    with wf1 show ?thesis by (simp add: reg_create_def r1_def [symmetric] Let_def)
  next
    case False
    let ?p = "operation_new fresh thread turn now"
    define r2 where "r2 = r1\<lparr>rg_ops := hm_put fresh ?p (rg_ops r1)\<rparr>"
    have "\<not> op_is_finished ?p" by (simp add: operation_new_def op_defs)
    then have cnt: "active_count r2 = Suc (active_count r1)"
      unfolding r2_def using fresh1 by (intro active_count_put_running) auto
    have wf2: "reg_wf r2"
      using wf1 False cnt op_wf_new [of fresh thread turn now]
      by (auto simp: reg_wf_def r2_def hm_put_mem hm_put_keys distinct_update operation_new_def
          split: if_splits)
    have "fresh \<in> fst ` set (rg_ops r2)" by (simp add: r2_def hm_put_keys)
    with wf2 have bt: "reg_wf (r2\<lparr>rg_by_turn := hm_put (t, u) fresh (rg_by_turn r2)\<rparr>)" for t u
      using hm_put_vals [where k = "(t, u)" and v = fresh and m = "rg_by_turn r2"]
      by (simp add: reg_wf_def distinct_update active_count_def split_beta) blast
    show ?thesis
      using False wf2 bt unfolding reg_create_def r1_def [symmetric] Let_def
      by (auto simp: r2_def split: option.splits)
  qed
qed

section \<open>What pruning keeps\<close>

lemma distinct_finished_ids:
  assumes "reg_wf r"
  shows "distinct (map snd (finished_list (rg_ops r)))"
proof -
  let ?f = "\<lambda>p. map_option (\<lambda>at. (at, op_id p)) (op_finished_at p)"
  have "map snd (List.map_filter ?f (map snd m))
      = map fst (filter (\<lambda>x. op_finished_at (snd x) \<noteq> None) m)"
    if "\<forall>(i, p) \<in> set m. op_id p = i" for m
    using that by (induction m) (auto simp: List.map_filter_simps split: option.splits)
  moreover have "\<forall>(i, p) \<in> set (rg_ops r). op_id p = i"
    using assms by (auto simp: reg_wf_def)
  ultimately have eq: "map snd (List.map_filter ?f (map snd (rg_ops r)))
      = map fst (filter (\<lambda>x. op_finished_at (snd x) \<noteq> None) (rg_ops r))"
    by blast
  have "hm_wf (rg_ops r)" using assms by (simp add: reg_wf_def)
  then have "distinct (map snd (List.map_filter ?f (map snd (rg_ops r))))"
    unfolding eq by (rule distinct_map_filter)
  moreover have "mset (map snd (finished_list (rg_ops r)))
      = mset (map snd (List.map_filter ?f (map snd (rg_ops r))))"
    by (simp add: finished_list_def)
  ultimately show ?thesis using mset_eq_imp_distinct_iff by blast
qed

lemma length_filter_keys:
  assumes "hm_wf m" "set ks \<subseteq> fst ` set m" "distinct ks"
  shows "length (filter (\<lambda>x. fst x \<notin> set ks) m) = length m - length ks"
proof -
  have "length (filter (\<lambda>x. fst x \<in> set ks) m) = card (set (map fst (filter (\<lambda>x. fst x \<in> set ks) m)))"
    using distinct_map_filter [OF assms(1)] by (metis distinct_card length_map)
  also have "set (map fst (filter (\<lambda>x. fst x \<in> set ks) m)) = set ks"
    using assms(2) by auto
  also have "card (set ks) = length ks" using assms(3) by (rule distinct_card)
  finally show ?thesis
    using sum_length_filter_compl [of "\<lambda>x. fst x \<in> set ks" m] by simp
qed

lemma finished_in_list:
  assumes "reg_wf r" "(i, p) \<in> set (rg_ops r)" "op_finished_at p = Some at"
  shows "(at, i) \<in> set (finished_list (rg_ops r))"
  using assms reg_wf_op [OF assms(1,2)] by (force simp: set_finished_list)

lemma sorted_fst_split:
  assumes "sorted (map fst fs)" "x \<in> set (take k fs)" "y \<in> set (drop k fs)"
  shows "fst x \<le> fst y"
proof -
  have "sorted (map fst (take k fs) @ map fst (drop k fs))"
    using assms(1) by (metis append_take_drop_id map_append)
  with assms(2,3) show ?thesis by (auto simp: sorted_append)
qed

lemma finished_at_unique:
  assumes "distinct (map snd fs)" "(a, i) \<in> set fs" "(b, i) \<in> set fs"
  shows "a = b"
  using assms by (auto simp: distinct_map dest!: inj_onD [where x = "(a, i)" and y = "(b, i)"])

text \<open>A finished operation that survives is in the part of the finished list after the break.\<close>

lemma survivor_after_break:
  assumes wf: "reg_wf r" and mem: "(i, p) \<in> set (rg_ops r)" and at: "op_finished_at p = Some at"
    and kept: "i \<notin> snd ` set (take k (finished_list (rg_ops r)))"
  shows "(at, i) \<in> set (drop k (finished_list (rg_ops r)))"
proof -
  have "(at, i) \<in> set (take k (finished_list (rg_ops r)) @ drop k (finished_list (rg_ops r)))"
    using finished_in_list [OF wf mem at] by simp
  moreover have "(at, i) \<notin> set (take k (finished_list (rg_ops r)))"
    using kept by (metis image_eqI snd_conv)
  ultimately show ?thesis unfolding set_append by blast
qed

lemma prune_within_retention:
  assumes wf: "reg_wf r" and mem: "(i, p) \<in> set (rg_ops (reg_prune now r))"
    and at: "op_finished_at p = Some at"
  shows "now - at \<le> rg_retention r \<and> length (rg_ops (reg_prune now r)) \<le> rg_max_retained r"
proof -
  let ?fs = "finished_list (rg_ops r)"
  obtain k where k: "k \<le> length ?fs"
    "rg_ops (reg_prune now r) = filter (\<lambda>x. fst x \<notin> snd ` set (take k ?fs)) (rg_ops r)"
    "\<forall>(at, i) \<in> set (drop k (take (Suc k) ?fs)).
       now - at \<le> rg_retention r \<and> length (rg_ops r) - k \<le> rg_max_retained r"
    by (rule reg_prune_ops)
  from mem have mem': "(i, p) \<in> set (rg_ops r)" "i \<notin> snd ` set (take k ?fs)"
    unfolding k(2) by auto
  from survivor_after_break [OF wf mem'(1) at mem'(2)] have s: "(at, i) \<in> set (drop k ?fs)" .
  then obtain b j rest where d: "drop k ?fs = (b, j) # rest" by (cases "drop k ?fs") auto
  then have "drop k (take (Suc k) ?fs) = [(b, j)]"
    by (simp add: drop_take)
  with k(3) have b: "now - b \<le> rg_retention r" "length (rg_ops r) - k \<le> rg_max_retained r" by auto
  have "sorted (map fst (drop k ?fs))"
    using sorted_finished_list [of "rg_ops r"] by (metis drop_map sorted_wrt_drop)
  with d s have "b \<le> at" by auto
  moreover have "length (rg_ops (reg_prune now r)) = length (rg_ops r) - k"
  proof -
    have "set (map snd (take k ?fs)) \<subseteq> fst ` set (rg_ops r)"
      using finished_list_mem [OF wf] by (force dest: in_set_takeD)
    moreover have "distinct (map snd (take k ?fs))"
      using distinct_finished_ids [OF wf] by (metis distinct_take take_map)
    ultimately have "length (filter (\<lambda>x. fst x \<notin> set (map snd (take k ?fs))) (rg_ops r))
        = length (rg_ops r) - length (map snd (take k ?fs))"
      using wf by (intro length_filter_keys) (auto simp: reg_wf_def)
    with k(1,2) show ?thesis by simp
  qed
  ultimately show ?thesis using b by simp
qed

lemma prune_oldest_first:
  assumes wf: "reg_wf r" and gone: "(i, p) \<in> set (rg_ops r)" "(i, p) \<notin> set (rg_ops (reg_prune now r))"
    and stays: "(j, q) \<in> set (rg_ops (reg_prune now r))" "op_finished_at q = Some b"
  shows "\<exists>a \<le> b. op_finished_at p = Some a"
proof -
  let ?fs = "finished_list (rg_ops r)"
  obtain k where k: "rg_ops (reg_prune now r) = filter (\<lambda>x. fst x \<notin> snd ` set (take k ?fs)) (rg_ops r)"
    by (rule reg_prune_ops)
  from gone have "i \<in> snd ` set (take k ?fs)" unfolding k by auto
  then obtain a where a: "(a, i) \<in> set (take k ?fs)" by auto
  then have "(a, i) \<in> set ?fs" by (rule in_set_takeD)
  from finished_list_mem [OF wf this] obtain p' where p': "(i, p') \<in> set (rg_ops r)" "op_finished_at p' = Some a"
    by blast
  have "p' = p" using p'(1) gone(1) wf by (auto simp: reg_wf_def dest: eq_key_imp_eq_value)
  have "(b, j) \<in> set (drop k ?fs)"
    using stays wf unfolding k by (intro survivor_after_break) auto
  with sorted_fst_split [OF sorted_finished_list a this] p'(2) \<open>p' = p\<close> show ?thesis by auto
qed

section \<open>Steps of the registry\<close>

text \<open>Everything that changes the registry. A new UUID names no operation the registry holds
  (what \<open>Uuid::new_v4\<close> is used for); \<open>finish\<close> is only ever called with a terminal status.\<close>

inductive reg_step :: "(json \<Rightarrow> str) \<Rightarrow> registry \<Rightarrow> registry \<Rightarrow> bool" for ser where
  create: "\<not> hm_has (rg_ops r) fresh \<Longrightarrow> reg_step ser r (fst (reg_create now fresh r thread turn))"
| get: "reg_step ser r (fst (reg_get now r i))"
| discard: "reg_step ser r (reg_discard r i)"
| emit: "reg_step ser r (reg_emit ser r i v)"
| finish: "is_terminal st \<Longrightarrow> reg_step ser r (fst (reg_finish ser now r i st res err))"
| fail: "reg_step ser r (reg_fail ser now r i code msg)"
| fail_all: "reg_step ser r (reg_fail_all ser now r code msg)"

inductive reg_reachable :: "(json \<Rightarrow> str) \<Rightarrow> nat \<Rightarrow> nat \<Rightarrow> nat \<Rightarrow> registry \<Rightarrow> bool" for ser ma mr ret where
  start: "reg_reachable ser ma mr ret (registry_new ma mr ret)"
| step: "reg_reachable ser ma mr ret r \<Longrightarrow> reg_step ser r r' \<Longrightarrow> reg_reachable ser ma mr ret r'"

lemma reg_step_wf: "reg_step ser r r' \<Longrightarrow> reg_wf r \<Longrightarrow> reg_wf r'"
  by (induction rule: reg_step.induct) (auto simp: reg_get_def Let_def intro: wf_intros)

lemma reg_caps_simps [simp]:
  "rg_max_active (reg_fail ser now r i c m) = rg_max_active r"
  "rg_max_active (reg_emit ser r i v) = rg_max_active r"
  "rg_max_active (reg_discard r i) = rg_max_active r"
  "rg_max_active (fst (reg_finish ser now r i st res err)) = rg_max_active r"
  "rg_max_active (fst (reg_create now fresh r thread turn)) = rg_max_active r"
  "rg_max_active (fst (reg_get now r i)) = rg_max_active r"
  by (auto simp: reg_fail_def reg_emit_def reg_discard_def reg_finish_def reg_create_def reg_get_def
      Let_def split: option.splits prod.splits)

lemma reg_fail_all_caps [simp]: "rg_max_active (reg_fail_all ser now r c m) = rg_max_active r"
proof -
  have "rg_max_active (foldl (\<lambda>r i. reg_fail ser now r i c m) r ks) = rg_max_active r" for ks
    by (induction ks arbitrary: r) auto
  then show ?thesis by (simp add: reg_fail_all_def Let_def)
qed

lemma reg_step_caps: "reg_step ser r r' \<Longrightarrow> rg_max_active r' = rg_max_active r"
  by (induction rule: reg_step.induct) auto

lemma reg_reachable_wf: "reg_reachable ser ma mr ret r \<Longrightarrow> reg_wf r \<and> rg_max_active r = ma"
  by (induction rule: reg_reachable.induct)
    (auto intro: reg_step_wf wf_intros dest: reg_step_caps, simp add: registry_new_def)

section \<open>Properties\<close>

text \<open>C22: An operation finishes exactly once: the first \<open>finish\<close> wins, puts the terminal frame as the
  newest event of the operation's log and closes it; every later \<open>finish\<close> or \<open>fail\<close> loses and
  changes neither the operation nor the global log, and nothing can be emitted any more.\<close>

theorem finish_exactly_once:
  assumes "op_wf p" and "\<not> op_is_finished p" and "is_terminal st"
  shows "\<exists>p' g'. op_finish ser now p g st res err = (p', g', True)
    \<and> op_status p' = st \<and> el_closed (op_log p')
    \<and> log_newest (op_log p') = Some (ser (terminal_frame p st res err))
    \<and> el_sequence (op_log p') = Suc (el_sequence (op_log p))
    \<and> (\<forall>now' g2 st' res' err'. op_finish ser now' p' g2 st' res' err' = (p', g2, False))
    \<and> (\<forall>now' g2 c m. op_fail ser now' p' g2 c m = (p', g2, False))
    \<and> (\<forall>g2 v. op_log (fst (op_emit ser p' g2 v)) = op_log p')"
proof -
  have l: "log_wf (op_log p)" "\<not> el_closed (op_log p)" using assms(1,2) by (auto simp: op_wf_def)
  show ?thesis
    using log_sink.final_frame [OF l, of "ser (terminal_frame p st res err)"] assms(3)
    unfolding op_finish_running [OF assms(1,2)]
    by (simp add: op_fail_def op_finish_def op_emit_def Let_def log_sink.after_close)
qed

theorem finish_exactly_once_witness:
  "\<exists>p' g'. op_finish (\<lambda>_. ''{}'') 5 (operation_new ''o'' None None 1) log_default Completed None None
     = (p', g', True) \<and> el_closed (op_log p')"
  using finish_exactly_once [of "operation_new ''o'' None None 1" Completed "\<lambda>_. ''{}''" 5 log_default None None]
    op_wf_new [of "''o''" None None 1]
  by (auto simp: operation_new_def op_defs)



text \<open>Pruning evicts the right operations: every unfinished one survives; a finished one that
  survives is within the retention window and the registry is then within its cap; and whatever is
  evicted finished no later than any finished operation that stays.\<close>

theorem prune_exact:
  assumes "reg_wf r"
  shows "(\<forall>(i, p) \<in> set (rg_ops r). \<not> op_is_finished p \<longrightarrow> (i, p) \<in> set (rg_ops (reg_prune now r)))
    \<and> (\<forall>(i, p) \<in> set (rg_ops (reg_prune now r)). op_is_finished p \<longrightarrow>
          (\<exists>at. op_finished_at p = Some at \<and> now - at \<le> rg_retention r)
          \<and> length (rg_ops (reg_prune now r)) \<le> rg_max_retained r)
    \<and> (\<forall>(i, p) \<in> set (rg_ops r) - set (rg_ops (reg_prune now r)).
        \<forall>(j, q) \<in> set (rg_ops (reg_prune now r)). \<forall>b. op_finished_at q = Some b \<longrightarrow>
          (\<exists>a \<le> b. op_finished_at p = Some a))"
proof (intro conjI)
  have wf': "reg_wf (reg_prune now r)" using assms by (rule reg_wf_prune)
  show "\<forall>(i, p) \<in> set (rg_ops (reg_prune now r)). op_is_finished p \<longrightarrow>
          (\<exists>at. op_finished_at p = Some at \<and> now - at \<le> rg_retention r)
          \<and> length (rg_ops (reg_prune now r)) \<le> rg_max_retained r"
    using prune_within_retention [OF assms] reg_wf_op [OF wf'] unfolding op_wf_def by blast
qed (use prune_keeps_running [OF assms] prune_oldest_first [OF assms] in blast)+

theorem prune_exact_witness:
  "length (rg_ops (reg_prune 9 (registry_new 1 2 3))) \<le> 2 \<or> rg_ops (reg_prune 9 (registry_new 1 2 3)) = []"
  using prune_exact [OF reg_wf_new [of 1 2 3], of 9]
  by (simp add: reg_prune_def registry_new_def finished_list_def)

end
