(* ===== verification/RustNet.thy ===== *)
theory RustNet
  imports Prelude "HOL-Library.Word"
begin

text \<open>
  \<open>std::net\<close> as far as the program uses it: an \<open>IpAddr\<close> is its 32 or 128 address bits (most
  significant octet first), and the predicates below are the documented address ranges of the
  standard library.
\<close>

datatype ip_addr = V4 "32 word" | V6 "128 word"

definition v4_octet :: "32 word \<Rightarrow> nat \<Rightarrow> nat" where
  "v4_octet v i = unat (take_bit 8 (drop_bit (24 - 8 * i) v))"

definition v6_segment :: "128 word \<Rightarrow> nat \<Rightarrow> nat" where
  "v6_segment v i = unat (take_bit 16 (drop_bit (112 - 16 * i) v))"

text \<open>\<open>IpAddr::to_canonical\<close>: an IPv4-mapped IPv6 address (\<open>::ffff:a.b.c.d\<close>) becomes the IPv4
  address, everything else stays.\<close>

fun to_canonical :: "ip_addr \<Rightarrow> ip_addr" where
  "to_canonical (V4 v) = V4 v"
| "to_canonical (V6 v) = (if drop_bit 32 v = 0xffff then V4 (ucast v) else V6 v)"

text \<open>The address with the segments \<open>4..8\<close> zeroed.\<close>

definition v6_net64 :: "128 word \<Rightarrow> 128 word" where
  "v6_net64 v = push_bit 64 (drop_bit 64 v)"

fun ip_is_loopback :: "ip_addr \<Rightarrow> bool" where
  "ip_is_loopback (V4 v) \<longleftrightarrow> v4_octet v 0 = 127"
| "ip_is_loopback (V6 v) \<longleftrightarrow> v = 1"

lemma to_canonical_idem [simp]: "to_canonical (to_canonical ip) = to_canonical ip"
  by (cases ip) auto

lemma drop_v6_net64: "drop_bit 64 (v6_net64 v) = drop_bit 64 v"
  by (rule bit_eqI) (auto simp: v6_net64_def bit_simps dest: bit_imp_le_length)

lemma v6_net64_eq_iff: "v6_net64 v = v6_net64 w \<longleftrightarrow> drop_bit 64 v = drop_bit 64 w"
  by (metis drop_v6_net64 v6_net64_def)

end
