(* ===== verification/RateLimit.thy ===== *)
theory RateLimit
  imports RustNet
begin

text \<open>
  \<open>server/ratelimit.rs\<close>: failure counters with exponential blocks (\<open>Buckets\<close>) and the pools of
  not-yet-authenticated WebSockets (\<open>PreAuthCounts\<close>), keyed by \<open>RateKey\<close>.

  Time is in nanoseconds (\<open>Instant\<close>; \<open>duration_since\<close> saturates at zero, as subtraction on
  naturals does). Each operation takes the \<open>Instant::now()\<close> it reads as its argument. The mutexes
  make each operation atomic.  \<open>as_secs_f64().ceil()\<close> is the rounded-up division: a wait is at
  most an hour, and a double separates nanoseconds there.
\<close>

definition MAX_FAILURES_PER_MINUTE :: nat where "MAX_FAILURES_PER_MINUTE = 20"
definition MAX_PAIR_FAILURES_PER_MINUTE :: nat where "MAX_PAIR_FAILURES_PER_MINUTE = 10"
definition MAX_PREAUTH_PER_IP :: nat where "MAX_PREAUTH_PER_IP = 4"
definition MAX_PREAUTH_TOTAL :: nat where "MAX_PREAUTH_TOTAL = 64"
definition MAX_PREAUTH_LOCAL :: nat where "MAX_PREAUTH_LOCAL = 32"

definition SECOND :: nat where "SECOND = 1000000000"
definition WINDOW :: nat where "WINDOW = 60 * SECOND"
definition BASE_BLOCK :: nat where "BASE_BLOCK = 60 * SECOND"
definition MAX_BLOCK :: nat where "MAX_BLOCK = 3600 * SECOND"
definition STRIKE_MEMORY :: nat where "STRIKE_MEMORY = 3600 * SECOND"
definition MAX_TRACKED :: nat where "MAX_TRACKED = 10000"
definition MAX_TRACKED_HARD :: nat where "MAX_TRACKED_HARD = 2 * MAX_TRACKED"

datatype rate_scope = RateLocal | RateDirect | RateForwarded

record rate_key =
  rk_scope :: rate_scope
  rk_net :: ip_addr

definition rate_key_new :: "rate_scope \<Rightarrow> ip_addr \<Rightarrow> rate_key" where
  "rate_key_new scope ip =
     (let ip = to_canonical ip;
          net = (case (scope, ip) of (RateForwarded, V6 v6) \<Rightarrow> V6 (v6_net64 v6) | _ \<Rightarrow> ip)
      in \<lparr>rk_scope = scope, rk_net = net\<rparr>)"

definition rate_key_direct :: "ip_addr \<Rightarrow> rate_key" where
  "rate_key_direct ip = rate_key_new RateDirect ip"

section \<open>Failure buckets\<close>

record entry =
  en_failures :: "nat list"
  en_strikes :: nat
  en_blocked_until :: "nat option"
  en_last_block :: "nat option"
  en_last_seen :: nat

definition entry_new :: "nat \<Rightarrow> entry" where
  "entry_new now = \<lparr>en_failures = [], en_strikes = 0, en_blocked_until = None,
     en_last_block = None, en_last_seen = now\<rparr>"

definition entry_prune :: "nat \<Rightarrow> entry \<Rightarrow> entry" where
  "entry_prune now e =
     (let failures = pop_while (\<lambda>q. now - hd q \<ge> WINDOW) (en_failures e);
          blocked = (case en_blocked_until e of
                       Some u \<Rightarrow> if u \<le> now then None else Some u | None \<Rightarrow> None);
          forget = (case en_last_block e of Some b \<Rightarrow> now - b \<ge> STRIKE_MEMORY | None \<Rightarrow> False)
      in e\<lparr>en_failures := failures, en_blocked_until := blocked,
           en_strikes := (if forget then 0 else en_strikes e),
           en_last_block := (if forget then None else en_last_block e)\<rparr>)"

definition entry_idle :: "entry \<Rightarrow> bool" where
  "entry_idle e \<longleftrightarrow> en_failures e = [] \<and> en_blocked_until e = None \<and> en_strikes e = 0"

record buckets =
  bk_max :: nat
  bk_map :: "(rate_key, entry) hmap"

definition buckets_new :: "nat \<Rightarrow> buckets" where
  "buckets_new mx = \<lparr>bk_max = mx, bk_map = []\<rparr>"

definition wait_secs :: "nat \<Rightarrow> nat \<Rightarrow> nat" where
  "wait_secs until now = max 1 ((until - now + SECOND - 1) div SECOND)"

definition buckets_blocked :: "nat \<Rightarrow> buckets \<Rightarrow> rate_key \<Rightarrow> buckets \<times> nat option" where
  "buckets_blocked now b key =
     (case hm_get (bk_map b) key of
        None \<Rightarrow> (b, None)
      | Some e \<Rightarrow>
          let e' = entry_prune now e
          in (b\<lparr>bk_map := hm_put key e' (bk_map b)\<rparr>,
              map_option (\<lambda>until. wait_secs until now) (en_blocked_until e')))"

definition unblocked_by_age :: "(rate_key, entry) hmap \<Rightarrow> (nat \<times> rate_key) list" where
  "unblocked_by_age m =
     sort_key fst (map (\<lambda>(k, e). (en_last_seen e, k)) (filter (\<lambda>(k, e). en_blocked_until e = None) m))"

definition make_room :: "nat \<Rightarrow> (rate_key, entry) hmap \<Rightarrow> (rate_key, entry) hmap" where
  "make_room now m =
     (let m = hm_retain (\<lambda>_ e. \<not> entry_idle e) (hm_map (entry_prune now) m)
      in if length m < MAX_TRACKED then m
         else let excess = length m + 1 - MAX_TRACKED + MAX_TRACKED div 10
              in fold hm_del (map snd (take excess (unblocked_by_age m))) m)"

text \<open>\<open>strikes\<close> is a \<open>u32\<close>; the factor is a shift by at most 10.\<close>

definition strike_block :: "nat \<Rightarrow> nat" where
  "strike_block strikes = min (BASE_BLOCK * 2 ^ min (strikes - 1) 10) MAX_BLOCK"

definition entry_fail :: "nat \<Rightarrow> nat \<Rightarrow> entry \<Rightarrow> entry" where
  "entry_fail mx now e =
     (let e = entry_prune now e;
          e = e\<lparr>en_last_seen := now, en_failures := en_failures e @ [now]\<rparr>
      in if length (en_failures e) \<ge> mx
         then let strikes = min (en_strikes e + 1) (2 ^ 32 - 1)
              in e\<lparr>en_strikes := strikes, en_blocked_until := Some (now + strike_block strikes),
                   en_last_block := Some now, en_failures := []\<rparr>
         else e)"

definition buckets_record :: "nat \<Rightarrow> buckets \<Rightarrow> rate_key \<Rightarrow> buckets" where
  "buckets_record now b key =
     (let full = length (bk_map b) \<ge> MAX_TRACKED \<and> \<not> hm_has (bk_map b) key;
          m = (if full then make_room now (bk_map b) else bk_map b)
      in if full \<and> length m \<ge> MAX_TRACKED_HARD then b\<lparr>bk_map := m\<rparr>
         else let e = (case hm_get m key of Some e \<Rightarrow> e | None \<Rightarrow> entry_new now)
              in b\<lparr>bk_map := hm_put key (entry_fail (bk_max b) now e) m\<rparr>)"

definition buckets_clear :: "buckets \<Rightarrow> rate_key \<Rightarrow> buckets" where
  "buckets_clear b key = b\<lparr>bk_map := hm_del key (bk_map b)\<rparr>"

section \<open>Unauthenticated sockets\<close>

text \<open>\<open>pa_notified\<close> lists the sockets whose \<open>Notify\<close> was signalled (\<open>notify_one\<close> leaves a permit,
  so their \<open>evicted()\<close> completes whenever it is awaited).\<close>

record preauth_entry =
  pe_id :: nat
  pe_key :: rate_key

record preauth_counts =
  pa_next_id :: nat
  pa_entries :: "preauth_entry list"
  pa_notified :: "nat list"

definition preauth_empty :: preauth_counts where
  "preauth_empty = \<lparr>pa_next_id = 0, pa_entries = [], pa_notified = []\<rparr>"

definition evict_oldest :: "(preauth_entry \<Rightarrow> bool) \<Rightarrow> preauth_counts \<Rightarrow> preauth_counts" where
  "evict_oldest P c =
     (case find P (pa_entries c) of
        Some e \<Rightarrow> c\<lparr>pa_entries := remove_first P (pa_entries c),
                    pa_notified := pa_notified c @ [pe_id e]\<rparr>
      | None \<Rightarrow> c)"

fun preauth_caps :: "rate_scope \<Rightarrow> nat \<times> nat" where
  "preauth_caps RateLocal = (MAX_PREAUTH_LOCAL, MAX_PREAUTH_LOCAL)"
| "preauth_caps RateDirect = (MAX_PREAUTH_PER_IP, MAX_PREAUTH_TOTAL)"
| "preauth_caps RateForwarded = (MAX_PREAUTH_PER_IP, MAX_PREAUTH_TOTAL)"

text \<open>Dropping a slot.\<close>

definition preauth_drop :: "nat \<Rightarrow> preauth_counts \<Rightarrow> preauth_counts" where
  "preauth_drop i c = c\<lparr>pa_entries := remove_first (\<lambda>e. pe_id e = i) (pa_entries c)\<rparr>"

definition preauth_add :: "rate_key \<Rightarrow> preauth_counts \<Rightarrow> preauth_counts \<times> nat" where
  "preauth_add key c =
     (let (per_key, per_pool) = preauth_caps (rk_scope key);
          c = (if length (filter (\<lambda>e. pe_key e = key) (pa_entries c)) \<ge> per_key
               then evict_oldest (\<lambda>e. pe_key e = key) c else c);
          c = (if length (filter (\<lambda>e. rk_scope (pe_key e) = rk_scope key) (pa_entries c)) \<ge> per_pool
               then evict_oldest (\<lambda>e. rk_scope (pe_key e) = rk_scope key) c else c);
          i = pa_next_id c + 1
      in (c\<lparr>pa_next_id := i, pa_entries := pa_entries c @ [\<lparr>pe_id = i, pe_key = key\<rparr>]\<rparr>, i))"

record auth_limiter =
  al_auth :: buckets
  al_pair :: buckets
  al_preauth :: preauth_counts

definition auth_limiter_new :: auth_limiter where
  "auth_limiter_new = \<lparr>al_auth = buckets_new MAX_FAILURES_PER_MINUTE,
     al_pair = buckets_new MAX_PAIR_FAILURES_PER_MINUTE, al_preauth = preauth_empty\<rparr>"

definition al_blocked :: "nat \<Rightarrow> auth_limiter \<Rightarrow> rate_key \<Rightarrow> auth_limiter \<times> nat option" where
  "al_blocked now l key = (let (b, r) = buckets_blocked now (al_auth l) key in (l\<lparr>al_auth := b\<rparr>, r))"

definition al_record_failure :: "nat \<Rightarrow> auth_limiter \<Rightarrow> rate_key \<Rightarrow> auth_limiter" where
  "al_record_failure now l key = l\<lparr>al_auth := buckets_record now (al_auth l) key\<rparr>"

definition al_pair_blocked :: "nat \<Rightarrow> auth_limiter \<Rightarrow> rate_key \<Rightarrow> auth_limiter \<times> nat option" where
  "al_pair_blocked now l key = (let (b, r) = buckets_blocked now (al_pair l) key in (l\<lparr>al_pair := b\<rparr>, r))"

definition al_record_pair_failure :: "nat \<Rightarrow> auth_limiter \<Rightarrow> rate_key \<Rightarrow> auth_limiter" where
  "al_record_pair_failure now l key = l\<lparr>al_pair := buckets_record now (al_pair l) key\<rparr>"

definition al_clear_pair_failures :: "auth_limiter \<Rightarrow> rate_key \<Rightarrow> auth_limiter" where
  "al_clear_pair_failures l key = l\<lparr>al_pair := buckets_clear (al_pair l) key\<rparr>"

definition al_preauth_slot :: "auth_limiter \<Rightarrow> rate_key \<Rightarrow> auth_limiter \<times> nat" where
  "al_preauth_slot l key = (let (c, i) = preauth_add key (al_preauth l) in (l\<lparr>al_preauth := c\<rparr>, i))"

definition al_preauth_count :: "auth_limiter \<Rightarrow> nat" where
  "al_preauth_count l = length (pa_entries (al_preauth l))"

lemmas rate_consts = SECOND_def WINDOW_def BASE_BLOCK_def MAX_BLOCK_def STRIKE_MEMORY_def
  MAX_TRACKED_def MAX_TRACKED_HARD_def MAX_PREAUTH_PER_IP_def MAX_PREAUTH_TOTAL_def
  MAX_PREAUTH_LOCAL_def MAX_FAILURES_PER_MINUTE_def MAX_PAIR_FAILURES_PER_MINUTE_def

section \<open>Entries\<close>

lemma strike_block_bounds: "BASE_BLOCK \<le> strike_block s" "strike_block s \<le> MAX_BLOCK" "0 < strike_block s"
  by (auto simp: strike_block_def rate_consts)

lemma strike_block_mono: "s \<le> s' \<Longrightarrow> strike_block s \<le> strike_block s'"
  unfolding strike_block_def by (intro min.mono mult_le_mono2 power_increasing) auto

text \<open>What the code keeps of an entry, at time \<open>t\<close>: nothing in it lies in the future, the
  failures are in order, and an active block is the one the last strike set.\<close>

definition entry_wf :: "nat \<Rightarrow> entry \<Rightarrow> bool" where
  "entry_wf t e \<longleftrightarrow>
     sorted (en_failures e) \<and> (\<forall>f \<in> set (en_failures e). f \<le> t)
     \<and> (\<forall>b. en_last_block e = Some b \<longrightarrow> b \<le> t)
     \<and> en_strikes e \<le> 2 ^ 32 - 1
     \<and> (\<forall>u. en_blocked_until e = Some u \<longrightarrow>
           (\<exists>b. en_last_block e = Some b \<and> u = b + strike_block (en_strikes e)))"

lemma entry_wf_new: "entry_wf t (entry_new s)"
  by (simp add: entry_wf_def entry_new_def)

lemma entry_wf_later: "entry_wf t e \<Longrightarrow> t \<le> t' \<Longrightarrow> entry_wf t' e"
  by (force simp: entry_wf_def)

lemma sorted_pop_while: "sorted xs \<Longrightarrow> sorted (pop_while P xs)"
  using pop_while_suffix [of xs P] by (metis sorted_append)

lemma entry_wf_prune [wf_intros]:
  assumes wf: "entry_wf t e" and le: "t \<le> now"
  shows "entry_wf now (entry_prune now e)"
proof -
  have "\<not> STRIKE_MEMORY \<le> now - b"
    if "en_blocked_until e = Some u" "en_last_block e = Some b" "\<not> u \<le> now" for u b
    using that wf strike_block_bounds(2) [of "en_strikes e"]
    by (auto simp: entry_wf_def STRIKE_MEMORY_def MAX_BLOCK_def SECOND_def)
  moreover have "\<forall>f \<in> set (pop_while P (en_failures e)). f \<le> now" for P
    using wf le set_pop_while [of P "en_failures e"] by (fastforce simp: entry_wf_def)
  moreover have "sorted (pop_while P (en_failures e))" for P
    using wf by (simp add: entry_wf_def sorted_pop_while)
  ultimately show ?thesis
    using wf le by (fastforce simp: entry_wf_def entry_prune_def Let_def split: option.splits)
qed

lemma entry_wf_fail [wf_intros]:
  assumes "entry_wf t e" "t \<le> now"
  shows "entry_wf now (entry_fail mx now e)"
  using entry_wf_prune [OF assms]
  by (auto simp: entry_wf_def entry_fail_def Let_def sorted_append)

lemma prune_keeps_block:
  "en_blocked_until e = Some u \<Longrightarrow> now < u \<Longrightarrow> en_blocked_until (entry_prune now e) = Some u"
  by (simp add: entry_prune_def Let_def)

lemma fail_keeps_block:
  assumes wf: "entry_wf t e" "t \<le> now" and u: "en_blocked_until e = Some u" "now < u"
  shows "\<exists>u' \<ge> u. en_blocked_until (entry_fail mx now e) = Some u'"
proof -
  let ?p = "entry_prune now e"
  have p: "en_blocked_until ?p = Some u" using u by (rule prune_keeps_block)
  with entry_wf_prune [OF wf] obtain b where b: "b \<le> now" "u = b + strike_block (en_strikes ?p)"
    and s: "en_strikes ?p \<le> 2 ^ 32 - 1"
    unfolding entry_wf_def by blast
  have "u \<le> now + strike_block (min (en_strikes ?p + 1) (2 ^ 32 - 1))"
  proof -
    have "en_strikes ?p \<le> min (en_strikes ?p + 1) (2 ^ 32 - 1)" using s by simp
    from strike_block_mono [OF this] b show ?thesis by linarith
  qed
  with p show ?thesis by (auto simp: entry_fail_def Let_def)
qed

section \<open>Buckets\<close>

definition buckets_wf :: "nat \<Rightarrow> buckets \<Rightarrow> bool" where
  "buckets_wf t b \<longleftrightarrow> hm_wf (bk_map b) \<and> length (bk_map b) \<le> MAX_TRACKED_HARD
     \<and> (\<forall>k e. hm_get (bk_map b) k = Some e \<longrightarrow> entry_wf t e)"

lemma buckets_wf_new [wf_intros]: "buckets_wf t (buckets_new mx)"
  by (simp add: buckets_wf_def buckets_new_def)

lemma buckets_wf_later: "buckets_wf t b \<Longrightarrow> t \<le> t' \<Longrightarrow> buckets_wf t' b"
  unfolding buckets_wf_def using entry_wf_later by blast

lemma length_hm_retain: "length (hm_retain P m) \<le> length m"
  by (simp add: hm_retain_def)

lemma length_hm_map [simp]: "length (hm_map f m) = length m"
  by (simp add: hm_map_def)

lemma length_fold_del: "length (fold hm_del ks m) \<le> length m"
  by (induction ks arbitrary: m) (auto intro: order_trans length_hm_del_le)

lemma make_room_length: "length (make_room now m) \<le> length m"
  using length_hm_retain [of "\<lambda>_ e. \<not> entry_idle e" "hm_map (entry_prune now) m"]
  by (auto simp: make_room_def Let_def intro: order_trans [OF length_fold_del])

lemma make_room_wf [wf_intros]: "hm_wf m \<Longrightarrow> hm_wf (make_room now m)"
  by (auto simp: make_room_def Let_def intro!: hm.wf_fold_del hm_wf_retain)

lemma make_room_get:
  assumes wf: "hm_wf m" and e: "hm_get (make_room now m) k = Some e"
  shows "\<exists>e0. hm_get m k = Some e0 \<and> e = entry_prune now e0"
proof -
  let ?r = "hm_retain (\<lambda>_ e. \<not> entry_idle e) (hm_map (entry_prune now) m)"
  have "hm_get ?r k = Some e"
    using e by (simp add: make_room_def Let_def hm.get_fold_del del: map_of_eq_Some_iff split: if_splits)
  then show ?thesis
    using wf by (auto simp del: map_of_eq_Some_iff split: option.splits if_splits)
qed

text \<open>Making room never drops an active block.\<close>

lemma make_room_keeps_block:
  assumes wf: "hm_wf m" and k: "hm_get m k = Some e" "en_blocked_until e = Some u" "now < u"
  shows "hm_get (make_room now m) k = Some (entry_prune now e)"
proof -
  let ?r = "hm_retain (\<lambda>_ e. \<not> entry_idle e) (hm_map (entry_prune now) m)"
  have b: "en_blocked_until (entry_prune now e) = Some u" using k by (simp add: prune_keeps_block)
  have wr: "hm_wf ?r" using wf by (intro hm_wf_retain) simp
  have get: "hm_get ?r k = Some (entry_prune now e)"
    using wf k(1) b by (simp add: entry_idle_def)
  have "k \<notin> snd ` set (unblocked_by_age ?r)"
  proof
    assume "k \<in> snd ` set (unblocked_by_age ?r)"
    then obtain e' where kr: "(k, e') \<in> set ?r" and "en_blocked_until e' = None"
      unfolding unblocked_by_age_def by auto
    from map_of_is_SomeI [OF wr kr] have "hm_get ?r k = Some e'" .
    with get b \<open>en_blocked_until e' = None\<close> show False by (simp only: option.inject option.distinct)
  qed
  then have "k \<notin> set (map snd (take n (unblocked_by_age ?r)))" for n
    by (auto dest: in_set_takeD)
  then have "hm_get (fold hm_del (map snd (take n (unblocked_by_age ?r))) ?r) k = Some (entry_prune now e)" for n
    unfolding hm.get_fold_del using get by (simp only: if_False)
  then show ?thesis unfolding make_room_def Let_def using get
    by (cases "length ?r < MAX_TRACKED") (simp_all only: if_True if_False simp_thms)
qed

lemma record_known:
  "hm_get (bk_map b) key = Some e \<Longrightarrow>
    buckets_record now b key = b\<lparr>bk_map := hm_put key (entry_fail (bk_max b) now e) (bk_map b)\<rparr>"
  by (simp add: buckets_record_def Let_def)

lemma make_room_none: "hm_wf m \<Longrightarrow> hm_get m k = None \<Longrightarrow> hm_get (make_room now m) k = None"
  using make_room_get [of m now k] by (cases "hm_get (make_room now m) k") auto

lemma record_unknown:
  assumes "hm_wf (bk_map b)" "hm_get (bk_map b) key = None"
    and m_def: "m = (if length (bk_map b) \<ge> MAX_TRACKED then make_room now (bk_map b) else bk_map b)"
  shows "buckets_record now b key =
    (if length (bk_map b) \<ge> MAX_TRACKED \<and> length m \<ge> MAX_TRACKED_HARD then b\<lparr>bk_map := m\<rparr>
     else b\<lparr>bk_map := hm_put key (entry_fail (bk_max b) now (entry_new now)) m\<rparr>)"
  using assms(2) make_room_none [OF assms(1,2), of now] by (simp add: buckets_record_def Let_def m_def)

lemma record_get:
  assumes wf: "hm_wf (bk_map b)" and e: "hm_get (bk_map (buckets_record now b key)) k = Some e"
  shows "(\<exists>e0. hm_get (bk_map b) k = Some e0 \<and> (e = e0 \<or> e = entry_prune now e0
           \<or> e = entry_fail (bk_max b) now e0))
        \<or> e = entry_fail (bk_max b) now (entry_new now)"
proof (cases "hm_get (bk_map b) key")
  case None
  let ?m = "if length (bk_map b) \<ge> MAX_TRACKED then make_room now (bk_map b) else bk_map b"
  have "hm_get ?m k = Some e \<or> e = entry_fail (bk_max b) now (entry_new now)"
    using e unfolding record_unknown [OF wf None refl] by (auto simp: hm.get_put simp del: map_of_eq_Some_iff split: if_splits)
  then show ?thesis using make_room_get [OF wf] by (metis (full_types))
next
  case (Some e0)
  show ?thesis using e Some unfolding record_known [OF Some]
    by (auto simp: hm.get_put simp del: map_of_eq_Some_iff split: if_splits)
qed

lemma record_length:
  "length (bk_map b) \<le> MAX_TRACKED_HARD \<Longrightarrow> length (bk_map (buckets_record now b key)) \<le> MAX_TRACKED_HARD"
  using make_room_length [of now "bk_map b"]
  by (auto simp: buckets_record_def Let_def length_hm_put MAX_TRACKED_HARD_def)

lemma record_max [simp]: "bk_max (buckets_record now b key) = bk_max b"
  by (simp add: buckets_record_def Let_def)

lemma buckets_wf_record [wf_intros]:
  assumes wf: "buckets_wf t b" and le: "t \<le> now"
  shows "buckets_wf now (buckets_record now b key)"
proof -
  have m: "hm_wf (bk_map b)" using wf by (simp add: buckets_wf_def)
  have e: "entry_wf now e0 \<and> entry_wf now (entry_prune now e0) \<and> entry_wf now (entry_fail (bk_max b) now e0)
      \<and> entry_wf now (entry_fail (bk_max b) now (entry_prune now e0))"
    if "hm_get (bk_map b) k = Some e0" for k e0
    using wf le that by (metis buckets_wf_def entry_wf_fail entry_wf_later entry_wf_prune order_refl)
  have "entry_wf now e" if "hm_get (bk_map (buckets_record now b key)) k = Some e" for k e
    using record_get [OF m that] e entry_wf_fail [OF entry_wf_new order_refl] by blast
  moreover have "hm_wf (bk_map (buckets_record now b key))"
    using m by (auto simp: buckets_record_def Let_def intro!: hm_wf_put make_room_wf)
  ultimately show ?thesis
    using wf record_length [of b now key] by (auto simp: buckets_wf_def)
qed

lemma buckets_wf_blocked [wf_intros]:
  assumes wf: "buckets_wf t b" and le: "t \<le> now"
  shows "buckets_wf now (fst (buckets_blocked now b key))"
proof (cases "hm_get (bk_map b) key")
  case None
  then show ?thesis using buckets_wf_later [OF wf le] by (simp add: buckets_blocked_def)
next
  case (Some e)
  have "entry_wf now (entry_prune now e)"
    using wf le Some unfolding buckets_wf_def by (blast intro: entry_wf_prune)
  with buckets_wf_later [OF wf le] Some show ?thesis
    by (auto simp: buckets_wf_def buckets_blocked_def Let_def hm.get_put length_hm_put
        intro: hm_wf_put split: if_splits)
qed

lemma buckets_wf_clear [wf_intros]: "buckets_wf t b \<Longrightarrow> buckets_wf t (buckets_clear b key)"
  using length_hm_del_le [of key "bk_map b"]
  by (auto simp: buckets_wf_def buckets_clear_def hm.get_del distinct_hm_del split: if_splits
      intro: order_trans)

subsection \<open>Runs\<close>

text \<open>A run is a list of operations, each some time after the one before.\<close>

datatype bucket_op = OpBlocked rate_key | OpRecord rate_key | OpClear rate_key

fun bucket_step :: "nat \<times> buckets \<Rightarrow> nat \<times> bucket_op \<Rightarrow> nat \<times> buckets" where
  "bucket_step (t, b) (dt, OpBlocked k) = (t + dt, fst (buckets_blocked (t + dt) b k))"
| "bucket_step (t, b) (dt, OpRecord k) = (t + dt, buckets_record (t + dt) b k)"
| "bucket_step (t, b) (dt, OpClear k) = (t + dt, buckets_clear b k)"

definition bucket_inv :: "nat \<times> buckets \<Rightarrow> bool" where
  "bucket_inv s = buckets_wf (fst s) (snd s)"

lemma bucket_step_inv: "bucket_inv s \<Longrightarrow> bucket_inv (bucket_step s e)"
  by (cases "(s, e)" rule: bucket_step.cases)
    (auto simp: bucket_inv_def intro: buckets_wf_blocked buckets_wf_record buckets_wf_clear buckets_wf_later)

interpretation bucket_run: monotone_machine bucket_step bucket_inv fst
proof unfold_locales
  show "fst s \<le> fst (bucket_step s e)" if "bucket_inv s" for s e
    by (cases "(s, e)" rule: bucket_step.cases) auto
qed (rule bucket_step_inv)

lemma record_keeps_block:
  assumes wf: "buckets_wf t b" and le: "t \<le> now"
    and k: "hm_get (bk_map b) k = Some e" "en_blocked_until e = Some u" "now < u"
  shows "\<exists>e' u'. hm_get (bk_map (buckets_record now b key)) k = Some e' \<and> en_blocked_until e' = Some u' \<and> u \<le> u'"
proof (cases "k = key")
  case True
  have "entry_wf t e" using wf k(1) unfolding buckets_wf_def by blast
  from fail_keeps_block [OF this le k(2,3)] True show ?thesis
    using record_known [of b key e now] k(1) by (auto simp: hm.get_put simp del: map_of_eq_Some_iff)
next
  case False
  have m: "hm_wf (bk_map b)" using wf by (simp add: buckets_wf_def)
  have pb: "en_blocked_until (entry_prune now e) = Some u" using k by (simp add: prune_keeps_block)
  have room: "hm_get (make_room now (bk_map b)) k = Some (entry_prune now e)"
    using m k by (rule make_room_keeps_block)
  show ?thesis
  proof (cases "hm_get (bk_map b) key")
    case None
    show ?thesis unfolding record_unknown [OF m None refl] using False room k pb
      by (simp add: hm.get_put del: map_of_eq_Some_iff)
  qed (use False k in \<open>simp add: record_known hm.get_put del: map_of_eq_Some_iff\<close>)
qed

lemma step_keeps_block:
  assumes "bucket_inv s" and "hm_get (bk_map (snd s)) k = Some e" "en_blocked_until e = Some u"
    and "fst (bucket_step s ev) < u" "snd ev \<noteq> OpClear k"
  shows "\<exists>e' u'. hm_get (bk_map (snd (bucket_step s ev))) k = Some e' \<and> en_blocked_until e' = Some u' \<and> u \<le> u'"
  using assms
proof (cases "(s, ev)" rule: bucket_step.cases)
  case (1 t b dt key)
  then show ?thesis using assms prune_keeps_block [of e u "t + dt"]
    by (auto simp: buckets_blocked_def Let_def hm.get_put split: option.splits)
next
  case (2 t b dt key)
  then show ?thesis using assms record_keeps_block [of t b "t + dt" k e u key]
    by (auto simp: bucket_inv_def)
next
  case (3 t b dt key)
  then show ?thesis using assms by (auto simp: buckets_clear_def hm.get_del)
qed

lemma run_keeps_block:
  assumes "bucket_inv s" "hm_get (bk_map (snd s)) k = Some e" "en_blocked_until e = Some u"
    and "fst (foldl bucket_step s evs) < u" "OpClear k \<notin> snd ` set evs"
  shows "\<exists>e' u'. hm_get (bk_map (snd (foldl bucket_step s evs))) k = Some e'
    \<and> en_blocked_until e' = Some u' \<and> u \<le> u'"
  using assms
proof (induction evs arbitrary: s e u)
  case (Cons ev evs)
  let ?s = "bucket_step s ev"
  have inv: "bucket_inv ?s" using Cons.prems(1) by (rule bucket_step_inv)
  have "fst ?s < u" using bucket_run.run_mono [OF inv, of evs] Cons.prems(4) by simp
  with step_keeps_block [OF Cons.prems(1-3), of ev] Cons.prems(5)
  obtain e' u' where 1: "hm_get (bk_map (snd ?s)) k = Some e'" "en_blocked_until e' = Some u'" "u \<le> u'"
    by auto
  with Cons.IH [OF inv 1(1,2)] Cons.prems(4,5) show ?case by (force intro: order_trans)
qed auto

subsection \<open>The budget\<close>

lemma pop_while_keeps: "(\<And>q. q \<noteq> [] \<Longrightarrow> \<exists>p. xs = p @ q \<Longrightarrow> \<not> P q) \<Longrightarrow> pop_while P xs = xs"
  by (cases xs) auto

text \<open>Failures inside one window accumulate until the budget is used up.\<close>

lemma fails_accumulate:
  assumes "sorted (ts @ [t])" "ts \<noteq> [] \<Longrightarrow> t - hd ts < WINDOW" "length ts < mx"
    and "en_failures e = ts" "en_blocked_until e = None" "en_last_block e = None" "en_strikes e = 0"
  shows "entry_fail mx t e =
    (if Suc (length ts) \<ge> mx
     then e\<lparr>en_last_seen := t, en_failures := [], en_strikes := 1,
            en_blocked_until := Some (t + strike_block 1), en_last_block := Some t\<rparr>
     else e\<lparr>en_last_seen := t, en_failures := ts @ [t]\<rparr>)"
proof -
  have "pop_while (\<lambda>q. t - hd q \<ge> WINDOW) ts = ts"
    using assms(2) by (cases ts) auto
  then show ?thesis using assms by (simp add: entry_fail_def entry_prune_def Let_def)
qed

fun fail_all :: "nat \<Rightarrow> nat list \<Rightarrow> entry \<Rightarrow> entry" where
  "fail_all mx [] e = e"
| "fail_all mx (t # ts) e = fail_all mx ts (entry_fail mx t e)"

lemma fail_all_snoc [simp]: "fail_all mx (ts @ [t]) e = entry_fail mx t (fail_all mx ts e)"
  by (induction ts arbitrary: e) auto

lemma hd_append_window: "ts \<noteq> [] \<Longrightarrow> hd (ts @ [t]) = hd ts"
  by simp

lemma fail_all_state:
  assumes "sorted ts" "ts \<noteq> [] \<Longrightarrow> last ts - hd ts < WINDOW" "length ts < mx"
  shows "en_failures (fail_all mx ts (entry_new s)) = ts
    \<and> en_blocked_until (fail_all mx ts (entry_new s)) = None
    \<and> en_last_block (fail_all mx ts (entry_new s)) = None
    \<and> en_strikes (fail_all mx ts (entry_new s)) = 0"
  using assms
proof (induction ts rule: rev_induct)
  case Nil
  then show ?case by (simp add: entry_new_def)
next
  case (snoc t ts)
  have w: "ts \<noteq> [] \<Longrightarrow> t - hd ts < WINDOW" using snoc.prems(2) by simp
  have "ts \<noteq> [] \<Longrightarrow> last ts \<le> t" using snoc.prems(1) by (simp add: sorted_append)
  with w have "ts \<noteq> [] \<Longrightarrow> last ts - hd ts < WINDOW" by fastforce
  with snoc.IH snoc.prems have IH: "en_failures (fail_all mx ts (entry_new s)) = ts"
    "en_blocked_until (fail_all mx ts (entry_new s)) = None"
    "en_last_block (fail_all mx ts (entry_new s)) = None"
    "en_strikes (fail_all mx ts (entry_new s)) = 0"
    by (auto simp: sorted_append)
  have "length ts < mx" using snoc.prems(3) by simp
  from fails_accumulate [OF snoc.prems(1) w this IH] IH snoc.prems(3) show ?case by simp
qed

definition record_run :: "rate_key \<Rightarrow> nat list \<Rightarrow> buckets \<Rightarrow> buckets" where
  "record_run k ts b = foldl (\<lambda>b t. buckets_record t b k) b ts"

lemma record_run_known:
  "hm_get (bk_map b) k = Some e \<Longrightarrow>
     hm_get (bk_map (record_run k ts b)) k = Some (fail_all (bk_max b) ts e)"
  by (induction ts arbitrary: b e)
    (simp_all add: record_run_def record_known hm.get_put del: map_of_eq_Some_iff)

lemma record_run_fresh:
  assumes "hm_get (bk_map b) k = None" "length (bk_map b) < MAX_TRACKED" "ts \<noteq> []"
  shows "hm_get (bk_map (record_run k ts b)) k = Some (fail_all (bk_max b) ts (entry_new (hd ts)))"
proof -
  obtain t us where ts: "ts = t # us" using assms(3) by (cases ts) auto
  have r: "buckets_record t b k
      = b\<lparr>bk_map := hm_put k (entry_fail (bk_max b) t (entry_new t)) (bk_map b)\<rparr>"
    using assms(1,2) by (simp add: buckets_record_def Let_def)
  have "hm_get (bk_map (record_run k us (buckets_record t b k))) k
      = Some (fail_all (bk_max b) us (entry_fail (bk_max b) t (entry_new t)))"
    using record_run_known [of "buckets_record t b k" k "entry_fail (bk_max b) t (entry_new t)" us]
    by (simp add: r hm.get_put del: map_of_eq_Some_iff)
  then show ?thesis by (simp add: ts record_run_def)
qed

lemma blocked_result:
  "hm_get (bk_map b) k = Some e \<Longrightarrow>
   snd (buckets_blocked now b k) = (case en_blocked_until e of
      Some u \<Rightarrow> if u \<le> now then None else Some (wait_secs u now) | None \<Rightarrow> None)"
  by (simp add: buckets_blocked_def entry_prune_def Let_def split: option.splits)

section \<open>Pools\<close>

definition per_key :: "rate_key \<Rightarrow> preauth_counts \<Rightarrow> nat" where
  "per_key k c = length (filter (\<lambda>e. pe_key e = k) (pa_entries c))"

definition per_scope :: "rate_scope \<Rightarrow> preauth_counts \<Rightarrow> nat" where
  "per_scope s c = length (filter (\<lambda>e. rk_scope (pe_key e) = s) (pa_entries c))"

definition preauth_wf :: "preauth_counts \<Rightarrow> bool" where
  "preauth_wf c \<longleftrightarrow> (\<forall>k. per_key k c \<le> fst (preauth_caps (rk_scope k)))
     \<and> (\<forall>s. per_scope s c \<le> snd (preauth_caps s))
     \<and> distinct (map pe_id (pa_entries c)) \<and> (\<forall>e \<in> set (pa_entries c). pe_id e \<le> pa_next_id c)"

lemma caps_pos: "0 < fst (preauth_caps s)" "0 < snd (preauth_caps s)"
  by (cases s; simp add: rate_consts)+

lemma evict_oldest_entries: "pa_entries (evict_oldest P c) = remove_first P (pa_entries c)"
  by (auto simp: evict_oldest_def find_None_iff remove_first_none split: option.split)

lemma evict_oldest_next [simp]: "pa_next_id (evict_oldest P c) = pa_next_id c"
  by (simp add: evict_oldest_def split: option.split)

lemma filter_remove_first_keep:
  "(\<And>x. P x \<Longrightarrow> \<not> Q x) \<Longrightarrow> filter Q (remove_first P xs) = filter Q xs"
  by (rule filter_remove_first_other)

text \<open>One eviction makes room when there is at least one match.\<close>

lemma evict_makes_room:
  assumes "\<And>x. P x \<Longrightarrow> Q x" "0 < n" "length (filter Q xs) \<le> n" "n \<le> length (filter P xs)"
  shows "length (filter Q (remove_first P xs)) < n"
proof -
  have "\<exists>x \<in> set xs. P x" using assms(2,4) filter_eq_length1 [of P xs] by linarith
  from length_filter_remove_first [of P Q, OF assms(1) this] assms(3) show ?thesis by linarith
qed

lemma preauth_wf_remove:
  assumes "preauth_wf c" "pa_next_id c' = pa_next_id c" "pa_entries c' = remove_first P (pa_entries c)"
  shows "preauth_wf c'"
  using assms length_filter_remove_first_le [of _ P "pa_entries c"] set_remove_first [of P "pa_entries c"]
    distinct_map_remove_first [of pe_id "pa_entries c" P]
  unfolding preauth_wf_def per_key_def per_scope_def by (metis order_trans subsetD)

lemma preauth_wf_drop [wf_intros]: "preauth_wf c \<Longrightarrow> preauth_wf (preauth_drop i c)"
  by (erule preauth_wf_remove) (simp_all add: preauth_drop_def)

lemma remove_first_split:
  assumes "\<exists>x\<in>set xs. P x"
  obtains ys x zs where "xs = ys @ x # zs" "P x" "\<forall>y\<in>set ys. \<not> P y" "remove_first P xs = ys @ zs"
    "find P xs = Some x"
proof -
  from assms obtain ys x zs where s: "xs = ys @ x # zs" "P x" "\<forall>y\<in>set ys. \<not> P y"
    by (metis split_list_first_prop)
  have "remove_first P (ys @ x # zs) = ys @ zs \<and> find P (ys @ x # zs) = Some x"
    using s(2,3) by (induction ys) auto
  with s that show thesis by blast
qed

lemma preauth_ids_sorted_remove: "sorted_wrt (<) (map pe_id xs) \<Longrightarrow> sorted_wrt (<) (map pe_id (remove_first P xs))"
  by (induction xs) (use set_remove_first [of P] in \<open>auto\<close>)

text \<open>What one eviction does: the first match goes, is told so, and is older than every other match.\<close>

lemma evict_oldest_spec:
  assumes "sorted_wrt (<) (map pe_id (pa_entries c))" "\<exists>e\<in>set (pa_entries c). P e"
  shows "\<exists>e \<in> set (pa_entries c). P e
    \<and> set (pa_entries c) = insert e (set (pa_entries (evict_oldest P c)))
    \<and> pa_notified (evict_oldest P c) = pa_notified c @ [pe_id e]
    \<and> (\<forall>e' \<in> set (pa_entries (evict_oldest P c)). P e' \<longrightarrow> pe_id e < pe_id e')"
proof -
  obtain ys x zs where s: "pa_entries c = ys @ x # zs" "P x" "\<forall>y\<in>set ys. \<not> P y"
    "remove_first P (pa_entries c) = ys @ zs" "find P (pa_entries c) = Some x"
    using assms(2) by (rule remove_first_split)
  then show ?thesis using assms(1)
    by (intro bexI [of _ x]) (auto simp: evict_oldest_def sorted_wrt_append)
qed

definition preauth_ok :: "preauth_counts \<Rightarrow> bool" where
  "preauth_ok c \<longleftrightarrow> preauth_wf c \<and> sorted_wrt (<) (map pe_id (pa_entries c))"

definition evict_if :: "bool \<Rightarrow> (preauth_entry \<Rightarrow> bool) \<Rightarrow> preauth_counts \<Rightarrow> preauth_counts" where
  "evict_if b P c = (if b then evict_oldest P c else c)"

lemma preauth_ok_evict: "preauth_ok c \<Longrightarrow> preauth_ok (evict_if b P c)"
  unfolding preauth_ok_def evict_if_def
  by (auto simp: evict_oldest_entries preauth_ids_sorted_remove
      intro: preauth_wf_remove [of c "evict_oldest P c" P])

text \<open>An admission as two conditional evictions.\<close>

lemma preauth_add_eq:
  assumes c1: "c1 = evict_if (fst (preauth_caps (rk_scope k)) \<le> per_key k c) (\<lambda>e. pe_key e = k) c"
    and c2: "c2 = evict_if (snd (preauth_caps (rk_scope k)) \<le> per_scope (rk_scope k) c1)
      (\<lambda>e. rk_scope (pe_key e) = rk_scope k) c1"
  shows "preauth_add k c = (c2\<lparr>pa_next_id := pa_next_id c + 1,
      pa_entries := pa_entries c2 @ [\<lparr>pe_id = pa_next_id c + 1, pe_key = k\<rparr>]\<rparr>, pa_next_id c + 1)"
proof -
  have "pa_next_id c2 = pa_next_id c" by (simp add: c1 c2 evict_if_def)
  then show ?thesis
    unfolding c2 c1 preauth_add_def Let_def evict_if_def per_key_def per_scope_def
    by (simp add: split_beta)
qed

lemma evict_if_room:
  assumes "\<And>x. P x \<Longrightarrow> Q x" "0 < n" "length (filter Q (pa_entries c)) \<le> n"
    "b \<longleftrightarrow> n \<le> length (filter P (pa_entries c))" "Q = P"
  shows "length (filter Q (pa_entries (evict_if b P c))) < n"
  using evict_makes_room [OF assms(1-3)] assms(4,5)
  by (auto simp: evict_if_def evict_oldest_entries not_le)

lemma evict_if_le: "length (filter Q (pa_entries (evict_if b P c))) \<le> length (filter Q (pa_entries c))"
  by (auto simp: evict_if_def evict_oldest_entries length_filter_remove_first_le)

lemma preauth_add_ok:
  assumes ok: "preauth_ok c"
  shows "preauth_ok (fst (preauth_add k c))"
proof -
  define c1 where "c1 = evict_if (fst (preauth_caps (rk_scope k)) \<le> per_key k c) (\<lambda>e. pe_key e = k) c"
  define c2 where "c2 = evict_if (snd (preauth_caps (rk_scope k)) \<le> per_scope (rk_scope k) c1)
      (\<lambda>e. rk_scope (pe_key e) = rk_scope k) c1"
  have ok1: "preauth_ok c1" unfolding c1_def using ok by (rule preauth_ok_evict)
  have ok2: "preauth_ok c2" unfolding c2_def using ok1 by (rule preauth_ok_evict)
  have k1: "per_key k c1 < fst (preauth_caps (rk_scope k))"
    using ok caps_pos(1) [of "rk_scope k"] unfolding c1_def per_key_def preauth_ok_def preauth_wf_def
    by (intro evict_if_room) (auto simp: per_key_def)
  have k2: "per_key k c2 < fst (preauth_caps (rk_scope k))"
    using k1 evict_if_le [of "\<lambda>e. pe_key e = k"] unfolding c2_def per_key_def
    by (rule le_less_trans [rotated])
  have s2: "per_scope (rk_scope k) c2 < snd (preauth_caps (rk_scope k))"
    using ok1 caps_pos(2) [of "rk_scope k"] unfolding c2_def per_scope_def preauth_ok_def preauth_wf_def
    by (intro evict_if_room) (auto simp: per_scope_def)
  have n: "pa_next_id c2 = pa_next_id c" by (simp add: c1_def c2_def evict_if_def)
  have "preauth_wf (fst (preauth_add k c))"
    using ok2 k2 s2 n unfolding preauth_add_eq [OF c1_def c2_def]
    by (fastforce simp: preauth_ok_def preauth_wf_def per_key_def per_scope_def)
  moreover have "sorted_wrt (<) (map pe_id (pa_entries (fst (preauth_add k c))))"
    using ok2 n unfolding preauth_add_eq [OF c1_def c2_def]
    by (fastforce simp: preauth_ok_def preauth_wf_def sorted_wrt_append)
  ultimately show ?thesis by (simp add: preauth_ok_def)
qed

text \<open>What a newcomer costs the others.\<close>

lemma evict_if_spec:
  assumes "sorted_wrt (<) (map pe_id (pa_entries c))" "b \<Longrightarrow> \<exists>e\<in>set (pa_entries c). P e"
    and "e \<in> set (pa_entries c)" "e \<notin> set (pa_entries (evict_if b P c))"
  shows "b \<and> P e \<and> pe_id e \<in> set (pa_notified (evict_if b P c))
    \<and> (\<forall>e' \<in> set (pa_entries (evict_if b P c)). P e' \<longrightarrow> pe_id e < pe_id e')"
  using evict_oldest_spec [OF assms(1), of P] assms(2-) by (auto simp: evict_if_def split: if_splits)

lemma evict_if_notified: "set (pa_notified c) \<subseteq> set (pa_notified (evict_if b P c))"
  by (auto simp: evict_if_def evict_oldest_def split: option.split)

lemma evict_if_subset: "set (pa_entries (evict_if b P c)) \<subseteq> set (pa_entries c)"
  by (auto simp: evict_if_def evict_oldest_entries dest: set_remove_first [THEN subsetD])

lemma evict_if_other:
  "(\<And>x. P x \<Longrightarrow> \<not> Q x) \<Longrightarrow> filter Q (pa_entries (evict_if b P c)) = filter Q (pa_entries c)"
  by (simp add: evict_if_def evict_oldest_entries filter_remove_first_other)

inductive preauth_reachable :: "preauth_counts \<Rightarrow> bool" where
  start: "preauth_reachable preauth_empty"
| add: "preauth_reachable c \<Longrightarrow> preauth_reachable (fst (preauth_add k c))"
| drop: "preauth_reachable c \<Longrightarrow> preauth_reachable (preauth_drop i c)"

lemma preauth_reachable_ok: "preauth_reachable c \<Longrightarrow> preauth_ok c"
proof (induction rule: preauth_reachable.induct)
  case start
  show ?case by (simp add: preauth_ok_def preauth_wf_def preauth_empty_def per_key_def per_scope_def)
next
  case (add c k)
  then show ?case by (intro preauth_add_ok)
next
  case (drop c i)
  then show ?case
    by (auto simp: preauth_ok_def preauth_drop_def preauth_ids_sorted_remove
        intro: preauth_wf_drop [of c i, unfolded preauth_drop_def])
qed

lemma preauth_add_spec:
  assumes ok: "preauth_ok c"
  shows "\<exists>kept. pa_entries (fst (preauth_add k c)) = kept @ [\<lparr>pe_id = pa_next_id c + 1, pe_key = k\<rparr>]
    \<and> set kept \<subseteq> set (pa_entries c)
    \<and> filter (\<lambda>e. rk_scope (pe_key e) \<noteq> rk_scope k) kept
        = filter (\<lambda>e. rk_scope (pe_key e) \<noteq> rk_scope k) (pa_entries c)
    \<and> (per_key k c < fst (preauth_caps (rk_scope k))
        \<and> per_scope (rk_scope k) c < snd (preauth_caps (rk_scope k)) \<longrightarrow> kept = pa_entries c)
    \<and> (\<forall>e \<in> set (pa_entries c) - set kept. pe_id e \<in> set (pa_notified (fst (preauth_add k c)))
        \<and> (\<forall>e' \<in> set kept. pe_key e' = pe_key e \<longrightarrow> pe_id e < pe_id e'))"
proof -
  define c1 where "c1 = evict_if (fst (preauth_caps (rk_scope k)) \<le> per_key k c) (\<lambda>e. pe_key e = k) c"
  define c2 where "c2 = evict_if (snd (preauth_caps (rk_scope k)) \<le> per_scope (rk_scope k) c1)
      (\<lambda>e. rk_scope (pe_key e) = rk_scope k) c1"
  have eq: "pa_entries (fst (preauth_add k c)) = pa_entries c2 @ [\<lparr>pe_id = pa_next_id c + 1, pe_key = k\<rparr>]"
    "pa_notified (fst (preauth_add k c)) = pa_notified c2"
    using preauth_add_eq [OF c1_def c2_def] by simp_all
  have ok1: "preauth_ok c1" unfolding c1_def using ok by (rule preauth_ok_evict)
  have some: "\<exists>e\<in>set xs. P e" if "n \<le> length (filter P xs)" "0 < n" for n P and xs :: "preauth_entry list"
    using that filter_eq_length1 [of P xs] by linarith
  have sub: "set (pa_entries c2) \<subseteq> set (pa_entries c1)" "set (pa_entries c1) \<subseteq> set (pa_entries c)"
    unfolding c2_def c1_def by (rule evict_if_subset)+
  have gone1: "pe_key e = k \<and> pe_id e \<in> set (pa_notified c1)
      \<and> (\<forall>e' \<in> set (pa_entries c1). pe_key e' = k \<longrightarrow> pe_id e < pe_id e')"
    if "e \<in> set (pa_entries c)" "e \<notin> set (pa_entries c1)" for e
    using ok that some caps_pos(1) unfolding c1_def preauth_ok_def per_key_def
    by (intro evict_if_spec [THEN conjunct2]) auto
  have gone2: "rk_scope (pe_key e) = rk_scope k \<and> pe_id e \<in> set (pa_notified c2)
      \<and> (\<forall>e' \<in> set (pa_entries c2). rk_scope (pe_key e') = rk_scope k \<longrightarrow> pe_id e < pe_id e')"
    if "e \<in> set (pa_entries c1)" "e \<notin> set (pa_entries c2)" for e
    using ok1 that some caps_pos(2) unfolding c2_def preauth_ok_def per_scope_def
    by (intro evict_if_spec [THEN conjunct2]) auto
  have told: "set (pa_notified c1) \<subseteq> set (pa_notified c2)" unfolding c2_def by (rule evict_if_notified)
  show ?thesis
  proof (intro exI conjI)
    show "filter (\<lambda>e. rk_scope (pe_key e) \<noteq> rk_scope k) (pa_entries c2)
        = filter (\<lambda>e. rk_scope (pe_key e) \<noteq> rk_scope k) (pa_entries c)"
    proof -
      have "filter (\<lambda>e. rk_scope (pe_key e) \<noteq> rk_scope k) (pa_entries c1)
          = filter (\<lambda>e. rk_scope (pe_key e) \<noteq> rk_scope k) (pa_entries c)"
        unfolding c1_def by (rule evict_if_other) auto
      then show ?thesis unfolding c2_def by (simp add: evict_if_other)
    qed
    show "per_key k c < fst (preauth_caps (rk_scope k))
        \<and> per_scope (rk_scope k) c < snd (preauth_caps (rk_scope k)) \<longrightarrow> pa_entries c2 = pa_entries c"
      by (auto simp: c2_def c1_def evict_if_def)
    show "\<forall>e \<in> set (pa_entries c) - set (pa_entries c2). pe_id e \<in> set (pa_notified (fst (preauth_add k c)))
        \<and> (\<forall>e' \<in> set (pa_entries c2). pe_key e' = pe_key e \<longrightarrow> pe_id e < pe_id e')"
      unfolding eq(2) using gone1 gone2 told sub(1) by (metis DiffE subsetD)
  qed (use eq sub in auto)
qed

section \<open>Properties\<close>

text \<open>A client spends its budget exactly: \<open>max\<close> failures inside one window block it for the base
  block, counted from the last failure and reported in whole seconds rounded up; one failure fewer
  does not block it at any time.\<close>

theorem budget_then_block:
  assumes "hm_get (bk_map b) k = None" and "length (bk_map b) < MAX_TRACKED"
    and "sorted ts" and "ts \<noteq> []" and "last ts - hd ts < WINDOW" and "length ts \<le> bk_max b"
  shows "snd (buckets_blocked now (record_run k ts b) k) =
    (if length ts = bk_max b \<and> now < last ts + BASE_BLOCK
     then Some (wait_secs (last ts + BASE_BLOCK) now) else None)"
proof -
  obtain us t where ts: "ts = us @ [t]" using assms(4) by (cases ts rule: rev_exhaust) auto
  have w: "us \<noteq> [] \<Longrightarrow> t - hd us < WINDOW" using assms(5) by (simp add: ts)
  have "us \<noteq> [] \<Longrightarrow> last us \<le> t" using assms(3) by (simp add: ts sorted_append)
  with w have w': "us \<noteq> [] \<Longrightarrow> last us - hd us < WINDOW" by fastforce
  have "sorted us" "length us < bk_max b" using assms(3,6) by (simp_all add: ts sorted_append)
  from fail_all_state [OF this(1) w' this(2), of "hd ts"]
  have st: "en_failures (fail_all (bk_max b) us (entry_new (hd ts))) = us"
    "en_blocked_until (fail_all (bk_max b) us (entry_new (hd ts))) = None"
    "en_last_block (fail_all (bk_max b) us (entry_new (hd ts))) = None"
    "en_strikes (fail_all (bk_max b) us (entry_new (hd ts))) = 0" by auto
  have b1: "strike_block 1 = BASE_BLOCK" by (simp add: strike_block_def rate_consts)
  have "sorted (us @ [t])" using assms(3) by (simp add: ts)
  from fails_accumulate [OF this w \<open>length us < bk_max b\<close> st] b1 assms(6) st(2)
  have "en_blocked_until (fail_all (bk_max b) ts (entry_new (hd ts)))
      = (if length ts = bk_max b then Some (t + BASE_BLOCK) else None)"
    by (auto simp: ts)
  then show ?thesis
    unfolding blocked_result [OF record_run_fresh [OF assms(1,2,4)]] by (simp add: ts not_less)
qed

theorem budget_then_block_witness:
  "snd (buckets_blocked 9 (record_run (rate_key_direct (V4 7)) [5, 6] (buckets_new 2)) (rate_key_direct (V4 7)))
     = Some 60"
  using budget_then_block [of "buckets_new 2" "rate_key_direct (V4 7)" "[5, 6]" 9]
  by (simp add: buckets_new_def wait_secs_def rate_consts)

text \<open>C23: An active block cannot be lifted: whatever happens until it expires - failures of any other
  client, cleaning up for a flood of new addresses, reads, even further failures of the blocked
  client - the client stays blocked at least as long; only an explicit clear of that client ends
  it. Meanwhile the table never holds more than \<open>MAX_TRACKED_HARD\<close> clients.\<close>

theorem block_outlives_flood:
  assumes "bucket_inv (t, b)" and "hm_get (bk_map b) k = Some e" and "en_blocked_until e = Some u"
    and "foldl bucket_step (t, b) evs = (t', b')" and "t' < u" and "OpClear k \<notin> snd ` set evs"
  shows "\<exists>w. snd (buckets_blocked t' b' k) = Some w \<and> wait_secs u t' \<le> w
    \<and> length (bk_map b') \<le> MAX_TRACKED_HARD"
proof -
  from run_keeps_block [of "(t, b)" k e u evs] assms obtain e' u'
    where 1: "hm_get (bk_map b') k = Some e'" "en_blocked_until e' = Some u'" "u \<le> u'" by auto
  have "buckets_wf t' b'"
    using bucket_run.run_inv [OF assms(1), of evs] assms(4) by (simp add: bucket_inv_def)
  then have "length (bk_map b') \<le> MAX_TRACKED_HARD" by (simp add: buckets_wf_def)
  moreover have "wait_secs u t' \<le> wait_secs u' t'"
    unfolding wait_secs_def using 1(3) by (intro max.mono order_refl div_le_mono diff_le_mono add_le_mono1)
  ultimately show ?thesis using 1(2,3) assms(5) by (simp add: blocked_result [OF 1(1)])
qed

theorem block_outlives_flood_witness:
  "\<exists>w \<ge> 60. snd (buckets_blocked 8
     (snd (foldl bucket_step (5, buckets_record 5 (buckets_new 1) (rate_key_direct (V4 7)))
        [(3, OpRecord (rate_key_direct (V4 9)))])) (rate_key_direct (V4 7))) = Some w"
proof -
  let ?k = "rate_key_direct (V4 7)" and ?b = "buckets_record 5 (buckets_new 1) (rate_key_direct (V4 7))"
  let ?evs = "[(3, OpRecord (rate_key_direct (V4 9)))]"
  let ?e = "entry_fail 1 5 (entry_new 5)"
  have g: "hm_get (bk_map ?b) ?k = Some ?e"
    by (simp add: buckets_record_def buckets_new_def rate_consts)
  have u: "en_blocked_until ?e = Some (5 + BASE_BLOCK)"
    by (simp add: entry_fail_def entry_new_def entry_prune_def strike_block_def rate_consts)
  have i: "bucket_inv (5, ?b)"
    using buckets_wf_record [OF buckets_wf_new [of 5 1] order_refl] by (simp add: bucket_inv_def)
  have f: "foldl bucket_step (5, ?b) ?evs = (8, snd (foldl bucket_step (5, ?b) ?evs))" by simp
  from block_outlives_flood [OF i g u f] show ?thesis by (force simp: wait_secs_def rate_consts)
qed

text \<open>The pools of waiting sockets: at any time no client holds more than its share and no scope
  more than its pool; a newcomer is always admitted, under a new id; a socket is closed for it only
  when its client or pool was full, is told so, belongs to the newcomer's scope and is older than
  every remaining socket of its own client.\<close>

theorem preauth_pool:
  assumes "preauth_reachable c"
  shows "per_key k c \<le> fst (preauth_caps (rk_scope k)) \<and> per_scope s c \<le> snd (preauth_caps s)
    \<and> (\<forall>e \<in> set (pa_entries c). pe_id e < snd (preauth_add k c))
    \<and> (\<exists>kept. pa_entries (fst (preauth_add k c)) = kept @ [\<lparr>pe_id = snd (preauth_add k c), pe_key = k\<rparr>]
        \<and> set kept \<subseteq> set (pa_entries c)
        \<and> filter (\<lambda>e. rk_scope (pe_key e) \<noteq> rk_scope k) kept
            = filter (\<lambda>e. rk_scope (pe_key e) \<noteq> rk_scope k) (pa_entries c)
        \<and> (per_key k c < fst (preauth_caps (rk_scope k))
            \<and> per_scope (rk_scope k) c < snd (preauth_caps (rk_scope k)) \<longrightarrow> kept = pa_entries c)
        \<and> (\<forall>e \<in> set (pa_entries c) - set kept. pe_id e \<in> set (pa_notified (fst (preauth_add k c)))
            \<and> (\<forall>e' \<in> set kept. pe_key e' = pe_key e \<longrightarrow> pe_id e < pe_id e')))"
proof -
  have ok: "preauth_ok c" using assms by (rule preauth_reachable_ok)
  have id: "snd (preauth_add k c) = pa_next_id c + 1"
    using preauth_add_eq [OF refl refl, of k c] by simp
  show ?thesis
    using preauth_add_spec [OF ok, of k] ok unfolding id preauth_ok_def preauth_wf_def
    by (auto simp: less_Suc_eq_le)
qed

theorem preauth_pool_witness:
  "per_scope RateDirect (fst (preauth_add (rate_key_direct (V4 7)) preauth_empty)) \<le> 64"
  using preauth_pool [OF preauth_reachable.add [OF preauth_reachable.start],
      of "rate_key_direct (V4 7)" "rate_key_direct (V4 7)" RateDirect]
  by (simp add: rate_consts)

end
