(* ===== verification/PendingModel.thy ===== *)
theory PendingModel
  imports Json
begin

text \<open>
  The pending-decision part of \<open>claude/model.rs\<close>: the items a human must act on, the preview a list
  card carries and the record of how an item was resolved.
\<close>

record question_option =
  qo_label :: str
  qo_description :: "str option"

record question =
  qu_question :: str
  qu_header :: "str option"
  qu_options :: "question_option list"
  qu_multi_select :: bool

record permission_suggestion =
  ps_index :: nat
  ps_label :: str
  ps_kind :: str
  ps_destination :: "str option"
  ps_standing :: bool
  ps_raw :: json

datatype pending_kind = Permission | AskQuestion | Plan | Elicitation

datatype pending_source = SrcOwned | SrcHook | SrcBridge | SrcSidecar | SrcObserved

record pending_item =
  pi_id :: str
  pi_session_id :: str
  pi_kind :: pending_kind
  pi_source :: pending_source
  pi_tool_name :: "str option"
  pi_tool_use_id :: "str option"
  pi_agent_id :: "str option"
  pi_agent_type :: "str option"
  pi_title :: str
  pi_detail :: "str option"
  pi_input :: "json option"
  pi_questions :: "question list option"
  pi_plan :: "str option"
  pi_suggestions :: "permission_suggestion list"
  pi_dangerous :: bool
  pi_dangerous_reason :: "str option"
  pi_answerable :: bool
  pi_created_at :: int

definition pending_item_default :: pending_item where
  "pending_item_default = \<lparr>pi_id = [], pi_session_id = [], pi_kind = Permission, pi_source = SrcOwned,
     pi_tool_name = None, pi_tool_use_id = None, pi_agent_id = None, pi_agent_type = None,
     pi_title = [], pi_detail = None, pi_input = None, pi_questions = None, pi_plan = None,
     pi_suggestions = [], pi_dangerous = False, pi_dangerous_reason = None, pi_answerable = False,
     pi_created_at = 0\<rparr>"

record pending_preview =
  pp_id :: str
  pp_kind :: pending_kind
  pp_source :: pending_source
  pp_title :: str
  pp_detail :: "str option"
  pp_tool_name :: "str option"
  pp_agent_id :: "str option"
  pp_dangerous :: bool
  pp_answerable :: bool
  pp_created_at :: int
  pp_question_count :: nat
  pp_quick :: "str list option"

definition PREVIEW_DETAIL_MAX :: nat where "PREVIEW_DETAIL_MAX = 240"

text \<open>The ellipsis character, as its three UTF-8 bytes.\<close>

definition ellipsis :: str where
  "ellipsis = map char_of [226, 128, 166 :: nat]"

text \<open>\<open>chars().take(n)\<close>: the first \<open>n\<close> characters, each with its continuation bytes.\<close>

fun take_chars :: "nat \<Rightarrow> str \<Rightarrow> str" where
  "take_chars n [] = []"
| "take_chars n (c # s) =
     (if is_cont_byte c then c # take_chars n s
      else if n = 0 then [] else c # take_chars (n - 1) s)"

definition clip_chars :: "str \<Rightarrow> nat \<Rightarrow> str" where
  "clip_chars s mx = (if char_count s \<le> mx then s else take_chars (mx - 1) s @ ellipsis)"

text \<open>\<open>t.lines().next().unwrap_or("")\<close>: up to the first line feed, without a carriage return before it.\<close>

definition first_line :: "str \<Rightarrow> str" where
  "first_line t =
     (case find_byte (\<lambda>c. byte c = 10) t of
        None \<Rightarrow> t
      | Some i \<Rightarrow> let l = take i t
                 in (if l \<noteq> [] \<and> byte (last l) = 13 then butlast l else l))"

definition or_else :: "'a option \<Rightarrow> 'a option \<Rightarrow> 'a option" where
  "or_else a b = (case a of Some _ \<Rightarrow> a | None \<Rightarrow> b)"

definition opt_filter :: "('a \<Rightarrow> bool) \<Rightarrow> 'a option \<Rightarrow> 'a option" where
  "opt_filter P x = (case x of Some v \<Rightarrow> if P v then x else None | None \<Rightarrow> None)"

lemma opt_filter_Some [simp]: "opt_filter P x = Some v \<longleftrightarrow> x = Some v \<and> P v"
  by (auto simp: opt_filter_def split: option.splits)

definition is_blank :: "str \<Rightarrow> bool" where
  "is_blank s \<longleftrightarrow> trim s = []"

definition pending_preview_from :: "pending_item \<Rightarrow> pending_preview" where
  "pending_preview_from p =
     (let questions = (case pi_questions p of Some qs \<Rightarrow> qs | None \<Rightarrow> []);
          quick = (case (pi_kind p, questions) of
              (AskQuestion, [q]) \<Rightarrow>
                if \<not> qu_multi_select q \<and> 1 \<le> length (qu_options q) \<and> length (qu_options q) \<le> 4
                then Some (map qo_label (qu_options q)) else None
            | _ \<Rightarrow> None);
          detail = or_else (pi_detail p)
            (or_else (case questions of q # _ \<Rightarrow> Some (qu_question q) | [] \<Rightarrow> None)
               (map_option first_line (pi_plan p)));
          detail = map_option (\<lambda>d. clip_chars d PREVIEW_DETAIL_MAX)
            (opt_filter (\<lambda>d. \<not> is_blank d) detail)
      in \<lparr>pp_id = pi_id p, pp_kind = pi_kind p, pp_source = pi_source p,
          pp_title = clip_chars (pi_title p) PREVIEW_DETAIL_MAX, pp_detail = detail,
          pp_tool_name = pi_tool_name p, pp_agent_id = pi_agent_id p,
          pp_dangerous = pi_dangerous p, pp_answerable = pi_answerable p,
          pp_created_at = pi_created_at p, pp_question_count = length questions mod 2 ^ 32,
          pp_quick = quick\<rparr>)"

datatype pending_outcome = OutAllowed | OutDenied | OutAnswered | OutWithdrawn | OutExpired | OutCancelled

datatype resolver_kind = ByDevice | ByDesktop | ByHost | ByTimeout

record resolved_by =
  rb_kind :: resolver_kind
  rb_name :: "str option"

record pending_resolved =
  pr_id :: str
  pr_session :: str
  pr_outcome :: pending_outcome
  pr_by :: "resolved_by option"
  pr_at :: int
  pr_text :: "str option"

section \<open>Clipping\<close>

lemma take_chars_count: "char_count (take_chars n s) \<le> n"
  by (induction n s rule: take_chars.induct) (auto simp: char_count_def)

lemma take_chars_prefix: "\<exists>t. s = take_chars n s @ t"
  by (induction n s rule: take_chars.induct) auto

lemma char_count_ellipsis [simp]: "char_count ellipsis = 1"
  by (simp add: char_count_def ellipsis_def is_cont_byte_def byte_char_of)

lemma clip_chars_count: "0 < mx \<Longrightarrow> char_count (clip_chars s mx) \<le> mx"
  using take_chars_count [of "mx - 1" s] by (auto simp: clip_chars_def)

lemma clip_chars_short: "char_count s \<le> mx \<Longrightarrow> clip_chars s mx = s"
  by (simp add: clip_chars_def)

text \<open>A list card never shows more than \<open>PREVIEW_DETAIL_MAX\<close> characters, and never a blank detail
  it was given as such.\<close>

lemma preview_bounds:
  "char_count (pp_title (pending_preview_from p)) \<le> PREVIEW_DETAIL_MAX"
  "pp_detail (pending_preview_from p) = Some d \<Longrightarrow> char_count d \<le> PREVIEW_DETAIL_MAX"
  by (auto simp: pending_preview_from_def Let_def PREVIEW_DETAIL_MAX_def intro!: clip_chars_count)

end
