(* ===== verification/Danger.thy ===== *)
theory Danger
  imports PendingModel RustPath
begin

text \<open>
  \<open>pending/danger.rs\<close>: is approving this item dangerous? A \<open>PathBuf\<close> the environment holds is its
  string (what \<open>to_string_lossy\<close> shows), read through \<open>components\<close>. \<open>std::fs::canonicalize\<close> is the
  parameter \<open>canon\<close>: the resolved path of a path that exists, \<open>None\<close> otherwise.
\<close>

definition WRITE_TOOLS :: "str list" where
  "WRITE_TOOLS = [''Edit'', ''Write'', ''MultiEdit'', ''NotebookEdit'']"

definition SHELL_TOOLS :: "str list" where
  "SHELL_TOOLS = [''Bash'', ''PowerShell'']"

definition READ_TOOLS :: "str list" where
  "READ_TOOLS = [''Read'', ''NotebookRead'', ''Grep'', ''Glob'', ''LS'']"

definition SHELL_RC :: "str list" where
  "SHELL_RC = [''.bashrc'', ''.bash_profile'', ''.bash_login'', ''.bash_logout'', ''.profile'',
     ''.zshrc'', ''.zshenv'', ''.zprofile'', ''.zlogin'', ''.zlogout'', ''.kshrc'', ''.cshrc'',
     ''.tcshrc'', ''.login'', ''.inputrc'', ''config.fish'']"

record danger_env =
  de_cwd :: "str option"
  de_home :: "str option"
  de_app_dirs :: "str list"

text \<open>\<open>DangerEnv::current\<close>; the home and app data directories are the environment's.\<close>

definition danger_env_current :: "str option \<Rightarrow> str option \<Rightarrow> str option \<Rightarrow> danger_env" where
  "danger_env_current home app_data cwd =
     \<lparr>de_cwd = opt_filter (\<lambda>c. c \<noteq> []) cwd, de_home = home,
      de_app_dirs = (case app_data of Some d \<Rightarrow> [d] | None \<Rightarrow> [])\<rparr>"

section \<open>Paths\<close>

fun fold_comp :: "path \<Rightarrow> comp \<Rightarrow> path" where
  "fold_comp out ParentDir = path_pop out"
| "fold_comp out CurDir = out"
| "fold_comp out c = path_join out [c]"

definition expand_home :: "danger_env \<Rightarrow> str \<Rightarrow> path" where
  "expand_home env raw =
     (case (strip_prefix raw ''~/'', de_home env) of
        (Some rest, Some home) \<Rightarrow> path_join (components home) (components rest)
      | _ \<Rightarrow> if raw = ''~''
            then (case de_home env of Some home \<Rightarrow> components home | None \<Rightarrow> components raw)
            else components raw)"

definition lexical_path :: "str \<Rightarrow> danger_env \<Rightarrow> path" where
  "lexical_path raw env =
     (let expanded = expand_home env (trim raw);
          joined = (if is_absolute expanded then expanded
                    else case de_cwd env of
                           Some cwd \<Rightarrow> path_join (components cwd) expanded
                         | None \<Rightarrow> expanded)
      in foldl fold_comp [] joined)"

function resolve_loop :: "(path \<Rightarrow> path option) \<Rightarrow> path \<Rightarrow> path \<Rightarrow> str list \<Rightarrow> path" where
  "resolve_loop canon path existing rest =
     (case canon existing of
        Some real \<Rightarrow> foldl (\<lambda>out part. path_join out [Normal part]) real (rev rest)
      | None \<Rightarrow>
          (case (path_file_name existing, path_parent existing) of
             (Some name, Some parent) \<Rightarrow>
               if parent \<noteq> [] then resolve_loop canon path parent (rest @ [name]) else path
           | _ \<Rightarrow> path))"
  by pat_completeness auto
termination
  by (relation "measure (\<lambda>(_, _, existing, _). length existing)")
    (auto simp: path_parent_def split: if_splits)

declare resolve_loop.simps [simp del]

definition resolve_existing :: "(path \<Rightarrow> path option) \<Rightarrow> path \<Rightarrow> path" where
  "resolve_existing canon p = resolve_loop canon p p []"

section \<open>Reading the app's own data\<close>

text \<open>\<open>pattern.find(['*', '?', '[', '{'])\<close>\<close>

definition is_glob_byte :: "char \<Rightarrow> bool" where
  "is_glob_byte c \<longleftrightarrow> c \<in> set ''*?[{''"

definition glob_base :: "str \<Rightarrow> str" where
  "glob_base pattern =
     (case find_byte is_glob_byte pattern of
        Some i \<Rightarrow> (case rsplit_once_byte (take i pattern) (CHR ''/'') of
                    Some (dir, _) \<Rightarrow> dir | None \<Rightarrow> [])
      | None \<Rightarrow> pattern)"

definition app_dir_forms :: "(path \<Rightarrow> path option) \<Rightarrow> danger_env \<Rightarrow> path list" where
  "app_dir_forms canon env =
     concat (map (\<lambda>d. [components d, resolve_existing canon (components d)]) (de_app_dirs env))"

definition reads_app_data :: "(path \<Rightarrow> path option) \<Rightarrow> str \<Rightarrow> danger_env \<Rightarrow> str option" where
  "reads_app_data canon raw env =
     (if trim raw = [] then None
      else let lexical = lexical_path raw env;
               resolved = resolve_existing canon lexical;
               dirs = app_dir_forms canon env
           in if \<exists>p \<in> set [lexical, resolved]. \<exists>d \<in> set dirs. path_starts_with p d
              then Some ''Mother Claude's own data (tokens and keys)'' else None)"

definition searches_app_data :: "(path \<Rightarrow> path option) \<Rightarrow> path \<Rightarrow> danger_env \<Rightarrow> str option" where
  "searches_app_data canon root env =
     (let resolved = resolve_existing canon root;
          dirs = app_dir_forms canon env
      in if \<exists>r \<in> set [root, resolved]. \<exists>d \<in> set dirs. path_starts_with d r
         then Some ''a folder holding Mother Claude's own data (tokens and keys)'' else None)"

section \<open>Sensitive paths\<close>

fun normal_parts :: "path \<Rightarrow> str list" where
  "normal_parts [] = []"
| "normal_parts (Normal s # p) = s # normal_parts p"
| "normal_parts (_ # p) = normal_parts p"

text \<open>\<open>comps.windows(2).any(..)\<close>\<close>

fun has_pair :: "str \<Rightarrow> str \<Rightarrow> str list \<Rightarrow> bool" where
  "has_pair a b (x # y # xs) \<longleftrightarrow> (x = a \<and> y = b) \<or> has_pair a b (y # xs)"
| "has_pair a b _ \<longleftrightarrow> False"

definition in_app_dir :: "(path \<Rightarrow> path option) \<Rightarrow> path \<Rightarrow> danger_env \<Rightarrow> bool" where
  "in_app_dir canon p env \<longleftrightarrow>
     (\<exists>d \<in> set (de_app_dirs env). path_starts_with p (components d)
        \<or> path_starts_with p (resolve_existing canon (components d)))"

definition sensitive_resolved :: "(path \<Rightarrow> path option) \<Rightarrow> path \<Rightarrow> danger_env \<Rightarrow> str option" where
  "sensitive_resolved canon p env =
     (let comps = normal_parts p;
          name = (if comps = [] then [] else last comps)
      in if in_app_dir canon p env then Some ''Mother Claude's own data (devices, hook credentials)''
         else if ''.claude'' \<in> set comps then Some ''Claude Code configuration (.claude/)''
         else if name = ''.claude.json'' then Some ''Claude Code's global config (~/.claude.json)''
         else if name = ''.mcp.json'' then Some ''an MCP server configuration (.mcp.json)''
         else if ''.ssh'' \<in> set comps then Some ''SSH configuration (~/.ssh)''
         else if name \<in> set SHELL_RC then Some (''a shell startup file ('' @ name @ '')'')
         else if has_pair ''Library'' ''LaunchAgents'' comps \<or> ''LaunchDaemons'' \<in> set comps
              then Some ''a launch agent (runs at login)''
         else if has_pair ''.git'' ''hooks'' comps then Some ''a git hook (runs on every git command)''
         else if length comps \<ge> 2 \<and> comps ! (length comps - 2) = ''.git'' \<and> name = ''config''
              then Some ''the repository's git config''
         else None)"

definition sensitive_path :: "(path \<Rightarrow> path option) \<Rightarrow> str \<Rightarrow> danger_env \<Rightarrow> str option" where
  "sensitive_path canon raw env =
     (let lexical = lexical_path raw env;
          resolved = resolve_existing canon lexical
      in or_else (sensitive_resolved canon lexical env) (sensitive_resolved canon resolved env))"

section \<open>Sensitive commands\<close>

definition is_blank_byte :: "char \<Rightarrow> bool" where
  "is_blank_byte c \<longleftrightarrow> byte c = 32 \<or> byte c = 9"

definition claude_before_ok :: "str \<Rightarrow> nat \<Rightarrow> bool" where
  "claude_before_ok lower start \<longleftrightarrow>
     start = 0 \<or> \<not> (is_ascii_alnum (lower ! (start - 1)) \<or> lower ! (start - 1) \<in> set ''-_.'')"

definition admin_subcommand :: "str \<Rightarrow> bool" where
  "admin_subcommand rest \<longleftrightarrow>
     (\<exists>sub \<in> set [''plugin'', ''plugins'', ''mcp'', ''config''].
        case strip_prefix rest sub of
          Some after \<Rightarrow> after = [] \<or> \<not> is_ascii_alnum (hd after)
        | None \<Rightarrow> False)"

function admin_loop :: "str \<Rightarrow> nat \<Rightarrow> bool" where
  "admin_loop lower frm =
     (case find_str (drop frm lower) ''claude'' of
        None \<Rightarrow> False
      | Some pos \<Rightarrow>
          let start = frm + pos;
              stop = start + length ''claude'';
              rest = dropWhile is_blank_byte (drop stop lower)
          in if \<not> claude_before_ok lower start then admin_loop lower stop
             else if length rest = length lower - stop then admin_loop lower stop
             else if admin_subcommand rest then True
             else admin_loop lower stop)"
  by pat_completeness auto
termination
  by (relation "measure (\<lambda>(lower, frm). length lower - frm)")
    (auto dest!: find_str_Some)

declare admin_loop.simps [simp del]

definition runs_claude_admin :: "str \<Rightarrow> bool" where
  "runs_claude_admin lower = admin_loop lower 0"

definition word_before_ok :: "str \<Rightarrow> nat \<Rightarrow> bool" where
  "word_before_ok hay start \<longleftrightarrow>
     start = 0 \<or> byte (hay ! (start - 1)) \<in> {47, 126, 32, 9, 34, 39, 62, 61}"

definition word_after_ok :: "str \<Rightarrow> nat \<Rightarrow> bool" where
  "word_after_ok hay stop \<longleftrightarrow>
     stop = length hay
     \<or> \<not> ((97 \<le> byte (hay ! stop) \<and> byte (hay ! stop) \<le> 122) \<or> is_ascii_digit (hay ! stop)
          \<or> hay ! stop \<in> set ''_-.'')"

text \<open>The guard is the slice \<open>hay[from..]\<close>, which is in bounds for every needle but the empty one.\<close>

function word_loop :: "str \<Rightarrow> str \<Rightarrow> nat \<Rightarrow> bool" where
  "word_loop hay needle frm =
     (if frm > length hay then False
      else case find_str (drop frm hay) needle of
        None \<Rightarrow> False
      | Some pos \<Rightarrow>
          let start = frm + pos;
              stop = start + length needle
          in if word_before_ok hay start \<and> word_after_ok hay stop then True
             else word_loop hay needle (start + 1))"
  by pat_completeness auto
termination
  by (relation "measure (\<lambda>(hay, needle, frm). Suc (length hay) - frm)") auto

declare word_loop.simps [simp del]

definition contains_word :: "str \<Rightarrow> str \<Rightarrow> bool" where
  "contains_word hay needle = word_loop hay needle 0"

definition PATTERNS :: "(str \<times> str) list" where
  "PATTERNS =
    [(''.claude/'', ''touches Claude Code configuration (.claude/)''),
     (''.claude.json'', ''touches ~/.claude.json''),
     (''.mcp.json'', ''touches an MCP server configuration''),
     (''.ssh'', ''touches SSH configuration''),
     (''launchagents'', ''touches launch agents''),
     (''launchdaemons'', ''touches launch daemons''),
     (''.git/hooks'', ''touches git hooks''),
     (''.git/config'', ''touches the repository's git config''),
     (''core.hookspath'', ''changes where git hooks run from''),
     (''core.fsmonitor'', ''makes git run a program''),
     (''.claude '', ''touches Claude Code configuration (.claude/)''),
     (''/.claude\"'', ''touches Claude Code configuration (.claude/)'')]"

definition sensitive_command :: "str \<Rightarrow> danger_env \<Rightarrow> str option" where
  "sensitive_command command env =
     (let lower = to_ascii_lowercase command
      in if contains lower ''bypasspermissions'' \<or> contains lower ''dangerously-skip-permissions''
         then Some ''asks for permission bypass''
         else if runs_claude_admin lower
         then Some ''changes Claude Code's plugins, MCP servers or config''
         else if \<exists>dir \<in> set (de_app_dirs env). dir \<noteq> [] \<and> contains lower (to_ascii_lowercase dir)
         then Some ''touches Mother Claude's own data''
         else if contains lower ''dev.motherclaude'' then Some ''touches Mother Claude's own data''
         else case find (\<lambda>(needle, _). contains lower needle) PATTERNS of
           Some (_, why) \<Rightarrow> Some why
         | None \<Rightarrow>
             if ends_with lower ''/.claude'' \<or> ends_with lower ''~/.claude''
             then Some ''touches Claude Code configuration (.claude/)''
             else map_option (\<lambda>rc. ''touches a shell startup file ('' @ rc @ '')'')
                    (find (contains_word lower) SHELL_RC))"

section \<open>Classification\<close>

text \<open>The first of the named texts of the input that a check objects to.\<close>

definition input_text :: "pending_item \<Rightarrow> str \<Rightarrow> str option" where
  "input_text item key = Option.bind (pi_input item) (\<lambda>i. jget_str i key)"

fun first_some :: "('a \<Rightarrow> 'b option) \<Rightarrow> 'a list \<Rightarrow> 'b option" where
  "first_some f [] = None"
| "first_some f (x # xs) = (case f x of Some y \<Rightarrow> Some y | None \<Rightarrow> first_some f xs)"

lemma first_some_None: "first_some f xs = None \<longleftrightarrow> (\<forall>x\<in>set xs. f x = None)"
  by (induction xs) (auto split: option.splits)

definition classify :: "(path \<Rightarrow> path option) \<Rightarrow> pending_item \<Rightarrow> danger_env \<Rightarrow> str option" where
  "classify canon item env =
     (let tool = (case pi_tool_name item of Some t \<Rightarrow> t | None \<Rightarrow> []);
          write = (if tool \<in> set WRITE_TOOLS
                   then map_option (\<lambda>why. tool @ '' changes '' @ why @ ''.'')
                     (first_some (\<lambda>key. Option.bind (input_text item key) (\<lambda>p. sensitive_path canon p env))
                        [''file_path'', ''notebook_path'', ''path''])
                   else None);
          shell = (if tool \<in> set SHELL_TOOLS
                   then map_option (\<lambda>why. ''The command '' @ why @ ''.'')
                     (Option.bind (input_text item ''command'') (\<lambda>c. sensitive_command c env))
                   else None);
          keys = (if tool = ''Glob'' then [''pattern'', ''path''] else [''file_path'', ''notebook_path'', ''path'']);
          reads = (if tool \<in> set READ_TOOLS
                   then map_option (\<lambda>why. tool @ '' reads '' @ why @ ''.'')
                     (first_some (\<lambda>key. Option.bind (input_text item key)
                        (\<lambda>p. reads_app_data canon (glob_base p) env)) keys)
                   else None);
          root = or_else (map_option (\<lambda>p. lexical_path p env) (input_text item ''path''))
                   (map_option components (de_cwd env));
          greps = (if tool \<in> set READ_TOOLS \<and> tool = ''Grep''
                   then map_option (\<lambda>why. tool @ '' searches '' @ why @ ''.'')
                     (Option.bind root (\<lambda>r. searches_app_data canon r env))
                   else None)
      in or_else write (or_else shell (or_else reads greps)))"

section \<open>The scanning loops\<close>

lemma word_loop_iff:
  assumes "needle \<noteq> []"
  shows "frm \<le> length hay \<Longrightarrow> word_loop hay needle frm \<longleftrightarrow>
    (\<exists>i \<ge> frm. occurs_at hay needle i \<and> word_before_ok hay i \<and> word_after_ok hay (i + length needle))"
  using assms
proof (induction hay needle frm rule: word_loop.induct)
  case (1 hay needle frm)
  have le: "\<not> frm > length hay" using 1(2) by simp
  show ?case
  proof (cases "find_str (drop frm hay) needle")
    case None
    then have "\<not> occurs_at hay needle i" if "i \<ge> frm" for i
      using that 1(2) occurs_at_drop [of frm hay needle "i - frm"] by (simp add: find_str_None_occurs)
    then show ?thesis using le None by (subst word_loop.simps) auto
  next
    case (Some pos)
    let ?s = "frm + pos"
    from find_str_first [OF Some] have occ: "occurs_at hay needle ?s"
      and none: "\<forall>j<pos. \<not> occurs_at hay needle (frm + j)"
      using 1(2) by (auto simp: occurs_at_drop)
    have none': "\<not> occurs_at hay needle i" if "frm \<le> i" "i < ?s" for i
      using none that by (metis add_diff_inverse_nat less_diff_conv2 nat_add_left_cancel_less not_le)
    have s1: "?s + 1 \<le> length hay" using occ 1(3) by (cases needle) (auto simp: occurs_at_def)
    have IH: "\<not> (word_before_ok hay ?s \<and> word_after_ok hay (?s + length needle)) \<Longrightarrow>
        word_loop hay needle (?s + 1) \<longleftrightarrow>
        (\<exists>i \<ge> ?s + 1. occurs_at hay needle i \<and> word_before_ok hay i \<and> word_after_ok hay (i + length needle))"
      using 1(1) [OF le Some refl refl] s1 1(3) by blast
    have "word_loop hay needle frm \<longleftrightarrow>
        (word_before_ok hay ?s \<and> word_after_ok hay (?s + length needle)) \<or> word_loop hay needle (?s + 1)"
      using le Some by (subst word_loop.simps) (auto simp: Let_def)
    moreover have "i = ?s \<or> ?s + 1 \<le> i" if "frm \<le> i" "occurs_at hay needle i" for i
      using that none' [of i] by fastforce
    moreover have "frm \<le> i" if "?s + 1 \<le> i" for i using that by simp
    ultimately show ?thesis using IH occ by (metis le_add1)
  qed
qed

lemma contains_word_iff:
  assumes "needle \<noteq> []"
  shows "contains_word hay needle \<longleftrightarrow>
    (\<exists>a b. hay = a @ needle @ b
      \<and> (a = [] \<or> byte (last a) \<in> {47, 126, 32, 9, 34, 39, 62, 61})
      \<and> (b = [] \<or> \<not> ((97 \<le> byte (hd b) \<and> byte (hd b) \<le> 122) \<or> is_ascii_digit (hd b) \<or> hd b \<in> set ''_-.'')))"
    (is "_ \<longleftrightarrow> (\<exists>a b. hay = a @ needle @ b \<and> ?A a \<and> ?B b)")
proof -
  have A: "word_before_ok (a @ t) (length a) \<longleftrightarrow> ?A a" for a t
    by (cases a rule: rev_exhaust) (auto simp: word_before_ok_def nth_append)
  have B: "word_after_ok (a @ needle @ b) (length a + length needle) \<longleftrightarrow> ?B b" for a b
    by (cases b) (auto simp: word_after_ok_def nth_append)
  have "contains_word hay needle \<longleftrightarrow>
      (\<exists>i. occurs_at hay needle i \<and> word_before_ok hay i \<and> word_after_ok hay (i + length needle))"
    unfolding contains_word_def using word_loop_iff [OF assms, of 0 hay] by simp
  also have "\<dots> \<longleftrightarrow> (\<exists>a b. hay = a @ needle @ b \<and> word_before_ok hay (length a)
      \<and> word_after_ok hay (length a + length needle))"
    by (auto simp: occurs_at_iff)
  also have "\<dots> \<longleftrightarrow> (\<exists>a b. hay = a @ needle @ b \<and> ?A a \<and> ?B b)"
    using A B by metis
  finally show ?thesis .
qed

text \<open>\<open>claude\<close> does not overlap itself, so going on after each occurrence skips none.\<close>

lemma claude_no_overlap:
  assumes "occurs_at hay ''claude'' i" "occurs_at hay ''claude'' j" "i < j"
  shows "i + 6 \<le> j"
proof (rule ccontr)
  assume "\<not> i + 6 \<le> j"
  then obtain d where d: "j = i + d" "0 < d" "d < 6"
    using assms(3) by (metis add_diff_inverse_nat less_imp_not_less nat_add_left_cancel_less not_le zero_less_diff)
  have "hay ! (i + d) = ''claude'' ! d" using occurs_at_nth [OF assms(1), of d] d(3) by simp
  moreover have "hay ! (i + d) = CHR ''c''" using occurs_at_nth [OF assms(2), of 0] d(1) by simp
  moreover have "d = 1 \<or> d = 2 \<or> d = 3 \<or> d = 4 \<or> d = 5" using d by linarith
  ultimately show False by auto
qed

definition admin_at :: "str \<Rightarrow> nat \<Rightarrow> bool" where
  "admin_at lower i \<longleftrightarrow> occurs_at lower ''claude'' i \<and> claude_before_ok lower i
     \<and> (let rest = dropWhile is_blank_byte (drop (i + 6) lower)
        in length rest \<noteq> length lower - (i + 6) \<and> admin_subcommand rest)"

lemma admin_loop_iff:
  "frm \<le> length lower \<Longrightarrow> admin_loop lower frm \<longleftrightarrow> (\<exists>i \<ge> frm. admin_at lower i)"
proof (induction lower frm rule: admin_loop.induct)
  case (1 lower frm)
  show ?case
  proof (cases "find_str (drop frm lower) ''claude''")
    case None
    then have "\<not> occurs_at lower ''claude'' i" if "i \<ge> frm" for i
      using that 1(4) occurs_at_drop [of frm lower "''claude''" "i - frm"] by (simp add: find_str_None_occurs)
    then show ?thesis using None by (subst admin_loop.simps) (auto simp: admin_at_def)
  next
    case (Some pos)
    let ?s = "frm + pos"
    let ?rest = "dropWhile is_blank_byte (drop (?s + 6) lower)"
    have six: "length ''claude'' = 6" by simp
    from find_str_first [OF Some] have occ: "occurs_at lower ''claude'' ?s"
      and none: "\<forall>j<pos. \<not> occurs_at lower ''claude'' (frm + j)"
      using 1(4) by (auto simp: occurs_at_drop)
    have none': "\<not> occurs_at lower ''claude'' i" if "frm \<le> i" "i < ?s" for i
      using none that by (metis add_diff_inverse_nat less_diff_conv2 nat_add_left_cancel_less not_le)
    have s6: "?s + 6 \<le> length lower" using occ by (simp add: occurs_at_def)
    have step: "admin_loop lower frm \<longleftrightarrow> admin_at lower ?s \<or> admin_loop lower (?s + 6)"
      using occ by (subst admin_loop.simps, simp only: Some option.case Let_def six admin_at_def split: if_split, blast)
    have IH: "\<not> admin_at lower ?s \<Longrightarrow> admin_loop lower (?s + 6) \<longleftrightarrow> (\<exists>i \<ge> ?s + 6. admin_at lower i)"
      using 1(1-3) [OF Some refl refl refl] s6 occ unfolding six admin_at_def Let_def by blast
    have jump: "i = ?s \<or> ?s + 6 \<le> i" if "frm \<le> i" "admin_at lower i" for i
      using that none' [of i] claude_no_overlap [OF occ, of i]
      by (cases i ?s rule: linorder_cases) (auto simp: admin_at_def)
    show ?thesis using step IH jump by (metis le_add1 order_trans)
  qed
qed

definition admin_sub :: "str set" where
  "admin_sub = {''plugin'', ''plugins'', ''mcp'', ''config''}"

lemma admin_subcommand_iff:
  "admin_subcommand r \<longleftrightarrow> (\<exists>sub rest. r = sub @ rest \<and> sub \<in> admin_sub
     \<and> (rest = [] \<or> \<not> is_ascii_alnum (hd rest)))"
proof -
  have "(case strip_prefix r sub of Some after \<Rightarrow> after = [] \<or> \<not> is_ascii_alnum (hd after) | None \<Rightarrow> False)
      \<longleftrightarrow> (\<exists>rest. r = sub @ rest \<and> (rest = [] \<or> \<not> is_ascii_alnum (hd rest)))" for sub
    by (auto simp: strip_prefix_def starts_with_iff)
  moreover have "set [''plugin'', ''plugins'', ''mcp'', ''config''] = admin_sub"
    by (simp add: admin_sub_def)
  ultimately show ?thesis unfolding admin_subcommand_def by blast
qed

lemma dropWhile_blank:
  assumes "\<forall>c \<in> set ws. is_blank_byte c" "sub \<in> admin_sub"
  shows "dropWhile is_blank_byte (ws @ sub @ rest) = sub @ rest"
proof -
  have "sub \<noteq> [] \<and> \<not> is_blank_byte (hd sub)"
    using assms(2) by (auto simp: admin_sub_def is_blank_byte_def byte_def)
  then have "dropWhile is_blank_byte (sub @ rest) = sub @ rest" by (cases sub) auto
  then show ?thesis using assms(1) by (simp add: dropWhile_append2)
qed

lemma runs_claude_admin_iff:
  "runs_claude_admin lower \<longleftrightarrow>
    (\<exists>a ws sub rest. lower = a @ ''claude'' @ ws @ sub @ rest
      \<and> (a = [] \<or> \<not> (is_ascii_alnum (last a) \<or> last a \<in> set ''-_.''))
      \<and> ws \<noteq> [] \<and> (\<forall>c \<in> set ws. is_blank_byte c) \<and> sub \<in> admin_sub
      \<and> (rest = [] \<or> \<not> is_ascii_alnum (hd rest)))" (is "_ \<longleftrightarrow> ?R")
proof -
  have A: "claude_before_ok (a @ t) (length a) \<longleftrightarrow> a = [] \<or> \<not> (is_ascii_alnum (last a) \<or> last a \<in> set ''-_.'')" for a t
    by (cases a rule: rev_exhaust) (auto simp: claude_before_ok_def nth_append)
  have "runs_claude_admin lower \<longleftrightarrow> (\<exists>i. admin_at lower i)"
    unfolding runs_claude_admin_def using admin_loop_iff [of 0 lower] by simp
  also have "\<dots> \<longleftrightarrow> ?R"
  proof
    assume "\<exists>i. admin_at lower i"
    then obtain i where i: "admin_at lower i" by blast
    then have "occurs_at lower ''claude'' i" by (simp add: admin_at_def)
    then obtain a t where l: "lower = a @ ''claude'' @ t" and "length a = i"
      unfolding occurs_at_iff by blast
    with i have at: "admin_at lower (length a)" by simp
    let ?ws = "takeWhile is_blank_byte t" and ?r = "dropWhile is_blank_byte t"
    have d: "drop (length a + 6) lower = t" by (simp add: l)
    have "length ?r \<noteq> length t" using at by (simp add: admin_at_def Let_def d l)
    then have ws: "?ws \<noteq> []" by (metis append_Nil takeWhile_dropWhile_id)
    from at obtain sub rest where "?r = sub @ rest" "sub \<in> admin_sub" "rest = [] \<or> \<not> is_ascii_alnum (hd rest)"
      by (auto simp: admin_at_def Let_def d admin_subcommand_iff)
    moreover have "t = ?ws @ ?r" by simp
    ultimately have "lower = a @ ''claude'' @ ?ws @ sub @ rest" using l by metis
    then show ?R
      using ws at \<open>sub \<in> admin_sub\<close> \<open>rest = [] \<or> _\<close> A [of a "''claude'' @ t"] unfolding admin_at_def l
      by (metis set_takeWhileD)
  next
    assume ?R
    then obtain a ws sub rest where l: "lower = a @ ''claude'' @ ws @ sub @ rest"
      and r: "a = [] \<or> \<not> (is_ascii_alnum (last a) \<or> last a \<in> set ''-_.'')" "ws \<noteq> []"
        "\<forall>c \<in> set ws. is_blank_byte c" "sub \<in> admin_sub" "rest = [] \<or> \<not> is_ascii_alnum (hd rest)" by blast
    have d: "dropWhile is_blank_byte (drop (length a + 6) lower) = sub @ rest"
      using dropWhile_blank [OF r(3,4), of rest] by (simp add: l)
    have "admin_at lower (length a)"
      unfolding admin_at_def Let_def d admin_subcommand_iff
      using r A [of a "''claude'' @ ws @ sub @ rest"] by (auto simp: l occurs_at_def)
    then show "\<exists>i. admin_at lower i" by blast
  qed
  finally show ?thesis .
qed
section \<open>Normal forms of paths\<close>

definition path_plain :: "path \<Rightarrow> bool" where
  "path_plain p \<longleftrightarrow> (\<exists>ns. p = map Normal ns \<or> p = RootDir # map Normal ns)"

lemma path_plain_pop: "path_plain p \<Longrightarrow> path_plain (path_pop p)"
  unfolding path_plain_def path_pop_def path_parent_def
  by (auto simp: map_butlast [symmetric] split: if_splits)

lemma path_plain_snoc: "path_plain p \<Longrightarrow> path_plain (p @ [Normal n])"
  unfolding path_plain_def by (metis append_Cons list.simps(8,9) map_append)

lemma fold_comp_plain: "path_plain out \<Longrightarrow> path_plain (fold_comp out c)"
proof (cases c)
  case RootDir
  then show ?thesis by (auto simp: path_join_def is_absolute_def path_plain_def)
next
  case (Normal n)
  assume "path_plain out"
  moreover have "path_join out [Normal n] = out @ [Normal n]"
    by (simp add: path_join_def is_absolute_def)
  ultimately show ?thesis using Normal path_plain_snoc by simp
qed (auto intro: path_plain_pop)

lemma foldl_plain: "path_plain out \<Longrightarrow> path_plain (foldl fold_comp out cs)"
  by (induction cs arbitrary: out) (auto intro: fold_comp_plain)

lemma is_absolute_hd: "is_absolute p \<longleftrightarrow> p \<noteq> [] \<and> hd p = RootDir"
  by (auto simp: is_absolute_def split: list.splits comp.splits)

lemma fold_comp_absolute: "is_absolute out \<Longrightarrow> is_absolute (fold_comp out c)"
proof (cases c)
  case ParentDir
  assume "is_absolute out"
  then show ?thesis using ParentDir
    by (cases out rule: rev_cases) (auto simp: is_absolute_hd path_pop_def path_parent_def hd_append)
qed (auto simp: path_join_def is_absolute_hd hd_append split: comp.splits)

lemma foldl_absolute: "is_absolute out \<Longrightarrow> is_absolute (foldl fold_comp out cs)"
  by (induction cs arbitrary: out) (auto intro: fold_comp_absolute)

lemma foldl_keeps_root: "is_absolute p \<Longrightarrow> is_absolute (foldl fold_comp [] p)"
proof -
  assume "is_absolute p"
  then obtain cs where p: "p = RootDir # cs" by (cases p) (auto simp: is_absolute_hd)
  have "is_absolute (fold_comp [] RootDir)" by (simp add: path_join_def is_absolute_def)
  then show ?thesis unfolding p by (simp add: foldl_absolute del: fold_comp.simps)
qed

lemma path_join_absolute: "is_absolute a \<Longrightarrow> is_absolute (path_join a b)"
  by (auto simp: path_join_def is_absolute_hd)

section \<open>Protected places\<close>

text \<open>The directories whose whole contents are protected, as a property of a path below them.\<close>

definition under_protected_dir :: "(path \<Rightarrow> path option) \<Rightarrow> danger_env \<Rightarrow> path \<Rightarrow> bool" where
  "under_protected_dir canon env p \<longleftrightarrow>
     in_app_dir canon p env
     \<or> Normal ''.claude'' \<in> set p \<or> Normal ''.ssh'' \<in> set p \<or> Normal ''LaunchDaemons'' \<in> set p
     \<or> (\<exists>x y. p = x @ [Normal ''Library'', Normal ''LaunchAgents''] @ y)
     \<or> (\<exists>x y. p = x @ [Normal ''.git'', Normal ''hooks''] @ y)"

lemma under_protected_append:
  "under_protected_dir canon env p \<Longrightarrow> under_protected_dir canon env (p @ r)"
  unfolding under_protected_dir_def in_app_dir_def path_starts_with_iff set_append append_assoc
  by (elim disjE) (blast | metis append_assoc)+

lemma normal_parts_append [simp]: "normal_parts (p @ q) = normal_parts p @ normal_parts q"
  by (induction p rule: normal_parts.induct) auto

lemma normal_parts_mem: "Normal s \<in> set p \<Longrightarrow> s \<in> set (normal_parts p)"
  by (induction p rule: normal_parts.induct) auto

lemma has_pair_append: "has_pair a b (xs @ a # b # ys)"
proof (induction xs)
  case (Cons x xs)
  then show ?case by (cases xs) auto
qed simp

lemma protected_is_sensitive: "under_protected_dir canon env p \<Longrightarrow> sensitive_resolved canon p env \<noteq> None"
  unfolding under_protected_dir_def sensitive_resolved_def Let_def
  by (elim disjE) (auto dest: normal_parts_mem simp: has_pair_append)

lemma sensitive_path_iff:
  "sensitive_path canon raw env \<noteq> None \<longleftrightarrow>
     sensitive_resolved canon (lexical_path raw env) env \<noteq> None
     \<or> sensitive_resolved canon (resolve_existing canon (lexical_path raw env)) env \<noteq> None"
  by (auto simp: sensitive_path_def Let_def or_else_def split: option.splits)

text \<open>A path through a link resolves to the target of its longest existing ancestor, with the
  components that do not exist yet appended.\<close>

lemma foldl_join_normal: "foldl (\<lambda>out part. path_join out [Normal part]) real ns = real @ map Normal ns"
proof (induction ns arbitrary: real)
  case (Cons n ns)
  have "path_join real [Normal n] = real @ [Normal n]" by (simp add: path_join_def is_absolute_def)
  then show ?case using Cons by simp
qed simp

lemma resolve_loop_link:
  assumes "canon a = Some real" "a \<noteq> []"
    and "\<And>k. 0 < k \<Longrightarrow> k \<le> length ns \<Longrightarrow> canon (a @ map Normal (take k ns)) = None"
  shows "resolve_loop canon p (a @ map Normal ns) rest = real @ map Normal ns @ map Normal (rev rest)"
  using assms(3)
proof (induction ns arbitrary: rest rule: rev_induct)
  case Nil
  show ?case using assms(1) by (subst resolve_loop.simps) (simp add: foldl_join_normal)
next
  case (snoc n ns)
  let ?e = "a @ map Normal (ns @ [n])"
  have "canon ?e = None" using snoc.prems [of "length (ns @ [n])"] by simp
  moreover have "path_file_name ?e = Some n" "path_parent ?e = Some (a @ map Normal ns)"
    by (simp_all add: path_file_name_def path_parent_def butlast_append)
  ultimately have "resolve_loop canon p ?e rest = resolve_loop canon p (a @ map Normal ns) (rest @ [n])"
    using assms(2) by (subst resolve_loop.simps) simp
  moreover have "canon (a @ map Normal (take k ns)) = None" if "0 < k" "k \<le> length ns" for k
    using snoc.prems [of k] that by simp
  ultimately show ?case using snoc.IH [of "rest @ [n]"] by simp
qed

lemma resolve_existing_link:
  assumes "canon a = Some real" "a \<noteq> []"
    and "\<And>k. 0 < k \<Longrightarrow> k \<le> length ns \<Longrightarrow> canon (a @ map Normal (take k ns)) = None"
  shows "resolve_existing canon (a @ map Normal ns) = real @ map Normal ns"
  unfolding resolve_existing_def using resolve_loop_link [OF assms, where p = "a @ map Normal ns" and rest = "[]"] by simp

lemma or_else_not_None [simp]: "or_else a b \<noteq> None \<longleftrightarrow> a \<noteq> None \<or> b \<noteq> None"
  by (auto simp: or_else_def split: option.splits)

lemma or_else_None [simp]: "or_else a b = None \<longleftrightarrow> a = None \<and> b = None"
  by (auto simp: or_else_def split: option.splits)

lemma or_else_Some: "or_else (Some x) b = Some x" and or_else_none: "or_else None b = b"
  by (simp_all add: or_else_def)

section \<open>Properties\<close>

text \<open>The path the checks look at is in normal form whatever the spelling: no \<open>.\<close> and no \<open>..\<close> is
  left in it, and it is absolute as soon as the text, or the session's directory, is.\<close>

theorem lexical_path_normal:
  "path_plain (lexical_path raw env)
   \<and> (is_absolute (components (trim raw)) \<and> trim raw \<noteq> ''~'' \<and> \<not> starts_with (trim raw) ''~/''
      \<or> (\<exists>cwd. de_cwd env = Some cwd \<and> is_absolute (components cwd))
      \<longrightarrow> is_absolute (lexical_path raw env))"
proof
  show "path_plain (lexical_path raw env)"
    unfolding lexical_path_def Let_def by (rule foldl_plain) (auto simp: path_plain_def)
  show "is_absolute (components (trim raw)) \<and> trim raw \<noteq> ''~'' \<and> \<not> starts_with (trim raw) ''~/''
      \<or> (\<exists>cwd. de_cwd env = Some cwd \<and> is_absolute (components cwd))
      \<longrightarrow> is_absolute (lexical_path raw env)"
    unfolding lexical_path_def Let_def
    by (auto intro!: foldl_keeps_root path_join_absolute simp del: starts_with_Cons
        simp: expand_home_def strip_prefix_def split: option.splits)
qed

theorem lexical_path_normal_witness:
  "is_absolute (lexical_path ''../x'' \<lparr>de_cwd = Some ''/repo/src'', de_home = None, de_app_dirs = []\<rparr>)"
  using lexical_path_normal [of "''../x''" "\<lparr>de_cwd = Some ''/repo/src'', de_home = None, de_app_dirs = []\<rparr>"]
  by (simp add: components_def is_absolute_def)

text \<open>Writing below a protected directory - the app's own data, \<open>.claude\<close>, \<open>.ssh\<close>, launch agents
  and daemons, git hooks - is classified as dangerous, for every write tool and every input field
  that names its target, also when the path only leads there through a symbolic link.\<close>

theorem write_into_protected:
  assumes "pi_tool_name item = Some tool" "tool \<in> set WRITE_TOOLS"
    and "key \<in> set [''file_path'', ''notebook_path'', ''path'']" "input_text item key = Some raw"
    and "lexical_path raw env = a @ map Normal ns" "a \<noteq> []"
    and "under_protected_dir canon env a
      \<or> (\<exists>real. canon a = Some real \<and> under_protected_dir canon env real
           \<and> (\<forall>k. 0 < k \<and> k \<le> length ns \<longrightarrow> canon (a @ map Normal (take k ns)) = None))"
  shows "classify canon item env \<noteq> None"
proof -
  have "sensitive_path canon raw env \<noteq> None"
    unfolding sensitive_path_iff assms(5) using assms(7)
  proof
    assume "\<exists>real. canon a = Some real \<and> under_protected_dir canon env real
           \<and> (\<forall>k. 0 < k \<and> k \<le> length ns \<longrightarrow> canon (a @ map Normal (take k ns)) = None)"
    then obtain real where r: "canon a = Some real" "under_protected_dir canon env real"
      "\<And>k. 0 < k \<Longrightarrow> k \<le> length ns \<Longrightarrow> canon (a @ map Normal (take k ns)) = None" by blast
    have "resolve_existing canon (a @ map Normal ns) = real @ map Normal ns"
      by (rule resolve_existing_link [OF r(1) assms(6) r(3)])
    then show "sensitive_resolved canon (a @ map Normal ns) env \<noteq> None
      \<or> sensitive_resolved canon (resolve_existing canon (a @ map Normal ns)) env \<noteq> None"
      using protected_is_sensitive [OF under_protected_append [OF r(2)]] by simp
  qed (use protected_is_sensitive under_protected_append in blast)
  then have "first_some (\<lambda>key. Option.bind (input_text item key) (\<lambda>p. sensitive_path canon p env))
      [''file_path'', ''notebook_path'', ''path''] \<noteq> None"
    unfolding first_some_None using assms(3,4) by force
  then show ?thesis
    using assms(1,2) by (simp add: classify_def Let_def del: first_some.simps)
qed

theorem write_into_protected_witness:
  "classify (\<lambda>_. None)
     (pending_item_default\<lparr>pi_tool_name := Some ''Write'',
        pi_input := Some (obj [(''file_path'', JStr ''/w/x/../.claude/settings.json'')])\<rparr>)
     \<lparr>de_cwd = None, de_home = None, de_app_dirs = []\<rparr> \<noteq> None"
proof (rule write_into_protected [where key = "''file_path''" and raw = "''/w/x/../.claude/settings.json''"
      and a = "[RootDir, Normal ''w'', Normal ''.claude'']" and ns = "[''settings.json'']"])
  show "lexical_path ''/w/x/../.claude/settings.json'' \<lparr>de_cwd = None, de_home = None, de_app_dirs = []\<rparr>
      = [RootDir, Normal ''w'', Normal ''.claude''] @ map Normal [''settings.json'']"
    by code_simp
qed (auto simp: WRITE_TOOLS_def input_text_def json_simps under_protected_dir_def)



text \<open>The app's own data cannot be read or swept unnoticed: a read tool aimed at a path inside it
  (one without glob characters) and a content search rooted at or above it - by its \<open>path\<close>, or by
  the session's directory when it names none - are classified as dangerous.\<close>

theorem own_data_reads:
  assumes "pi_tool_name item = Some tool" "d \<in> set (de_app_dirs env)"
    and "(tool \<in> set READ_TOOLS \<and> input_text item ''path'' = Some raw \<and> trim raw \<noteq> []
            \<and> (\<forall>c \<in> set raw. \<not> is_glob_byte c) \<and> path_starts_with (lexical_path raw env) (components d))
       \<or> (tool = ''Grep'' \<and> input_text item ''path'' = Some raw
            \<and> path_starts_with (components d) (lexical_path raw env))
       \<or> (tool = ''Grep'' \<and> input_text item ''path'' = None \<and> de_cwd env = Some raw
            \<and> path_starts_with (components d) (components raw))"
  shows "classify canon item env \<noteq> None"
proof -
  have form: "components d \<in> set (app_dir_forms canon env)"
    using assms(2) by (auto simp: app_dir_forms_def)
  have nb: "glob_base raw = raw" if "\<forall>c \<in> set raw. \<not> is_glob_byte c"
  proof -
    have "find_byte is_glob_byte raw = None" using that by (induction raw) auto
    then show ?thesis by (simp add: glob_base_def)
  qed
  have sweep: "searches_app_data canon r env \<noteq> None" if "path_starts_with (components d) r" for r
    using that form by (auto simp: searches_app_data_def Let_def)
  from assms(3) show ?thesis
  proof (elim disjE conjE)
    assume a: "tool \<in> set READ_TOOLS" "input_text item ''path'' = Some raw" "trim raw \<noteq> []"
      "\<forall>c \<in> set raw. \<not> is_glob_byte c" "path_starts_with (lexical_path raw env) (components d)"
    have "reads_app_data canon (glob_base raw) env \<noteq> None"
      using a form by (auto simp: nb reads_app_data_def Let_def)
    then have "first_some (\<lambda>key. Option.bind (input_text item key)
        (\<lambda>p. reads_app_data canon (glob_base p) env))
        (if tool = ''Glob'' then [''pattern'', ''path''] else [''file_path'', ''notebook_path'', ''path'']) \<noteq> None"
      unfolding first_some_None using a(2) by (cases "tool = ''Glob''") auto
    then show ?thesis using assms(1) a(1) by (simp add: classify_def Let_def del: first_some.simps)
  next
    assume a: "tool = ''Grep''" "input_text item ''path'' = Some raw"
      "path_starts_with (components d) (lexical_path raw env)"
    then show ?thesis using assms(1) sweep [OF a(3)]
      by (simp add: classify_def Let_def READ_TOOLS_def or_else_Some del: first_some.simps)
  next
    assume a: "tool = ''Grep''" "input_text item ''path'' = None" "de_cwd env = Some raw"
      "path_starts_with (components d) (components raw)"
    then show ?thesis using assms(1) sweep [OF a(4)]
      by (simp add: classify_def Let_def READ_TOOLS_def or_else_none del: first_some.simps)
  qed
qed

theorem own_data_reads_witness:
  "classify (\<lambda>_. None) (pending_item_default\<lparr>pi_tool_name := Some ''Grep''\<rparr>)
     \<lparr>de_cwd = Some ''/h'', de_home = None, de_app_dirs = [''/h/data'']\<rparr> \<noteq> None"
  by (rule own_data_reads [where d = "''/h/data''" and raw = "''/h''" and tool = "''Grep''"])
    (auto simp: input_text_def pending_item_default_def components_def comp_of_part_def path_starts_with_def)

text \<open>The glob cut is made for every read tool, not only for \<open>Glob\<close>: a \<open>Read\<close> whose path spells a
  glob character before a \<open>..\<close> that removes it names a file inside the app's own data, and is not
  classified.\<close>

theorem read_behind_glob_character:
  "\<exists>raw env. (\<exists>d \<in> set (de_app_dirs env). path_starts_with (lexical_path raw env) (components d))
     \<and> classify (\<lambda>_. None) (pending_item_default\<lparr>pi_tool_name := Some ''Read'',
          pi_input := Some (obj [(''file_path'', JStr raw)])\<rparr>) env = None"
proof (intro exI conjI)
  let ?env = "\<lparr>de_cwd = None, de_home = None, de_app_dirs = [''/h/data'']\<rparr>"
  have "path_starts_with (lexical_path ''/h/{x}/../data/token'' ?env) (components ''/h/data'')"
    by code_simp
  then show "\<exists>d \<in> set (de_app_dirs ?env). path_starts_with (lexical_path ''/h/{x}/../data/token'' ?env) (components d)"
    by simp
  show "classify (\<lambda>_. None) (pending_item_default\<lparr>pi_tool_name := Some ''Read'',
          pi_input := Some (obj [(''file_path'', JStr ''/h/{x}/../data/token'')])\<rparr>) ?env = None"
    by code_simp
qed
end
