(* ===== verification/HookMachine.thy ===== *)
theory HookMachine
  imports Relay PendingModel
begin

text \<open>
  \<open>server/hooks/machine.rs\<close>: the state machine behind the hooks of sessions other programs started.
  Times are epoch milliseconds; the fresh message id is an argument.

  A \<open>oneshot\<close> sender of a parked waiter is the waiter's id; \<open>alive\<close> says whether the receiver of a
  waiter still exists, that is whether \<open>send\<close> succeeds, and \<open>sh_sent\<close> records, beside the state the
  code keeps, what was sent successfully. A held prompt's interrupt sender is a flag: it is there
  until it was taken.
\<close>

section \<open>Constants and types\<close>

definition PRE_TOOL_CAP :: nat where "PRE_TOOL_CAP = 256"
definition PRE_TOOL_TTL_MS :: int where "PRE_TOOL_TTL_MS = 10 * 60 * 1000"
definition FALLBACK_WINDOW_MS :: int where "FALLBACK_WINDOW_MS = 5000"
definition WAKE_GRACE_MS :: int where "WAKE_GRACE_MS = 5000"
definition FINISHED_TTL_MS :: int where "FINISHED_TTL_MS = 10000"
definition FINISHED_CALLS_CAP :: nat where "FINISHED_CALLS_CAP = 64"
definition LEAVE_CONFIRM_MS :: int where "LEAVE_CONFIRM_MS = 300"
definition IDLE_CONFIRM_MS :: int where "IDLE_CONFIRM_MS = 1000"
definition HISTORY_CAP :: nat where "HISTORY_CAP = 64"
definition QUEUE_CAP :: nat where "QUEUE_CAP = 20"
definition RELAY_TTL_MS :: int where "RELAY_TTL_MS = 30 * 60 * 1000"
definition BYPASS :: str where "BYPASS = ''bypassPermissions''"

datatype wait_signal = Release str | Superseded | Gone

record pre_tool =
  pt_tool_use_id :: str
  pt_agent_id :: "str option"
  pt_tool_name :: str
  pt_input_key :: nat
  pt_at_ms :: int
  pt_matched :: bool

record finished_call =
  fc_tool_use_id :: str
  fc_agent_id :: "str option"
  fc_tool_name :: "str option"
  fc_input_key :: "nat option"
  fc_at_ms :: int

record in_flight =
  if_tool_name :: str
  if_agent_id :: "str option"
  if_since_ms :: int

record subagent =
  sa_agent_type :: str
  sa_started_ms :: int
  sa_running :: bool

record queued =
  qd_msg :: queued_message
  qd_may_dangerous :: bool

datatype drop_reason = DropExpired | DropSessionEnded | DropBypass

datatype enqueue_error = QueueFull | SessionEnded

record session_hooks =
  sh_pid :: "nat option"
  sh_seen :: bool
  sh_ended :: bool
  sh_last_event_ms :: int
  sh_permission_mode :: "str option"
  sh_turn_active :: bool
  sh_turn_started_ms :: int
  sh_last_prompt_id :: "str option"
  sh_interrupt :: bool
  sh_marker :: str
  sh_marker_announced :: bool
  sh_pre_tools :: "pre_tool list"
  sh_finished :: "finished_call list"
  sh_in_flight :: "(str, in_flight) hmap"
  sh_queue :: "queued list"
  sh_history :: "(str \<times> queue_status) list"
  sh_waiter :: "nat option"
  sh_last_waiter_end_ms :: int
  sh_subagents :: "(str, subagent) hmap"
  sh_pid_status :: "str option"
  sh_left_waiting_at :: "int option"
  sh_confirmed_relays :: nat
  sh_dropped :: "(queued_message \<times> drop_reason) list"
  sh_sent :: "(nat \<times> wait_signal) list"

definition session_new :: "str \<Rightarrow> session_hooks" where
  "session_new marker = \<lparr>sh_pid = None, sh_seen = False, sh_ended = False, sh_last_event_ms = 0,
     sh_permission_mode = None, sh_turn_active = False, sh_turn_started_ms = 0,
     sh_last_prompt_id = None, sh_interrupt = False, sh_marker = marker,
     sh_marker_announced = False, sh_pre_tools = [], sh_finished = [], sh_in_flight = [],
     sh_queue = [], sh_history = [], sh_waiter = None, sh_last_waiter_end_ms = 0, sh_subagents = [],
     sh_pid_status = None, sh_left_waiting_at = None, sh_confirmed_relays = 0, sh_dropped = [],
     sh_sent = []\<rparr>"

record held =
  h_session :: str
  h_agent_id :: "str option"
  h_tool_use_id :: "str option"
  h_tool_name :: str
  h_input_key :: nat
  h_created_ms :: int
  h_interrupt :: bool

section \<open>One session\<close>

text \<open>\<open>waiter.take()\<close> and \<open>tx.send(..)\<close>.\<close>

definition tell_waiter :: "(nat \<Rightarrow> bool) \<Rightarrow> wait_signal \<Rightarrow> session_hooks \<Rightarrow> session_hooks" where
  "tell_waiter alive sig s =
     (case sh_waiter s of
        Some w \<Rightarrow> s\<lparr>sh_waiter := None,
                     sh_sent := (if alive w then sh_sent s @ [(w, sig)] else sh_sent s)\<rparr>
      | None \<Rightarrow> s)"

definition reset_process :: "(nat \<Rightarrow> bool) \<Rightarrow> session_hooks \<Rightarrow> session_hooks" where
  "reset_process alive s =
     (tell_waiter alive Gone s)\<lparr>sh_turn_active := False, sh_interrupt := False,
        sh_marker_announced := False, sh_last_prompt_id := None, sh_pre_tools := [],
        sh_finished := [], sh_in_flight := [], sh_subagents := [], sh_pid_status := None,
        sh_left_waiting_at := None, sh_ended := False\<rparr>"

definition start_turn :: "int \<Rightarrow> session_hooks \<Rightarrow> session_hooks" where
  "start_turn now s =
     (if \<not> sh_turn_active s then s\<lparr>sh_turn_active := True, sh_turn_started_ms := now\<rparr> else s)"

definition prune_pre :: "int \<Rightarrow> session_hooks \<Rightarrow> session_hooks" where
  "prune_pre now s = s\<lparr>
     sh_pre_tools := pop_while (\<lambda>q. now - pt_at_ms (hd q) > PRE_TOOL_TTL_MS \<or> length q > PRE_TOOL_CAP)
       (sh_pre_tools s),
     sh_finished := pop_while (\<lambda>q. now - fc_at_ms (hd q) > FINISHED_TTL_MS \<or> length q > FINISHED_CALLS_CAP)
       (sh_finished s)\<rparr>"

definition finished_after :: "session_hooks \<Rightarrow> held \<Rightarrow> bool" where
  "finished_after s h \<longleftrightarrow>
     (\<exists>f \<in> set (sh_finished s).
        h_tool_use_id h = Some (fc_tool_use_id f)
        \<or> (fc_agent_id f = h_agent_id h \<and> fc_tool_name f = Some (h_tool_name h)
           \<and> fc_input_key f = Some (h_input_key h) \<and> fc_at_ms f \<ge> h_created_ms h))"

definition remember :: "str \<Rightarrow> queue_status \<Rightarrow> session_hooks \<Rightarrow> session_hooks" where
  "remember i st s =
     s\<lparr>sh_history := pop_while (\<lambda>q. length q > HISTORY_CAP) (sh_history s @ [(i, st)])\<rparr>"

fun drop_status :: "drop_reason \<Rightarrow> queue_status" where
  "drop_status DropBypass = QCancelled"
| "drop_status DropExpired = QFailed"
| "drop_status DropSessionEnded = QFailed"

definition closed_msg :: "queue_status \<Rightarrow> queued_message \<Rightarrow> queued_message" where
  "closed_msg st m = m\<lparr>qm_status := st, qm_cancellable := False\<rparr>"

definition drop_one :: "drop_reason \<Rightarrow> queued \<Rightarrow> session_hooks \<Rightarrow> session_hooks" where
  "drop_one reason q s =
     (let m = closed_msg (drop_status reason) (qd_msg q);
          s = remember (qm_id m) (qm_status m) s
      in s\<lparr>sh_dropped := sh_dropped s @ [(m, reason)]\<rparr>)"

definition drop_queued :: "drop_reason \<Rightarrow> (queued \<Rightarrow> bool) \<Rightarrow> session_hooks \<Rightarrow> session_hooks" where
  "drop_queued reason which s =
     fold (drop_one reason) (filter which (sh_queue s))
       (s\<lparr>sh_queue := filter (\<lambda>q. \<not> which q) (sh_queue s)\<rparr>)"

definition prune_queue :: "int \<Rightarrow> session_hooks \<Rightarrow> session_hooks" where
  "prune_queue now s =
     (let s = drop_queued DropExpired (\<lambda>q. now - qm_created_at (qd_msg q) > RELAY_TTL_MS) s
      in if sh_permission_mode s = Some BYPASS
         then drop_queued DropBypass (\<lambda>q. \<not> qd_may_dangerous q) s else s)"

definition deliver :: "queued \<Rightarrow> queued" where
  "deliver q = q\<lparr>qd_msg := closed_msg QDelivered (qd_msg q)\<rparr>"

definition claim_raw :: "int \<Rightarrow> session_hooks \<Rightarrow> session_hooks \<times> (str \<times> queued list) option" where
  "claim_raw now s =
     (let s = prune_queue now s
      in if sh_queue s = [] then (s, None)
         else let msgs = map qd_msg (sh_queue s);
                  n = fitting (sh_marker s) msgs (\<not> sh_marker_announced s);
                  taken = map deliver (take n (sh_queue s));
                  s = s\<lparr>sh_queue := drop n (sh_queue s)\<rparr>;
                  s = fold (\<lambda>q. remember (qm_id (qd_msg q)) QDelivered) taken s;
                  txt = relay_build (sh_marker s) (map qd_msg taken) (\<not> sh_marker_announced s)
              in (s\<lparr>sh_marker_announced := True\<rparr>, Some (txt, taken)))"

definition claim :: "int \<Rightarrow> session_hooks \<Rightarrow> session_hooks \<times> (str \<times> queued_message list) option" where
  "claim now s =
     (let (s, r) = claim_raw now s in (s, map_option (\<lambda>(txt, taken). (txt, map qd_msg taken)) r))"

definition requeue :: "queued \<Rightarrow> queued" where
  "requeue q = q\<lparr>qd_msg := (qd_msg q)\<lparr>qm_status := QQueued, qm_cancellable := True\<rparr>\<rparr>"

definition unclaim :: "queued list \<Rightarrow> bool \<Rightarrow> session_hooks \<Rightarrow> session_hooks" where
  "unclaim taken announced_before s =
     (let ids = map (\<lambda>q. qm_id (qd_msg q)) taken
      in s\<lparr>sh_history := filter (\<lambda>(i, _). i \<notin> set ids) (sh_history s),
           sh_queue := map requeue taken @ sh_queue s,
           sh_marker_announced := announced_before\<rparr>)"

definition try_release :: "(nat \<Rightarrow> bool) \<Rightarrow> int \<Rightarrow> session_hooks \<Rightarrow> session_hooks \<times> queued_message list" where
  "try_release alive now s =
     (if sh_turn_active s \<or> sh_queue s = [] \<or> sh_waiter s = None then (s, [])
      else let announced_before = sh_marker_announced s
           in case claim_raw now s of
                (s, None) \<Rightarrow> (s, [])
              | (s, Some (txt, taken)) \<Rightarrow>
                  (case sh_waiter s of
                     None \<Rightarrow> (unclaim taken announced_before s, [])
                   | Some w \<Rightarrow>
                       let s' = tell_waiter alive (Release txt) s
                       in if alive w
                          then (s'\<lparr>sh_last_waiter_end_ms := now, sh_turn_active := True,
                                   sh_turn_started_ms := now\<rparr>, map qd_msg taken)
                          else (unclaim taken announced_before s', [])))"

definition sh_queued :: "session_hooks \<Rightarrow> queued_message list" where
  "sh_queued s = map qd_msg (sh_queue s)"

definition sh_wake :: "session_hooks \<Rightarrow> int \<Rightarrow> bool" where
  "sh_wake s now \<longleftrightarrow> sh_waiter s \<noteq> None
     \<or> (sh_last_waiter_end_ms s > 0 \<and> now - sh_last_waiter_end_ms s < WAKE_GRACE_MS)"

definition has_waiter :: "session_hooks \<Rightarrow> bool" where
  "has_waiter s \<longleftrightarrow> sh_waiter s \<noteq> None"

section \<open>Events\<close>

record hook_event =
  ev_name :: str
  ev_session :: str
  ev_agent_id :: "str option"
  ev_agent_type :: "str option"
  ev_tool_use_id :: "str option"
  ev_tool_name :: "str option"
  ev_input_key :: "nat option"
  ev_prompt_id :: "str option"
  ev_prompt :: "str option"
  ev_permission_mode :: "str option"
  ev_source :: "str option"
  ev_pid :: "nat option"

record outcome =
  oc_response :: json
  oc_withdraw :: "(str \<times> str) list"
  oc_delivered :: "queued_message list"
  oc_turn_finished_ms :: "nat option"
  oc_turn_failed :: bool
  oc_caps_changed :: bool

definition outcome_default :: outcome where
  "outcome_default = \<lparr>oc_response = relay_empty, oc_withdraw = [], oc_delivered = [],
     oc_turn_finished_ms = None, oc_turn_failed = False, oc_caps_changed = False\<rparr>"

datatype arm = Immediate str "queued_message list" | Parked nat

datatype cancel_error = CancelNotFound | AlreadyDelivered

record hub =
  hb_sessions :: "(str, session_hooks) hmap"
  hb_held :: "(str, held) hmap"
  hb_next_waiter :: nat
  hb_secret :: str

definition hub_with_secret :: "str \<Rightarrow> hub" where
  "hub_with_secret secret = \<lparr>hb_sessions = [], hb_held = [], hb_next_waiter = 0, hb_secret = secret\<rparr>"

definition session_or_new :: "(str \<Rightarrow> str) \<Rightarrow> hub \<Rightarrow> str \<Rightarrow> session_hooks" where
  "session_or_new sha hub i =
     (case hm_get (hb_sessions hub) i of
        Some s \<Rightarrow> s | None \<Rightarrow> session_new (marker_for sha (hb_secret hub) i))"

definition put_session :: "str \<Rightarrow> session_hooks \<Rightarrow> hub \<Rightarrow> hub" where
  "put_session i s hub = hub\<lparr>hb_sessions := hm_put i s (hb_sessions hub)\<rparr>"

definition held_where :: "(str, held) hmap \<Rightarrow> str \<Rightarrow> (held \<Rightarrow> bool) \<Rightarrow> str list" where
  "held_where hs session f =
     map age_id (sort (map (\<lambda>(i, h). AgeKey (h_created_ms h) i)
       (filter (\<lambda>(_, h). h_session h = session \<and> f h) hs)))"

definition withdrawn :: "str \<Rightarrow> str list \<Rightarrow> (str \<times> str) list" where
  "withdrawn reason ids = map (\<lambda>i. (i, reason)) ids"

text \<open>The handlers of \<open>on_event\<close>, one per arm of its \<open>match\<close>.\<close>

definition on_pre_tool_use :: "hook_event \<Rightarrow> int \<Rightarrow> session_hooks \<Rightarrow> session_hooks \<times> outcome" where
  "on_pre_tool_use ev now s =
     (let s = (case (ev_tool_use_id ev, ev_tool_name ev) of
            (Some i, Some name) \<Rightarrow>
              let s = prune_pre now s
              in s\<lparr>sh_pre_tools := sh_pre_tools s @
                     [\<lparr>pt_tool_use_id = i, pt_agent_id = ev_agent_id ev, pt_tool_name = name,
                       pt_input_key = (case ev_input_key ev of Some k \<Rightarrow> k | None \<Rightarrow> 0),
                       pt_at_ms = now, pt_matched = False\<rparr>],
                   sh_in_flight := hm_put i \<lparr>if_tool_name = name, if_agent_id = ev_agent_id ev,
                       if_since_ms = now\<rparr> (sh_in_flight s)\<rparr>
          | _ \<Rightarrow> s)
      in if ev_agent_id ev = None
         then let s = start_turn now s
              in (s, outcome_default\<lparr>oc_response :=
                    (if sh_interrupt s then interrupt_output else relay_empty)\<rparr>)
         else (s, outcome_default))"

definition post_reason :: "str \<Rightarrow> str" where
  "post_reason name =
     (if name = ''PostToolUse'' then ''the tool ran (answered elsewhere)''
      else if name = ''PostToolUseFailure'' then ''the tool failed (answered elsewhere)''
      else ''denied elsewhere'')"

definition post_withdraw :: "(str, held) hmap \<Rightarrow> hook_event \<Rightarrow> str \<Rightarrow> str list" where
  "post_withdraw hs ev i =
     (let ids = held_where hs (ev_session ev) (\<lambda>h. h_tool_use_id h = Some i)
      in if ids = []
         then (case (ev_tool_name ev, ev_input_key ev) of
                 (Some name, Some key) \<Rightarrow>
                   take 1 (held_where hs (ev_session ev) (\<lambda>h. h_tool_use_id h = None
                     \<and> h_agent_id h = ev_agent_id ev \<and> h_tool_name h = name \<and> h_input_key h = key))
               | _ \<Rightarrow> ids)
         else ids)"

definition on_post_tool :: "(str, held) hmap \<Rightarrow> hook_event \<Rightarrow> int \<Rightarrow> session_hooks
    \<Rightarrow> session_hooks \<times> outcome" where
  "on_post_tool hs ev now s =
     (let (s, out) = (case ev_tool_use_id ev of
            Some i \<Rightarrow>
              let s = s\<lparr>sh_in_flight := hm_del i (sh_in_flight s),
                        sh_pre_tools := filter (\<lambda>p. pt_tool_use_id p \<noteq> i) (sh_pre_tools s)\<rparr>;
                  s = prune_pre now s;
                  s = s\<lparr>sh_finished := sh_finished s @
                         [\<lparr>fc_tool_use_id = i, fc_agent_id = ev_agent_id ev, fc_tool_name = ev_tool_name ev,
                           fc_input_key = ev_input_key ev, fc_at_ms = now\<rparr>]\<rparr>
              in (s, outcome_default\<lparr>oc_withdraw :=
                     withdrawn (post_reason (ev_name ev)) (post_withdraw hs ev i)\<rparr>)
          | None \<Rightarrow> (s, outcome_default))
      in if ev_agent_id ev = None \<and> ev_name ev = ''PostToolUse''
         then let s = start_turn now s
              in if sh_interrupt s then (s, out\<lparr>oc_response := interrupt_output\<rparr>)
                 else (case claim now s of
                         (s, Some (txt, msgs)) \<Rightarrow>
                           (s, out\<lparr>oc_response := additional_context ''PostToolUse'' txt,
                                   oc_delivered := msgs\<rparr>)
                       | (s, None) \<Rightarrow> (s, out))
         else (s, out))"

definition on_stop :: "(nat \<Rightarrow> bool) \<Rightarrow> (str, held) hmap \<Rightarrow> hook_event \<Rightarrow> int \<Rightarrow> session_hooks
    \<Rightarrow> session_hooks \<times> outcome" where
  "on_stop alive hs ev now s =
     (let s = s\<lparr>sh_interrupt := False\<rparr>;
          out = outcome_default\<lparr>oc_withdraw :=
            withdrawn ''the turn ended'' (held_where hs (ev_session ev) (\<lambda>h. h_agent_id h = None))\<rparr>
      in if ev_name ev = ''Stop''
         then (case claim now s of
                 (s, Some (txt, msgs)) \<Rightarrow>
                   ((start_turn now s)\<lparr>sh_turn_started_ms := now\<rparr>,
                    out\<lparr>oc_response := additional_context ''Stop'' txt, oc_delivered := msgs\<rparr>)
               | (s, None) \<Rightarrow>
                   (s\<lparr>sh_turn_active := False\<rparr>,
                    if sh_turn_active s
                    then out\<lparr>oc_turn_finished_ms := Some (nat (max (now - sh_turn_started_ms s) 0))\<rparr>
                    else out))
         else let (s, msgs) = try_release alive now (s\<lparr>sh_turn_active := False\<rparr>)
              in (s, out\<lparr>oc_turn_failed := True, oc_delivered := msgs\<rparr>))"

definition on_user_prompt :: "(str, held) hmap \<Rightarrow> hook_event \<Rightarrow> int \<Rightarrow> session_hooks
    \<Rightarrow> session_hooks \<times> outcome" where
  "on_user_prompt hs ev now s =
     (let new_prompt = (case ev_prompt_id ev of Some p \<Rightarrow> sh_last_prompt_id s \<noteq> Some p | None \<Rightarrow> True);
          out = (if new_prompt
                 then outcome_default\<lparr>oc_withdraw := withdrawn ''a new prompt started''
                        (held_where hs (ev_session ev) (\<lambda>h. h_agent_id h = None \<and> h_created_ms h \<le> now))\<rparr>
                 else outcome_default);
          s = (if new_prompt
               then s\<lparr>sh_interrupt := False, sh_last_prompt_id := ev_prompt_id ev,
                      sh_turn_active := True, sh_turn_started_ms := now\<rparr>
               else s);
          confirmed = (case ev_prompt ev of Some p \<Rightarrow> contains_marker p (sh_marker s) | None \<Rightarrow> False)
      in (if confirmed then s\<lparr>sh_confirmed_relays := sh_confirmed_relays s + 1\<rparr> else s, out))"

definition on_session_start :: "hook_event \<Rightarrow> session_hooks \<Rightarrow> session_hooks \<times> outcome" where
  "on_session_start ev s =
     (let out = outcome_default\<lparr>oc_response := additional_context ''SessionStart'' (notice (sh_marker s))\<rparr>;
          s = s\<lparr>sh_marker_announced := True\<rparr>
      in (if ev_source ev \<noteq> Some ''compact''
          then s\<lparr>sh_turn_active := False, sh_interrupt := False\<rparr> else s, out))"

definition on_session_end :: "(nat \<Rightarrow> bool) \<Rightarrow> (str, held) hmap \<Rightarrow> hook_event \<Rightarrow> session_hooks
    \<Rightarrow> session_hooks \<times> outcome" where
  "on_session_end alive hs ev s =
     (let s = s\<lparr>sh_ended := True, sh_turn_active := False, sh_interrupt := False, sh_in_flight := []\<rparr>;
          s = drop_queued DropSessionEnded (\<lambda>_. True) s;
          s = tell_waiter alive Gone s
      in (s, outcome_default\<lparr>oc_withdraw :=
            withdrawn ''the session ended'' (held_where hs (ev_session ev) (\<lambda>_. True))\<rparr>))"

definition on_subagent_start :: "hook_event \<Rightarrow> int \<Rightarrow> session_hooks \<Rightarrow> session_hooks \<times> outcome" where
  "on_subagent_start ev now s =
     (case ev_agent_id ev of
        Some a \<Rightarrow> (s\<lparr>sh_subagents := hm_put a \<lparr>sa_agent_type =
            (case ev_agent_type ev of Some t \<Rightarrow> t | None \<Rightarrow> []), sa_started_ms = now, sa_running = True\<rparr>
            (sh_subagents s)\<rparr>, outcome_default)
      | None \<Rightarrow> (s, outcome_default))"

definition on_subagent_stop :: "(str, held) hmap \<Rightarrow> hook_event \<Rightarrow> session_hooks
    \<Rightarrow> session_hooks \<times> outcome" where
  "on_subagent_stop hs ev s =
     (case ev_agent_id ev of
        Some a \<Rightarrow>
          (case hm_get (sh_subagents s) a of
             Some sub \<Rightarrow> s\<lparr>sh_subagents := hm_put a (sub\<lparr>sa_running := False\<rparr>) (sh_subagents s)\<rparr>
           | None \<Rightarrow> s,
           outcome_default\<lparr>oc_withdraw := withdrawn ''the subagent finished''
             (held_where hs (ev_session ev) (\<lambda>h. h_agent_id h = Some a))\<rparr>)
      | None \<Rightarrow> (s, outcome_default))"

definition handle_event :: "(nat \<Rightarrow> bool) \<Rightarrow> (str, held) hmap \<Rightarrow> hook_event \<Rightarrow> int \<Rightarrow> session_hooks
    \<Rightarrow> session_hooks \<times> outcome" where
  "handle_event alive hs ev now s =
     (let name = ev_name ev; main = (ev_agent_id ev = None)
      in if name = ''PreToolUse'' then on_pre_tool_use ev now s
         else if name \<in> set [''PostToolUse'', ''PostToolUseFailure'', ''PermissionDenied'']
         then on_post_tool hs ev now s
         else if name \<in> set [''Stop'', ''StopFailure''] \<and> main then on_stop alive hs ev now s
         else if name = ''UserPromptSubmit'' \<and> main then on_user_prompt hs ev now s
         else if name = ''SessionStart'' then on_session_start ev s
         else if name = ''SessionEnd'' then on_session_end alive hs ev s
         else if name = ''SubagentStart'' then on_subagent_start ev now s
         else if name = ''SubagentStop'' then on_subagent_stop hs ev s
         else (s, outcome_default))"

section \<open>The hub\<close>

definition watched :: "hub \<Rightarrow> str list" where
  "watched hub = sort (map fst (filter (\<lambda>(i, s). sh_turn_active s \<or> sh_queue s \<noteq> []
     \<or> sh_left_waiting_at s \<noteq> None \<or> (\<exists>(_, h) \<in> set (hb_held hub). h_session h = i)) (hb_sessions hub)))"

definition caps_view :: "hub \<Rightarrow> str \<Rightarrow> int \<Rightarrow> bool \<times> bool \<times> bool" where
  "caps_view hub i now =
     (case hm_get (hb_sessions hub) i of
        Some s \<Rightarrow> (sh_seen s \<and> \<not> sh_ended s, sh_wake s now, sh_pid s \<noteq> None)
      | None \<Rightarrow> (False, False, False))"

definition touch_session :: "(nat \<Rightarrow> bool) \<Rightarrow> nat option \<Rightarrow> int \<Rightarrow> session_hooks \<Rightarrow> session_hooks" where
  "touch_session alive pid now s =
     (let s = (case pid of
                 Some p \<Rightarrow>
                   (let s = (case sh_pid s of
                               Some old \<Rightarrow> if old \<noteq> p then reset_process alive s else s
                             | None \<Rightarrow> s)
                    in s\<lparr>sh_pid := Some p\<rparr>)
               | None \<Rightarrow> s)
      in s\<lparr>sh_seen := True, sh_ended := False, sh_last_event_ms := now\<rparr>)"

definition touch :: "(str \<Rightarrow> str) \<Rightarrow> (nat \<Rightarrow> bool) \<Rightarrow> str \<Rightarrow> nat option \<Rightarrow> int \<Rightarrow> hub \<Rightarrow> hub" where
  "touch sha alive i pid now hub =
     put_session i (touch_session alive pid now (session_or_new sha hub i)) hub"

definition mark_seen :: "(str \<Rightarrow> str) \<Rightarrow> str \<Rightarrow> int \<Rightarrow> hub \<Rightarrow> hub" where
  "mark_seen sha i now hub = touch sha (\<lambda>_. False) i None now hub"

definition note_event_mode :: "hook_event \<Rightarrow> session_hooks \<Rightarrow> session_hooks" where
  "note_event_mode ev s =
     (case ev_permission_mode ev of
        Some m \<Rightarrow> if m \<noteq> [] then s\<lparr>sh_permission_mode := Some m\<rparr> else s | None \<Rightarrow> s)"

definition on_event :: "(str \<Rightarrow> str) \<Rightarrow> (nat \<Rightarrow> bool) \<Rightarrow> hook_event \<Rightarrow> int \<Rightarrow> hub \<Rightarrow> hub \<times> outcome" where
  "on_event sha alive ev now hub =
     (let before = caps_view hub (ev_session ev) now;
          s = touch_session alive (ev_pid ev) now (session_or_new sha hub (ev_session ev));
          s = note_event_mode ev s;
          (s, out) = handle_event alive (hb_held hub) ev now s;
          hub = put_session (ev_session ev) s hub
      in (hub, out\<lparr>oc_caps_changed := (before \<noteq> caps_view hub (ev_session ev) now)\<rparr>))"

text \<open>\<open>iter_mut().find(..)\<close> and setting \<open>matched\<close> on the record found.\<close>

fun mark_first :: "(pre_tool \<Rightarrow> bool) \<Rightarrow> pre_tool list \<Rightarrow> pre_tool list" where
  "mark_first P [] = []"
| "mark_first P (p # ps) = (if P p then p\<lparr>pt_matched := True\<rparr> # ps else p # mark_first P ps)"

definition tool_match :: "str option \<Rightarrow> str \<Rightarrow> pre_tool \<Rightarrow> bool" where
  "tool_match agent tool p \<longleftrightarrow> \<not> pt_matched p \<and> pt_agent_id p = agent \<and> pt_tool_name p = tool"

definition correlate :: "hub \<Rightarrow> str \<Rightarrow> str option \<Rightarrow> str \<Rightarrow> nat \<Rightarrow> int \<Rightarrow> hub \<times> str option" where
  "correlate hub i agent tool key now =
     (case hm_get (hb_sessions hub) i of
        None \<Rightarrow> (hub, None)
      | Some s \<Rightarrow>
          let s = prune_pre now s;
              exact = (\<lambda>p. tool_match agent tool p \<and> pt_input_key p = key);
              loose = (\<lambda>p. tool_match agent tool p \<and> now - pt_at_ms p \<le> FALLBACK_WINDOW_MS);
              P = (if find exact (sh_pre_tools s) \<noteq> None then exact else loose)
          in (put_session i (s\<lparr>sh_pre_tools := mark_first P (sh_pre_tools s)\<rparr>) hub,
              map_option pt_tool_use_id (find P (sh_pre_tools s))))"

definition main_prompt_open :: "hub \<Rightarrow> str \<Rightarrow> int \<Rightarrow> int option \<Rightarrow> bool" where
  "main_prompt_open hub i now recent =
     (if \<exists>(_, h) \<in> set (hb_held hub). h_session h = i \<and> h_agent_id h = None then True
      else case recent of
        None \<Rightarrow> False
      | Some window \<Rightarrow>
          (case hm_get (hb_sessions hub) i of
             Some s \<Rightarrow> \<exists>(_, f) \<in> set (sh_in_flight s). if_agent_id f = None \<and> now - if_since_ms f \<le> window
           | None \<Rightarrow> False))"

definition interrupt_pending :: "hub \<Rightarrow> str \<Rightarrow> bool" where
  "interrupt_pending hub i =
     (case hm_get (hb_sessions hub) i of Some s \<Rightarrow> sh_interrupt s | None \<Rightarrow> False)"

definition already_finished :: "hub \<Rightarrow> str \<Rightarrow> str option \<Rightarrow> str option \<Rightarrow> str \<Rightarrow> nat \<Rightarrow> int \<Rightarrow> bool" where
  "already_finished hub i agent tool_use tool key arrived =
     (case hm_get (hb_sessions hub) i of
        Some s \<Rightarrow> finished_after s \<lparr>h_session = i, h_agent_id = agent, h_tool_use_id = tool_use,
            h_tool_name = tool, h_input_key = key, h_created_ms = arrived, h_interrupt = False\<rparr>
      | None \<Rightarrow> False)"

text \<open>\<open>hold\<close>: \<open>None\<close> is \<open>Err(AlreadyFinished)\<close>; the flag says that the interrupt sender came back.\<close>

definition hold :: "hub \<Rightarrow> str \<Rightarrow> held \<Rightarrow> hub \<times> bool option" where
  "hold hub pid h =
     (if (case hm_get (hb_sessions hub) (h_session h) of Some s \<Rightarrow> finished_after s h | None \<Rightarrow> False)
      then (hub, None)
      else let cond = (h_agent_id h = None \<and> interrupt_pending hub (h_session h));
               fire = (cond \<and> h_interrupt h);
               h = (if cond then h\<lparr>h_interrupt := False\<rparr> else h)
           in (hub\<lparr>hb_held := hm_put pid h (hb_held hub)\<rparr>, Some fire))"

definition unhold :: "hub \<Rightarrow> str \<Rightarrow> hub" where
  "unhold hub pid = hub\<lparr>hb_held := hm_del pid (hb_held hub)\<rparr>"

definition held_count :: "hub \<Rightarrow> str \<Rightarrow> nat" where
  "held_count hub i = length (filter (\<lambda>(_, h). h_session h = i) (hb_held hub))"

definition main_held :: "str \<Rightarrow> held \<Rightarrow> bool" where
  "main_held i h \<longleftrightarrow> h_session h = i \<and> h_agent_id h = None"

text \<open>The second component lists the held prompts whose sender was taken to be fired.\<close>

definition interrupt_session :: "(str \<Rightarrow> str) \<Rightarrow> hub \<Rightarrow> str \<Rightarrow> int \<Rightarrow> hub \<times> str list" where
  "interrupt_session sha hub i now =
     (let s = (session_or_new sha hub i)\<lparr>sh_interrupt := True\<rparr>;
          s = (if sh_last_event_ms s = 0 then s\<lparr>sh_last_event_ms := now\<rparr> else s);
          hub = put_session i s hub
      in (hub\<lparr>hb_held := hm_map (\<lambda>h. if main_held i h then h\<lparr>h_interrupt := False\<rparr> else h) (hb_held hub)\<rparr>,
          map fst (filter (\<lambda>(_, h). main_held i h \<and> h_interrupt h) (hb_held hub))))"

definition enqueue_from :: "(str \<Rightarrow> str) \<Rightarrow> (nat \<Rightarrow> bool) \<Rightarrow> str \<Rightarrow> hub \<Rightarrow> str \<Rightarrow> str \<Rightarrow> int \<Rightarrow> bool
    \<Rightarrow> hub \<times> (enqueue_error + queued_message \<times> queued_message list)" where
  "enqueue_from sha alive fresh hub i txt now may_dangerous =
     (let s = session_or_new sha hub i
      in if sh_ended s then (put_session i s hub, Inl SessionEnded)
         else let s = prune_queue now s;
                  msg = \<lparr>qm_id = fresh, qm_text = txt, qm_created_at = now,
                         qm_via = (if sh_turn_active s then ViaHookBusy else ViaHookIdle),
                         qm_status = QQueued, qm_cancellable = True\<rparr>
              in if length (sh_queue s) \<ge> QUEUE_CAP then (put_session i s hub, Inl QueueFull)
                 else let s = s\<lparr>sh_queue := sh_queue s @ [\<lparr>qd_msg = msg, qd_may_dangerous = may_dangerous\<rparr>]\<rparr>;
                          (s, delivered) = try_release alive now s;
                          msg' = (case find (\<lambda>m. qm_id m = fresh) delivered of Some m \<Rightarrow> m | None \<Rightarrow> msg)
                      in (put_session i s hub, Inr (msg', delivered)))"

definition note_mode :: "hub \<Rightarrow> str \<Rightarrow> str \<Rightarrow> hub" where
  "note_mode hub i mode =
     (case hm_get (hb_sessions hub) i of
        Some s \<Rightarrow> if mode \<noteq> [] then put_session i (s\<lparr>sh_permission_mode := Some mode\<rparr>) hub else hub
      | None \<Rightarrow> hub)"

definition take_dropped :: "hub \<Rightarrow> hub \<times> (str \<times> queued_message \<times> drop_reason) list" where
  "take_dropped hub =
     (hub\<lparr>hb_sessions := hm_map (\<lambda>s. s\<lparr>sh_dropped := []\<rparr>) (hb_sessions hub)\<rparr>,
      concat (map (\<lambda>(i, s). map (\<lambda>(m, r). (i, m, r)) (sh_dropped s)) (hb_sessions hub)))"

definition cancel :: "hub \<Rightarrow> str \<Rightarrow> str \<Rightarrow> hub \<times> (cancel_error + queued_message)" where
  "cancel hub i mid =
     (case hm_get (hb_sessions hub) i of
        None \<Rightarrow> (hub, Inl CancelNotFound)
      | Some s \<Rightarrow>
          (case find (\<lambda>q. qm_id (qd_msg q) = mid) (sh_queue s) of
             Some q \<Rightarrow>
               (put_session i (remember mid QCancelled
                  (s\<lparr>sh_queue := remove_first (\<lambda>q. qm_id (qd_msg q) = mid) (sh_queue s)\<rparr>)) hub,
                Inr (closed_msg QCancelled (qd_msg q)))
           | None \<Rightarrow>
               (hub, Inl (case find (\<lambda>(h, _). h = mid) (sh_history s) of
                            Some (_, QDelivered) \<Rightarrow> AlreadyDelivered | _ \<Rightarrow> CancelNotFound))))"

definition still_queued :: "hub \<Rightarrow> str \<Rightarrow> str \<Rightarrow> bool" where
  "still_queued hub i mid =
     (case hm_get (hb_sessions hub) i of
        Some s \<Rightarrow> \<exists>q \<in> set (sh_queue s). qm_id (qd_msg q) = mid | None \<Rightarrow> False)"

definition arm_waiter :: "(str \<Rightarrow> str) \<Rightarrow> (nat \<Rightarrow> bool) \<Rightarrow> hub \<Rightarrow> str \<Rightarrow> nat option \<Rightarrow> int \<Rightarrow> hub \<times> arm" where
  "arm_waiter sha alive hub i pid now =
     (let w = hb_next_waiter hub + 1;
          hub = hub\<lparr>hb_next_waiter := w\<rparr>;
          s = touch_session alive pid now (session_or_new sha hub i);
          s = tell_waiter alive Superseded s;
          (s, r) = (if \<not> sh_turn_active s then claim now s else (s, None))
      in case r of
           Some (txt, msgs) \<Rightarrow>
             (put_session i (s\<lparr>sh_last_waiter_end_ms := now, sh_turn_active := True,
                sh_turn_started_ms := now\<rparr>) hub, Immediate txt msgs)
         | None \<Rightarrow> (put_session i (s\<lparr>sh_waiter := Some w\<rparr>) hub, Parked w))"

definition disarm :: "hub \<Rightarrow> str \<Rightarrow> nat \<Rightarrow> int \<Rightarrow> hub" where
  "disarm hub i w now =
     (case hm_get (hb_sessions hub) i of
        Some s \<Rightarrow> put_session i (s\<lparr>sh_waiter := (if sh_waiter s = Some w then None else sh_waiter s),
                                    sh_last_waiter_end_ms := now\<rparr>) hub
      | None \<Rightarrow> hub)"

definition release_all_waiters :: "(nat \<Rightarrow> bool) \<Rightarrow> hub \<Rightarrow> hub \<times> nat" where
  "release_all_waiters alive hub =
     (hub\<lparr>hb_sessions := hm_map (tell_waiter alive Gone) (hb_sessions hub)\<rparr>,
      length (filter (\<lambda>(_, s). sh_waiter s \<noteq> None) (hb_sessions hub)))"

text \<open>\<open>observe_pidfile\<close> in its three steps: noting the transition, withdrawing what it answers, and
  the end of a turn that fired no Stop.\<close>

definition pidfile_left :: "str \<Rightarrow> int \<Rightarrow> session_hooks \<Rightarrow> session_hooks" where
  "pidfile_left status updated_at s =
     (let prev = sh_pid_status s;
          s = s\<lparr>sh_pid_status := Some status\<rparr>
      in if status = ''waiting'' then s\<lparr>sh_left_waiting_at := None\<rparr>
         else if prev = Some ''waiting'' \<and> status \<in> set [''busy'', ''idle'']
         then s\<lparr>sh_left_waiting_at := Some updated_at\<rparr> else s)"

definition pidfile_withdraw :: "(str, held) hmap \<Rightarrow> str \<Rightarrow> str \<Rightarrow> int \<Rightarrow> session_hooks
    \<Rightarrow> session_hooks \<times> (str \<times> str) list" where
  "pidfile_withdraw hs i status now s =
     (case sh_left_waiting_at s of
        Some left \<Rightarrow>
          if status \<noteq> ''waiting'' \<and> now - left \<ge> LEAVE_CONFIRM_MS
          then (s\<lparr>sh_left_waiting_at := None\<rparr>,
                withdrawn ''answered at the session'' (held_where hs i (\<lambda>h. h_created_ms h < left)))
          else (s, [])
      | None \<Rightarrow> (s, []))"

definition pidfile_idle :: "(nat \<Rightarrow> bool) \<Rightarrow> str \<Rightarrow> int \<Rightarrow> int \<Rightarrow> session_hooks
    \<Rightarrow> session_hooks \<times> queued_message list" where
  "pidfile_idle alive status updated_at now s =
     (if status = ''idle'' \<and> sh_turn_active s \<and> updated_at > sh_turn_started_ms s
         \<and> now - updated_at \<ge> IDLE_CONFIRM_MS
      then try_release alive now (s\<lparr>sh_turn_active := False, sh_interrupt := False\<rparr>)
      else (s, []))"

definition observe_pidfile :: "(nat \<Rightarrow> bool) \<Rightarrow> hub \<Rightarrow> str \<Rightarrow> str \<Rightarrow> int \<Rightarrow> int \<Rightarrow> hub \<times> outcome" where
  "observe_pidfile alive hub i status updated_at now =
     (case hm_get (hb_sessions hub) i of
        None \<Rightarrow> (hub, outcome_default)
      | Some s \<Rightarrow>
          let before = caps_view hub i now;
              s = pidfile_left status updated_at s;
              (s, wd) = pidfile_withdraw (hb_held hub) i status now s;
              (s, msgs) = pidfile_idle alive status updated_at now s;
              hub = put_session i s hub
          in (hub, outcome_default\<lparr>oc_withdraw := wd, oc_delivered := msgs,
                oc_caps_changed := (before \<noteq> caps_view hub i now)\<rparr>))"

definition HOUR :: int where "HOUR = 60 * 60 * 1000"

definition gc_keep :: "(str, held) hmap \<Rightarrow> int \<Rightarrow> str \<Rightarrow> session_hooks \<Rightarrow> bool" where
  "gc_keep hs now i s \<longleftrightarrow>
     (let idle_for = now - sh_last_event_ms s;
          busy = sh_queue s \<noteq> [] \<or> sh_dropped s \<noteq> [] \<or> sh_waiter s \<noteq> None
            \<or> (\<exists>(_, h) \<in> set hs. h_session h = i)
      in busy \<or> \<not> ((sh_ended s \<and> idle_for > HOUR) \<or> idle_for > 24 * HOUR))"

definition gc :: "hub \<Rightarrow> int \<Rightarrow> hub \<times> nat" where
  "gc hub now =
     (let before = length (hb_sessions hub);
          m = hm_retain (gc_keep (hb_held hub) now) (hm_map (prune_queue now) (hb_sessions hub))
      in (hub\<lparr>hb_sessions := m\<rparr>, before - length m))"

end
