(* ===== verification/HookProofs.thy ===== *)
theory HookProofs
  imports HookMachine "HOL-Library.Multiset"
begin

text \<open>
  What the hook machine guarantees: messages are conserved, hand-overs take the live part of the
  queue in order, waiters are told once, and relays and interrupts stay on the main thread.
\<close>

section \<open>What the queue operations change\<close>

definition expired :: "int \<Rightarrow> queued \<Rightarrow> bool" where
  "expired now q \<longleftrightarrow> now - qm_created_at (qd_msg q) > RELAY_TTL_MS"

definition barred :: "session_hooks \<Rightarrow> queued \<Rightarrow> bool" where
  "barred s q \<longleftrightarrow> sh_permission_mode s = Some BYPASS \<and> \<not> qd_may_dangerous q"

text \<open>The messages a hand-over at \<open>now\<close> may still take, in order.\<close>

definition live_queue :: "int \<Rightarrow> session_hooks \<Rightarrow> queued list" where
  "live_queue now s = filter (\<lambda>q. \<not> expired now q \<and> \<not> barred s q) (sh_queue s)"

definition queue_ids :: "queued list \<Rightarrow> str list" where
  "queue_ids qs = map (\<lambda>q. qm_id (qd_msg q)) qs"

definition dropped_ids :: "(queued_message \<times> drop_reason) list \<Rightarrow> str list" where
  "dropped_ids ds = map (\<lambda>(m, _). qm_id m) ds"

text \<open>The ids a session still answers for.\<close>

definition pending_ids :: "session_hooks \<Rightarrow> str list" where
  "pending_ids s = queue_ids (sh_queue s) @ dropped_ids (sh_dropped s)"

lemma ids_simps [simp]:
  "queue_ids [] = []" "queue_ids (q # qs) = qm_id (qd_msg q) # queue_ids qs"
  "queue_ids (xs @ ys) = queue_ids xs @ queue_ids ys"
  "dropped_ids [] = []" "dropped_ids ((m, r) # ds) = qm_id m # dropped_ids ds"
  "dropped_ids (ds @ es) = dropped_ids ds @ dropped_ids es"
  by (simp_all add: queue_ids_def dropped_ids_def)

lemma closed_msg_simps [simp]:
  "qm_id (closed_msg st m) = qm_id m" "qm_text (closed_msg st m) = qm_text m"
  "qm_status (closed_msg st m) = st" "qm_created_at (closed_msg st m) = qm_created_at m"
  "qm_id (qd_msg (deliver q)) = qm_id (qd_msg q)" "qm_id (qd_msg (requeue q)) = qm_id (qd_msg q)"
  "qd_may_dangerous (deliver q) = qd_may_dangerous q" "qd_msg (deliver q) = closed_msg QDelivered (qd_msg q)"
  by (simp_all add: closed_msg_def deliver_def requeue_def)

lemma queue_ids_map [simp]:
  "queue_ids (map deliver qs) = queue_ids qs" "queue_ids (map requeue qs) = queue_ids qs"
  by (induction qs) auto

definition dropped_as :: "drop_reason \<Rightarrow> queued list \<Rightarrow> (queued_message \<times> drop_reason) list" where
  "dropped_as r qs = map (\<lambda>q. (closed_msg (drop_status r) (qd_msg q), r)) qs"

lemma dropped_as_ids [simp]: "dropped_ids (dropped_as r qs) = queue_ids qs"
  by (simp add: dropped_as_def dropped_ids_def queue_ids_def)

lemma length_remember_history:
  "length (pop_while (\<lambda>q. length q > HISTORY_CAP) h) \<le> HISTORY_CAP"
  by (rule pop_while_len_bound)

lemma fold_drop_one:
  "\<exists>h. fold (drop_one r) qs s = s\<lparr>sh_history := h, sh_dropped := sh_dropped s @ dropped_as r qs\<rparr>
     \<and> (length (sh_history s) \<le> HISTORY_CAP \<longrightarrow> length h \<le> HISTORY_CAP)"
proof (induction qs arbitrary: s)
  case Nil
  show ?case by (intro exI [of _ "sh_history s"]) (simp add: dropped_as_def)
next
  case (Cons q qs)
  have "length (sh_history (drop_one r q s)) \<le> HISTORY_CAP"
    by (simp add: drop_one_def remember_def Let_def length_remember_history)
  with Cons.IH [of "drop_one r q s"] obtain h where "fold (drop_one r) qs (drop_one r q s)
      = (drop_one r q s)\<lparr>sh_history := h, sh_dropped := sh_dropped (drop_one r q s) @ dropped_as r qs\<rparr>"
    and h: "length h \<le> HISTORY_CAP" by blast
  then have "fold (drop_one r) (q # qs) s
      = (drop_one r q s)\<lparr>sh_history := h, sh_dropped := sh_dropped (drop_one r q s) @ dropped_as r qs\<rparr>"
    by simp
  also have "\<dots> = s\<lparr>sh_history := h, sh_dropped := sh_dropped s @ dropped_as r (q # qs)\<rparr>"
    by (simp add: drop_one_def remember_def Let_def dropped_as_def)
  finally show ?case using h by blast
qed

lemma drop_queued_shape:
  "\<exists>h. drop_queued r which s = s\<lparr>sh_queue := filter (\<lambda>q. \<not> which q) (sh_queue s), sh_history := h,
        sh_dropped := sh_dropped s @ dropped_as r (filter which (sh_queue s))\<rparr>
     \<and> (length (sh_history s) \<le> HISTORY_CAP \<longrightarrow> length h \<le> HISTORY_CAP)"
  using fold_drop_one [of r "filter which (sh_queue s)" "s\<lparr>sh_queue := filter (\<lambda>q. \<not> which q) (sh_queue s)\<rparr>"]
  by (auto simp: drop_queued_def)

lemma mset_queue_split:
  "mset (queue_ids (filter P qs)) + mset (queue_ids (filter (\<lambda>q. \<not> P q) qs)) = mset (queue_ids qs)"
  by (induction qs) auto

lemma prune_queue_shape:
  obtains h d where
    "prune_queue now s = s\<lparr>sh_queue := live_queue now s, sh_history := h, sh_dropped := sh_dropped s @ d\<rparr>"
    "mset (dropped_ids d) + mset (queue_ids (live_queue now s)) = mset (queue_ids (sh_queue s))"
    "length (sh_history s) \<le> HISTORY_CAP \<Longrightarrow> length h \<le> HISTORY_CAP"
    "\<forall>(m, r) \<in> set d. qm_status m = drop_status r \<and> \<not> qm_cancellable m"
proof -
  let ?E = "\<lambda>q. now - qm_created_at (qd_msg q) > RELAY_TTL_MS"
  let ?q1 = "filter (\<lambda>q. \<not> ?E q) (sh_queue s)" and ?B = "\<lambda>q. \<not> qd_may_dangerous q"
  obtain h1 where 1: "drop_queued DropExpired ?E s = s\<lparr>sh_queue := ?q1, sh_history := h1,
      sh_dropped := sh_dropped s @ dropped_as DropExpired (filter ?E (sh_queue s))\<rparr>"
    "length (sh_history s) \<le> HISTORY_CAP \<Longrightarrow> length h1 \<le> HISTORY_CAP"
    using drop_queued_shape [of DropExpired ?E s] by blast
  let ?s1 = "drop_queued DropExpired ?E s"
  obtain h2 where 2: "drop_queued DropBypass ?B ?s1 = ?s1\<lparr>sh_queue := filter (\<lambda>q. \<not> ?B q) (sh_queue ?s1),
      sh_history := h2, sh_dropped := sh_dropped ?s1 @ dropped_as DropBypass (filter ?B (sh_queue ?s1))\<rparr>"
    "length (sh_history ?s1) \<le> HISTORY_CAP \<Longrightarrow> length h2 \<le> HISTORY_CAP"
    using drop_queued_shape [of DropBypass ?B ?s1] by blast
  have st: "\<forall>(m, r') \<in> set (dropped_as r qs). qm_status m = drop_status r' \<and> \<not> qm_cancellable m" for r qs
    by (auto simp: dropped_as_def closed_msg_def)
  show thesis
  proof (cases "sh_permission_mode s = Some BYPASS")
    case True
    have l: "live_queue now s = filter (\<lambda>q. \<not> ?B q) ?q1"
      using True by (simp add: live_queue_def expired_def barred_def conj_commute)
    show thesis
    proof (rule that [where h = h2 and d = "dropped_as DropExpired (filter ?E (sh_queue s)) @ dropped_as DropBypass (filter ?B ?q1)"])
      show "prune_queue now s = s\<lparr>sh_queue := live_queue now s, sh_history := h2, sh_dropped := sh_dropped s
          @ dropped_as DropExpired (filter ?E (sh_queue s)) @ dropped_as DropBypass (filter ?B ?q1)\<rparr>"
        using True 2(1) by (simp add: prune_queue_def 1(1) l)
      show "mset (dropped_ids (dropped_as DropExpired (filter ?E (sh_queue s)) @ dropped_as DropBypass (filter ?B ?q1)))
          + mset (queue_ids (live_queue now s)) = mset (queue_ids (sh_queue s))"
        unfolding l using mset_queue_split [of ?E "sh_queue s"] mset_queue_split [of ?B ?q1]
        by (simp add: add.assoc del: filter_filter)
      show "\<forall>(m, r) \<in> set (dropped_as DropExpired (filter ?E (sh_queue s)) @ dropped_as DropBypass (filter ?B ?q1)).
          qm_status m = drop_status r \<and> \<not> qm_cancellable m"
        unfolding set_append ball_Un using st by blast
      show "length h2 \<le> HISTORY_CAP" if "length (sh_history s) \<le> HISTORY_CAP"
        using 2(2) 1(2) [OF that] by (simp add: 1(1))
    qed
  next
    case False
    have l: "live_queue now s = ?q1"
      using False by (simp add: live_queue_def expired_def barred_def)
    show thesis
    proof (rule that [where h = h1 and d = "dropped_as DropExpired (filter ?E (sh_queue s))"])
      show "prune_queue now s = s\<lparr>sh_queue := live_queue now s, sh_history := h1,
          sh_dropped := sh_dropped s @ dropped_as DropExpired (filter ?E (sh_queue s))\<rparr>"
        using False by (simp add: prune_queue_def 1(1) l)
    qed (use 1(2) st mset_queue_split [of ?E "sh_queue s"] in \<open>auto simp: l\<close>)
  qed
qed

lemma fold_remember:
  "\<exists>h. fold (\<lambda>q. remember (qm_id (qd_msg q)) st) qs s = s\<lparr>sh_history := h\<rparr>
     \<and> (length (sh_history s) \<le> HISTORY_CAP \<longrightarrow> length h \<le> HISTORY_CAP)"
proof (induction qs arbitrary: s)
  case Nil
  show ?case by (intro exI [of _ "sh_history s"]) simp
next
  case (Cons q qs)
  show ?case
    using Cons.IH [of "remember (qm_id (qd_msg q)) st s"] length_remember_history
    by (auto simp: remember_def)
qed

text \<open>How much of the live queue a hand-over takes, and its text.\<close>

definition take_count :: "int \<Rightarrow> session_hooks \<Rightarrow> nat" where
  "take_count now s = fitting (sh_marker s) (map qd_msg (live_queue now s)) (\<not> sh_marker_announced s)"

definition hand_text :: "int \<Rightarrow> session_hooks \<Rightarrow> str" where
  "hand_text now s = relay_build (sh_marker s)
     (map qd_msg (map deliver (take (take_count now s) (live_queue now s)))) (\<not> sh_marker_announced s)"

lemma claim_raw_shape:
  obtains h d where
    "claim_raw now s =
      (if live_queue now s = []
       then (s\<lparr>sh_queue := [], sh_history := h, sh_dropped := sh_dropped s @ d\<rparr>, None)
       else (s\<lparr>sh_queue := drop (take_count now s) (live_queue now s), sh_history := h,
              sh_dropped := sh_dropped s @ d, sh_marker_announced := True\<rparr>,
             Some (hand_text now s, map deliver (take (take_count now s) (live_queue now s)))))"
    "mset (dropped_ids d) + mset (queue_ids (live_queue now s)) = mset (queue_ids (sh_queue s))"
    "length (sh_history s) \<le> HISTORY_CAP \<Longrightarrow> length h \<le> HISTORY_CAP"
proof -
  obtain d h where p: "prune_queue now s = s\<lparr>sh_queue := live_queue now s, sh_history := h, sh_dropped := sh_dropped s @ d\<rparr>"
    "mset (dropped_ids d) + mset (queue_ids (live_queue now s)) = mset (queue_ids (sh_queue s))"
    "length (sh_history s) \<le> HISTORY_CAP \<Longrightarrow> length h \<le> HISTORY_CAP"
    "\<forall>(m, r) \<in> set d. qm_status m = drop_status r \<and> \<not> qm_cancellable m"
    by (rule prune_queue_shape [where now = now and s = s]) (rule that)
  let ?taken = "map deliver (take (take_count now s) (live_queue now s))"
  let ?s2 = "s\<lparr>sh_history := h, sh_dropped := sh_dropped s @ d, sh_queue := drop (take_count now s) (live_queue now s)\<rparr>"
  obtain h' where f: "fold (\<lambda>q. remember (qm_id (qd_msg q)) QDelivered) ?taken ?s2 = ?s2\<lparr>sh_history := h'\<rparr>"
    "length (sh_history ?s2) \<le> HISTORY_CAP \<Longrightarrow> length h' \<le> HISTORY_CAP"
    using fold_remember [of QDelivered ?taken ?s2] by blast
  show thesis
  proof (cases "live_queue now s = []")
    case True
    show thesis by (rule that [where h = h and d = d]) (use p True in \<open>simp_all add: claim_raw_def\<close>)
  next
    case False
    show thesis
      by (rule that [where h = h' and d = d]) (use p f False in \<open>simp_all add: claim_raw_def Let_def take_count_def hand_text_def\<close>)
  qed
qed

lemma take_count_bounds: "live_queue now s \<noteq> [] \<Longrightarrow> 0 < take_count now s"
  "take_count now s \<le> length (live_queue now s)"
  unfolding take_count_def using relay_round.count_pos relay_round.count_le
  by (auto, metis length_map relay_round.count_le)

section \<open>Conservation of messages\<close>

lemma queue_ids_take_drop:
  "mset (queue_ids (take n q)) + mset (queue_ids (drop n q)) = mset (queue_ids q)"
  by (metis append_take_drop_id ids_simps(3) mset_append)

definition taken_ids :: "('a \<times> queued list) option \<Rightarrow> str list" where
  "taken_ids r = (case r of Some (_, taken) \<Rightarrow> queue_ids taken | None \<Rightarrow> [])"

definition msg_ids :: "queued_message list \<Rightarrow> str list" where
  "msg_ids msgs = map qm_id msgs"

lemma msg_ids_map [simp]: "msg_ids (map qd_msg qs) = queue_ids qs" "msg_ids [] = []"
  by (simp_all add: msg_ids_def queue_ids_def)

lemma claim_raw_ids: "claim_raw now s = (s', r) \<Longrightarrow>
    mset (pending_ids s') + mset (taken_ids r) = mset (pending_ids s)"
proof -
  assume c: "claim_raw now s = (s', r)"
  obtain h d where "claim_raw now s =
      (if live_queue now s = []
       then (s\<lparr>sh_queue := [], sh_history := h, sh_dropped := sh_dropped s @ d\<rparr>, None)
       else (s\<lparr>sh_queue := drop (take_count now s) (live_queue now s), sh_history := h,
              sh_dropped := sh_dropped s @ d, sh_marker_announced := True\<rparr>,
             Some (hand_text now s, map deliver (take (take_count now s) (live_queue now s)))))"
    and m: "mset (dropped_ids d) + mset (queue_ids (live_queue now s)) = mset (queue_ids (sh_queue s))"
    by (rule claim_raw_shape [where now = now and s = s]) (rule that)
  then show ?thesis
    using c queue_ids_take_drop [of "take_count now s" "live_queue now s"]
    by (auto simp: pending_ids_def taken_ids_def m [symmetric] ac_simps split: if_splits)
qed

text \<open>What a hand-over leaves alone.\<close>

lemma claim_raw_fields:
  assumes "claim_raw now s = (s', r)"
  shows "sh_waiter s' = sh_waiter s \<and> sh_turn_active s' = sh_turn_active s \<and> sh_sent s' = sh_sent s
    \<and> sh_turn_started_ms s' = sh_turn_started_ms s \<and> sh_interrupt s' = sh_interrupt s
    \<and> sh_permission_mode s' = sh_permission_mode s \<and> sh_pre_tools s' = sh_pre_tools s
    \<and> sh_finished s' = sh_finished s \<and> sh_ended s' = sh_ended s \<and> sh_marker s' = sh_marker s"
proof -
  obtain h d where "claim_raw now s =
      (if live_queue now s = []
       then (s\<lparr>sh_queue := [], sh_history := h, sh_dropped := sh_dropped s @ d\<rparr>, None)
       else (s\<lparr>sh_queue := drop (take_count now s) (live_queue now s), sh_history := h,
              sh_dropped := sh_dropped s @ d, sh_marker_announced := True\<rparr>,
             Some (hand_text now s, map deliver (take (take_count now s) (live_queue now s)))))"
    by (rule claim_raw_shape [where now = now and s = s]) (rule that)
  then show ?thesis using assms by (auto split: if_splits)
qed

lemma claim_raw_result:
  assumes "claim_raw now s = (s', r)"
  shows "r = (if live_queue now s = [] then None
      else Some (hand_text now s, map deliver (take (take_count now s) (live_queue now s))))
    \<and> sh_queue s' = (if live_queue now s = [] then [] else drop (take_count now s) (live_queue now s))
    \<and> (length (sh_history s) \<le> HISTORY_CAP \<longrightarrow> length (sh_history s') \<le> HISTORY_CAP)"
proof -
  obtain h d where "claim_raw now s =
      (if live_queue now s = []
       then (s\<lparr>sh_queue := [], sh_history := h, sh_dropped := sh_dropped s @ d\<rparr>, None)
       else (s\<lparr>sh_queue := drop (take_count now s) (live_queue now s), sh_history := h,
              sh_dropped := sh_dropped s @ d, sh_marker_announced := True\<rparr>,
             Some (hand_text now s, map deliver (take (take_count now s) (live_queue now s)))))"
    and "length (sh_history s) \<le> HISTORY_CAP \<Longrightarrow> length h \<le> HISTORY_CAP"
    by (rule claim_raw_shape [where now = now and s = s]) (rule that)
  then show ?thesis using assms by (auto split: if_splits)
qed

lemma prune_queue_ids [simp]: "mset (pending_ids (prune_queue now s)) = mset (pending_ids s)"
proof -
  obtain h d where "prune_queue now s = s\<lparr>sh_queue := live_queue now s, sh_history := h, sh_dropped := sh_dropped s @ d\<rparr>"
    and "mset (dropped_ids d) + mset (queue_ids (live_queue now s)) = mset (queue_ids (sh_queue s))"
    by (rule prune_queue_shape [where now = now and s = s]) (rule that)
  then show ?thesis by (simp add: pending_ids_def) (metis add.assoc add.commute)
qed

lemma unclaim_ids: "mset (pending_ids (unclaim taken b s)) = mset (queue_ids taken) + mset (pending_ids s)"
  by (simp add: unclaim_def pending_ids_def Let_def ac_simps)

lemma tell_waiter_ids [simp]: "pending_ids (tell_waiter alive sig s) = pending_ids s"
  by (simp add: tell_waiter_def pending_ids_def split: option.split)

lemma try_release_ids: "try_release alive now s = (s', msgs) \<Longrightarrow>
    mset (pending_ids s') + mset (msg_ids msgs) = mset (pending_ids s)"
proof (cases "sh_turn_active s \<or> sh_queue s = [] \<or> sh_waiter s = None")
  case True
  assume "try_release alive now s = (s', msgs)"
  then show ?thesis using True by (simp add: try_release_def)
next
  case False
  assume t: "try_release alive now s = (s', msgs)"
  obtain s1 r where c: "claim_raw now s = (s1, r)" by fastforce
  have ids: "mset (pending_ids s1) + mset (taken_ids r) = mset (pending_ids s)"
    using c by (rule claim_raw_ids)
  show ?thesis
  proof (cases r)
    case None
    then show ?thesis using t ids False by (simp add: try_release_def c Let_def taken_ids_def)
  next
    case (Some p)
    obtain tx taken where p: "r = Some (tx, taken)" using Some by (cases p) auto
    have upd: "pending_ids (x\<lparr>sh_last_waiter_end_ms := a, sh_turn_active := b, sh_turn_started_ms := e\<rparr>)
        = pending_ids x" for x a b e
      by (simp add: pending_ids_def)
    show ?thesis using t ids False
      by (auto simp: try_release_def c p Let_def taken_ids_def unclaim_ids upd add.commute
          split: option.splits if_splits)
  qed
qed

lemma claim_ids: "claim now s = (s', r) \<Longrightarrow>
    mset (pending_ids s') + mset (case r of Some (_, msgs) \<Rightarrow> msg_ids msgs | None \<Rightarrow> []) = mset (pending_ids s)"
  using claim_raw_ids [of now s] by (auto simp: claim_def taken_ids_def split: prod.splits option.splits)

lemma drop_queued_ids: "mset (pending_ids (drop_queued r which s)) = mset (pending_ids s)"
proof -
  obtain h where "drop_queued r which s = s\<lparr>sh_queue := filter (\<lambda>q. \<not> which q) (sh_queue s), sh_history := h,
        sh_dropped := sh_dropped s @ dropped_as r (filter which (sh_queue s))\<rparr>"
    using drop_queued_shape by blast
  then show ?thesis using mset_queue_split [of which "sh_queue s"]
    by (simp add: pending_ids_def) (metis add.assoc add.commute)
qed

text \<open>Updates that touch neither the queue nor the dropped list.\<close>

lemma pending_ids_updates [simp]:
  "pending_ids (s\<lparr>sh_pid := a\<rparr>) = pending_ids s" "pending_ids (s\<lparr>sh_seen := b\<rparr>) = pending_ids s"
  "pending_ids (s\<lparr>sh_ended := b\<rparr>) = pending_ids s" "pending_ids (s\<lparr>sh_last_event_ms := t\<rparr>) = pending_ids s"
  "pending_ids (s\<lparr>sh_permission_mode := m\<rparr>) = pending_ids s"
  "pending_ids (s\<lparr>sh_turn_active := b\<rparr>) = pending_ids s"
  "pending_ids (s\<lparr>sh_turn_started_ms := t\<rparr>) = pending_ids s"
  "pending_ids (s\<lparr>sh_last_prompt_id := m\<rparr>) = pending_ids s"
  "pending_ids (s\<lparr>sh_interrupt := b\<rparr>) = pending_ids s"
  "pending_ids (s\<lparr>sh_marker_announced := b\<rparr>) = pending_ids s"
  "pending_ids (s\<lparr>sh_pre_tools := p\<rparr>) = pending_ids s" "pending_ids (s\<lparr>sh_finished := f\<rparr>) = pending_ids s"
  "pending_ids (s\<lparr>sh_in_flight := i\<rparr>) = pending_ids s" "pending_ids (s\<lparr>sh_history := h\<rparr>) = pending_ids s"
  "pending_ids (s\<lparr>sh_waiter := w\<rparr>) = pending_ids s"
  "pending_ids (s\<lparr>sh_last_waiter_end_ms := t\<rparr>) = pending_ids s"
  "pending_ids (s\<lparr>sh_subagents := u\<rparr>) = pending_ids s" "pending_ids (s\<lparr>sh_pid_status := m\<rparr>) = pending_ids s"
  "pending_ids (s\<lparr>sh_left_waiting_at := l\<rparr>) = pending_ids s"
  "pending_ids (s\<lparr>sh_confirmed_relays := n\<rparr>) = pending_ids s" "pending_ids (s\<lparr>sh_sent := x\<rparr>) = pending_ids s"
  by (simp_all add: pending_ids_def)

lemma quiet_ids [simp]:
  "pending_ids (start_turn now s) = pending_ids s" "pending_ids (prune_pre now s) = pending_ids s"
  "pending_ids (reset_process alive s) = pending_ids s" "pending_ids (remember i st s) = pending_ids s"
  "pending_ids (touch_session alive pid now s) = pending_ids s"
  "pending_ids (note_event_mode ev s) = pending_ids s" "pending_ids (session_new m) = []"
  by (auto simp: start_turn_def prune_pre_def reset_process_def remember_def touch_session_def
      note_event_mode_def Let_def split: option.split)
    (simp add: pending_ids_def session_new_def)

lemma handle_event_ids:
  assumes "handle_event alive hs ev now s = (s', out)"
  shows "mset (pending_ids s') + mset (msg_ids (oc_delivered out)) = mset (pending_ids s)"
proof -
  have d: "msg_ids (oc_delivered outcome_default) = []" by (simp add: outcome_default_def)
  have 1: "on_pre_tool_use ev now s = (s', out) \<Longrightarrow> ?thesis"
    using d by (auto simp: on_pre_tool_use_def Let_def split: option.splits if_splits)
  have 2: "on_post_tool hs ev now s = (s', out) \<Longrightarrow> ?thesis"
    using d by (auto simp: on_post_tool_def Let_def split: option.splits if_splits prod.splits dest!: claim_ids)
  have 3: "on_stop alive hs ev now s = (s', out) \<Longrightarrow> ?thesis"
    using d by (auto simp: on_stop_def Let_def split: option.splits if_splits prod.splits
        dest!: claim_ids try_release_ids)
  have 4: "on_user_prompt hs ev now s = (s', out) \<Longrightarrow> ?thesis"
    using d by (auto simp: on_user_prompt_def Let_def split: option.splits if_splits)
  have 5: "on_session_start ev s = (s', out) \<Longrightarrow> ?thesis"
    using d by (auto simp: on_session_start_def Let_def split: if_splits)
  have 6: "on_session_end alive hs ev s = (s', out) \<Longrightarrow> ?thesis"
    using d by (auto simp: on_session_end_def Let_def drop_queued_ids)
  have 7: "on_subagent_start ev now s = (s', out) \<Longrightarrow> ?thesis"
    using d by (auto simp: on_subagent_start_def split: option.splits)
  have 8: "on_subagent_stop hs ev s = (s', out) \<Longrightarrow> ?thesis"
    using d by (auto simp: on_subagent_stop_def split: option.splits)
  show ?thesis
    using assms 1 2 3 4 5 6 7 8 d unfolding handle_event_def Let_def by (auto split: if_splits)
qed

section \<open>Runs of the hub\<close>

datatype hub_op =
    OpEvent hook_event
  | OpSeen str
  | OpCorrelate str "str option" str nat
  | OpHold str held
  | OpUnhold str
  | OpInterrupt str
  | OpEnqueue str str str bool
  | OpNoteMode str str
  | OpTakeDropped
  | OpCancel str str
  | OpArm str "nat option"
  | OpDisarm str nat
  | OpReleaseAll
  | OpObserve str str int
  | OpGc

text \<open>What an operation did with messages: (session, message id) pairs.\<close>

record traffic =
  tf_enqueued :: "(str \<times> str) list"
  tf_delivered :: "(str \<times> str) list"
  tf_cancelled :: "(str \<times> str) list"
  tf_dropped :: "(str \<times> str) list"

definition no_traffic :: traffic where
  "no_traffic = \<lparr>tf_enqueued = [], tf_delivered = [], tf_cancelled = [], tf_dropped = []\<rparr>"

definition tag :: "str \<Rightarrow> str list \<Rightarrow> (str \<times> str) list" where
  "tag i ids = map (Pair i) ids"

definition enqueue_traffic :: "str \<Rightarrow> str \<Rightarrow> enqueue_error + queued_message \<times> queued_message list \<Rightarrow> traffic" where
  "enqueue_traffic i fresh r =
     (case r of Inl _ \<Rightarrow> no_traffic
      | Inr (_, msgs) \<Rightarrow> no_traffic\<lparr>tf_enqueued := [(i, fresh)], tf_delivered := tag i (msg_ids msgs)\<rparr>)"

fun hub_apply :: "(str \<Rightarrow> str) \<Rightarrow> (nat \<Rightarrow> bool) \<Rightarrow> int \<Rightarrow> hub_op \<Rightarrow> hub \<Rightarrow> hub \<times> traffic" where
  "hub_apply sha alive now (OpEvent ev) hub =
     (let (hub', out) = on_event sha alive ev now hub
      in (hub', no_traffic\<lparr>tf_delivered := tag (ev_session ev) (msg_ids (oc_delivered out))\<rparr>))"
| "hub_apply sha alive now (OpSeen i) hub = (mark_seen sha i now hub, no_traffic)"
| "hub_apply sha alive now (OpCorrelate i agent tool key) hub =
     (fst (correlate hub i agent tool key now), no_traffic)"
| "hub_apply sha alive now (OpHold pid h) hub = (fst (hold hub pid h), no_traffic)"
| "hub_apply sha alive now (OpUnhold pid) hub = (unhold hub pid, no_traffic)"
| "hub_apply sha alive now (OpInterrupt i) hub = (fst (interrupt_session sha hub i now), no_traffic)"
| "hub_apply sha alive now (OpEnqueue fresh i txt may) hub =
     (let (hub', r) = enqueue_from sha alive fresh hub i txt now may in (hub', enqueue_traffic i fresh r))"
| "hub_apply sha alive now (OpNoteMode i mode) hub = (note_mode hub i mode, no_traffic)"
| "hub_apply sha alive now OpTakeDropped hub =
     (let (hub', ds) = take_dropped hub
      in (hub', no_traffic\<lparr>tf_dropped := map (\<lambda>(i, m, _). (i, qm_id m)) ds\<rparr>))"
| "hub_apply sha alive now (OpCancel i mid) hub =
     (let (hub', r) = cancel hub i mid
      in (hub', case r of Inl _ \<Rightarrow> no_traffic
                | Inr m \<Rightarrow> no_traffic\<lparr>tf_cancelled := tag i [qm_id m]\<rparr>))"
| "hub_apply sha alive now (OpArm i pid) hub =
     (let (hub', r) = arm_waiter sha alive hub i pid now
      in (hub', case r of Immediate _ msgs \<Rightarrow> no_traffic\<lparr>tf_delivered := tag i (msg_ids msgs)\<rparr>
                | Parked _ \<Rightarrow> no_traffic))"
| "hub_apply sha alive now (OpDisarm i w) hub = (disarm hub i w now, no_traffic)"
| "hub_apply sha alive now OpReleaseAll hub = (fst (release_all_waiters alive hub), no_traffic)"
| "hub_apply sha alive now (OpObserve i status updated_at) hub =
     (let (hub', out) = observe_pidfile alive hub i status updated_at now
      in (hub', no_traffic\<lparr>tf_delivered := tag i (msg_ids (oc_delivered out))\<rparr>))"
| "hub_apply sha alive now OpGc hub = (fst (gc hub now), no_traffic)"

definition session_ids :: "(str, session_hooks) hmap \<Rightarrow> (str \<times> str) list" where
  "session_ids m = concat (map (\<lambda>(i, s). tag i (pending_ids s)) m)"

definition hub_ids :: "hub \<Rightarrow> (str \<times> str) list" where
  "hub_ids hub = session_ids (hb_sessions hub)"

lemma tag_simps [simp]: "tag i [] = []" "tag i (x # xs) = (i, x) # tag i xs" "tag i (xs @ ys) = tag i xs @ tag i ys"
  by (simp_all add: tag_def)

lemma tag_mset: "mset xs = mset ys \<Longrightarrow> mset (tag i xs) = mset (tag i ys)"
  by (simp add: tag_def)

lemma session_ids_simps [simp]:
  "session_ids [] = []" "session_ids ((i, s) # m) = tag i (pending_ids s) @ session_ids m"
  by (simp_all add: session_ids_def)

lemma session_ids_put:
  "mset (session_ids (hm_put i s' m)) + mset (tag i (case hm_get m i of Some s \<Rightarrow> pending_ids s | None \<Rightarrow> []))
     = mset (session_ids m) + mset (tag i (pending_ids s'))"
proof (induction m)
  case (Cons p m)
  obtain j s where p: "p = (j, s)" by (cases p)
  show ?case
  proof (cases "j = i")
    case False
    then show ?thesis using Cons by (simp add: p)
  qed (simp add: p ac_simps)
qed simp

lemma mset_trade:
  fixes A B G H :: "'a multiset"
  assumes "A + B = H + B'" "B' + G = B + C"
  shows "A + G = H + C"
proof -
  have "(A + G) + B = (A + B) + G" by (simp only: ac_simps)
  also have "\<dots> = H + (B' + G)" unfolding assms(1) by (simp only: ac_simps)
  also have "\<dots> = (H + C) + B" unfolding assms(2) by (simp only: ac_simps)
  finally show ?thesis by (rule add_right_imp_eq)
qed

text \<open>Writing back a session whose messages changed by those that left and those that came.\<close>

lemma put_session_ids:
  assumes "mset (pending_ids s') + mset gone = mset (pending_ids (session_or_new sha hub i)) + mset came"
  shows "mset (hub_ids (put_session i s' hub)) + mset (tag i gone) = mset (hub_ids hub) + mset (tag i came)"
proof -
  have old: "(case hm_get (hb_sessions hub) i of Some s \<Rightarrow> pending_ids s | None \<Rightarrow> [])
      = pending_ids (session_or_new sha hub i)"
    by (simp add: session_or_new_def split: option.split)
  have "mset (tag i (pending_ids s' @ gone)) = mset (tag i (pending_ids (session_or_new sha hub i) @ came))"
    using assms by (intro tag_mset) simp
  then have 1: "mset (tag i (pending_ids s')) + mset (tag i gone)
      = mset (tag i (pending_ids (session_or_new sha hub i))) + mset (tag i came)"
    by (simp only: tag_simps mset_append)
  have 2: "mset (hub_ids (put_session i s' hub)) + mset (tag i (pending_ids (session_or_new sha hub i)))
      = mset (hub_ids hub) + mset (tag i (pending_ids s'))"
    using session_ids_put [of i s' "hb_sessions hub"] by (simp add: hub_ids_def put_session_def old)
  show ?thesis by (rule mset_trade [OF 2 1])
qed

lemma session_or_new_known: "hm_get (hb_sessions hub) i = Some s \<Longrightarrow> session_or_new sha hub i = s"
  by (simp add: session_or_new_def)

lemma put_session_quiet:
  "mset (pending_ids s') = mset (pending_ids (session_or_new sha hub i)) \<Longrightarrow>
     mset (hub_ids (put_session i s' hub)) = mset (hub_ids hub)"
  using put_session_ids [of s' "[]" sha hub i "[]"] by simp

lemma hub_ids_sessions: "hb_sessions hub' = hb_sessions hub \<Longrightarrow> hub_ids hub' = hub_ids hub"
  by (simp add: hub_ids_def)

lemma session_ids_map:
  assumes "\<And>s. mset (pending_ids (f s)) = mset (pending_ids s)"
  shows "mset (session_ids (hm_map f m)) = mset (session_ids m)"
proof (induction m)
  case (Cons p m)
  obtain i s where p: "p = (i, s)" by (cases p)
  have "mset (tag i (pending_ids (f s))) = mset (tag i (pending_ids s))"
    by (rule tag_mset [OF assms])
  moreover have "hm_map f (p # m) = (i, f s) # hm_map f m" by (simp add: p hm_map_def)
  ultimately show ?case using Cons by (simp only: p session_ids_simps mset_append)
qed (simp add: hm_map_def)

lemma session_ids_retain:
  "(\<And>i s. \<not> P i s \<Longrightarrow> pending_ids s = []) \<Longrightarrow> session_ids (hm_retain P m) = session_ids m"
  by (induction m) (auto simp: hm_retain_def)

definition balanced :: "hub \<Rightarrow> hub \<Rightarrow> traffic \<Rightarrow> bool" where
  "balanced hub hub' t \<longleftrightarrow>
     mset (hub_ids hub) + mset (tf_enqueued t)
     = mset (hub_ids hub') + mset (tf_delivered t) + mset (tf_cancelled t) + mset (tf_dropped t)"

lemma balanced_quiet: "mset (hub_ids hub') = mset (hub_ids hub) \<Longrightarrow> balanced hub hub' no_traffic"
  by (simp add: balanced_def no_traffic_def)

lemma balanced_deliver:
  assumes "mset (pending_ids s') + mset ids = mset (pending_ids (session_or_new sha hub i))"
  shows "balanced hub (put_session i s' hub) (no_traffic\<lparr>tf_delivered := tag i ids\<rparr>)"
  using put_session_ids [of s' ids sha hub i "[]"] assms by (simp add: balanced_def no_traffic_def)

lemma on_event_balanced:
  assumes "on_event sha alive ev now hub = (hub', out)"
  shows "balanced hub hub' (no_traffic\<lparr>tf_delivered := tag (ev_session ev) (msg_ids (oc_delivered out))\<rparr>)"
proof -
  let ?s = "note_event_mode ev (touch_session alive (ev_pid ev) now (session_or_new sha hub (ev_session ev)))"
  obtain s' o' where h: "handle_event alive (hb_held hub) ev now ?s = (s', o')" by fastforce
  have "hub' = put_session (ev_session ev) s' hub" "oc_delivered out = oc_delivered o'"
    using assms by (auto simp: on_event_def h Let_def)
  then show ?thesis using handle_event_ids [OF h] by (simp add: balanced_deliver)
qed

lemma enqueue_balanced:
  assumes "enqueue_from sha alive fresh hub i msg now may = (hub', r)"
  shows "balanced hub hub' (enqueue_traffic i fresh r)"
proof -
  let ?s0 = "session_or_new sha hub i" and ?s1 = "prune_queue now (session_or_new sha hub i)"
  show ?thesis
  proof (cases "sh_ended ?s0 \<or> length (sh_queue ?s1) \<ge> QUEUE_CAP")
    case True
    then have "hub' = put_session i ?s0 hub \<or> hub' = put_session i ?s1 hub" "enqueue_traffic i fresh r = no_traffic"
      using assms by (auto simp: enqueue_from_def Let_def enqueue_traffic_def split: if_splits)
    then show ?thesis using balanced_quiet put_session_quiet [of ?s0 sha hub i] put_session_quiet [of ?s1 sha hub i]
      by auto
  next
    case False
    let ?q = "\<lparr>qd_msg = \<lparr>qm_id = fresh, qm_text = msg, qm_created_at = now,
        qm_via = (if sh_turn_active ?s1 then ViaHookBusy else ViaHookIdle), qm_status = QQueued,
        qm_cancellable = True\<rparr>, qd_may_dangerous = may\<rparr>"
    obtain s' msgs where t: "try_release alive now (?s1\<lparr>sh_queue := sh_queue ?s1 @ [?q]\<rparr>) = (s', msgs)"
      by fastforce
    have hub': "hub' = put_session i s' hub"
      "enqueue_traffic i fresh r = no_traffic\<lparr>tf_enqueued := [(i, fresh)], tf_delivered := tag i (msg_ids msgs)\<rparr>"
      using assms False by (auto simp: enqueue_from_def Let_def t enqueue_traffic_def)
    have "mset (pending_ids s') + mset (msg_ids msgs) = mset (pending_ids ?s0) + mset [fresh]"
      using try_release_ids [OF t] prune_queue_ids [of now ?s0] by (simp add: pending_ids_def)
    from put_session_ids [OF this] show ?thesis unfolding hub'
      by (simp add: balanced_def no_traffic_def)
  qed
qed

lemma cancel_balanced:
  assumes "cancel hub i mid = (hub', r)"
  shows "balanced hub hub' (case r of Inl _ \<Rightarrow> no_traffic
    | Inr m \<Rightarrow> no_traffic\<lparr>tf_cancelled := tag i [qm_id m]\<rparr>)"
proof (cases "hm_get (hb_sessions hub) i")
  case None
  then show ?thesis using assms by (auto simp: cancel_def intro: balanced_quiet)
next
  case (Some s)
  let ?P = "\<lambda>q. qm_id (qd_msg q) = mid"
  show ?thesis
  proof (cases "find ?P (sh_queue s)")
    case None
    then show ?thesis using assms Some by (auto simp: cancel_def Let_def intro: balanced_quiet)
  next
    case (Some q)
    have rm: "mset (queue_ids (remove_first ?P qs)) + {#mid#} = mset (queue_ids qs)"
      if "find ?P qs = Some q" for qs
      using that by (induction qs) (auto split: if_splits)
    let ?s' = "remember mid QCancelled (s\<lparr>sh_queue := remove_first ?P (sh_queue s)\<rparr>)"
    have "mset (pending_ids ?s') + mset [mid] = mset (pending_ids (session_or_new sha hub i)) + mset []" for sha
      using rm [OF Some]
      by (simp add: session_or_new_known [OF \<open>hm_get (hb_sessions hub) i = Some s\<close>] pending_ids_def
          remember_def flip: rm [OF Some])
    from put_session_ids [OF this] have "mset (hub_ids (put_session i ?s' hub)) + mset (tag i [mid]) = mset (hub_ids hub)"
      by simp
    moreover have "qm_id (qd_msg q) = mid" using find_Some_mem [OF Some] by simp
    ultimately show ?thesis using assms Some \<open>hm_get (hb_sessions hub) i = Some s\<close>
      by (auto simp: cancel_def balanced_def no_traffic_def simp del: tag_simps)
  qed
qed

lemma arm_balanced:
  assumes "arm_waiter sha alive hub i pid now = (hub', r)"
  shows "balanced hub hub' (case r of Immediate _ msgs \<Rightarrow> no_traffic\<lparr>tf_delivered := tag i (msg_ids msgs)\<rparr>
    | Parked _ \<Rightarrow> no_traffic)"
proof -
  let ?h = "hub\<lparr>hb_next_waiter := Suc (hb_next_waiter hub)\<rparr>"
  let ?s = "tell_waiter alive Superseded (touch_session alive pid now (session_or_new sha ?h i))"
  have same: "hub_ids ?h = hub_ids hub" by (simp add: hub_ids_def)
  have b: "balanced ?h hub' t \<Longrightarrow> balanced hub hub' t" for t unfolding balanced_def same .
  obtain s' c where c: "(if \<not> sh_turn_active ?s then claim now ?s else (?s, None)) = (s', c)" by fastforce
  have ids: "mset (pending_ids s') + mset (case c of Some (_, msgs) \<Rightarrow> msg_ids msgs | None \<Rightarrow> [])
      = mset (pending_ids (session_or_new sha ?h i))"
    using c claim_ids [of now ?s s' c] by (auto split: if_splits)
  show ?thesis
  proof (cases c)
    case None
    then have "hub' = put_session i (s'\<lparr>sh_waiter := Some (Suc (hb_next_waiter hub))\<rparr>) ?h" "r = Parked (Suc (hb_next_waiter hub))"
      using assms c by (auto simp: arm_waiter_def Let_def)
    then show ?thesis using ids None put_session_quiet [of "s'\<lparr>sh_waiter := Some (Suc (hb_next_waiter hub))\<rparr>" sha ?h i]
      by (intro b) (simp add: balanced_quiet)
  next
    case (Some p)
    obtain tx msgs where p: "c = Some (tx, msgs)" using Some by (cases p) auto
    then have "hub' = put_session i (s'\<lparr>sh_last_waiter_end_ms := now, sh_turn_active := True,
        sh_turn_started_ms := now\<rparr>) ?h" "r = Immediate tx msgs"
      using assms c by (auto simp: arm_waiter_def Let_def)
    then show ?thesis using ids p by (intro b) (simp add: balanced_deliver)
  qed
qed

lemma pidfile_left_ids [simp]: "pending_ids (pidfile_left status updated_at s) = pending_ids s"
  by (simp add: pidfile_left_def Let_def)

lemma pidfile_withdraw_ids: "pidfile_withdraw hs i status now s = (s', wd) \<Longrightarrow> pending_ids s' = pending_ids s"
  by (auto simp: pidfile_withdraw_def split: option.splits if_splits)

lemma pidfile_idle_ids: "pidfile_idle alive status updated_at now s = (s', msgs) \<Longrightarrow>
    mset (pending_ids s') + mset (msg_ids msgs) = mset (pending_ids s)"
  by (auto simp: pidfile_idle_def split: if_splits dest: try_release_ids)

lemma observe_balanced:
  assumes "observe_pidfile alive hub i status updated_at now = (hub', out)"
  shows "balanced hub hub' (no_traffic\<lparr>tf_delivered := tag i (msg_ids (oc_delivered out))\<rparr>)"
proof (cases "hm_get (hb_sessions hub) i")
  case None
  then show ?thesis using assms by (auto simp: observe_pidfile_def outcome_default_def balanced_def no_traffic_def)
next
  case (Some s)
  obtain s1 wd where 1: "pidfile_withdraw (hb_held hub) i status now (pidfile_left status updated_at s) = (s1, wd)"
    by fastforce
  obtain s2 msgs where 2: "pidfile_idle alive status updated_at now s1 = (s2, msgs)" by fastforce
  have "mset (pending_ids s2) + mset (msg_ids msgs) = mset (pending_ids (session_or_new sha hub i))" for sha
    using pidfile_idle_ids [OF 2] pidfile_withdraw_ids [OF 1] by (simp add: session_or_new_known [OF Some])
  moreover have "hub' = put_session i s2 hub" "oc_delivered out = msgs"
    using assms by (auto simp: observe_pidfile_def Let_def Some 1 2)
  ultimately show ?thesis using balanced_deliver by blast
qed

lemma session_ids_split:
  "mset (session_ids m) = mset (concat (map (\<lambda>(i, s). tag i (queue_ids (sh_queue s))) m))
     + mset (concat (map (\<lambda>(i, s). tag i (dropped_ids (sh_dropped s))) m))"
  by (induction m) (auto simp: pending_ids_def)

lemma session_ids_cleared:
  "session_ids (hm_map (\<lambda>s. s\<lparr>sh_dropped := []\<rparr>) m)
     = concat (map (\<lambda>(i, s). tag i (queue_ids (sh_queue s))) m)"
  by (induction m) (auto simp: hm_map_def pending_ids_def)

lemma dropped_listing:
  "map (\<lambda>(i, m, _). (i, qm_id m)) (concat (map (\<lambda>(i, s). map (\<lambda>(m, r). (i, m, r)) (sh_dropped s)) m))
     = concat (map (\<lambda>(i, s). tag i (dropped_ids (sh_dropped s))) m)"
  by (induction m) (auto simp: tag_def dropped_ids_def)

lemma take_dropped_balanced:
  "take_dropped hub = (hub', ds) \<Longrightarrow>
     balanced hub hub' (no_traffic\<lparr>tf_dropped := map (\<lambda>(i, m, _). (i, qm_id m)) ds\<rparr>)"
proof -
  assume "take_dropped hub = (hub', ds)"
  then have "hub_ids hub' = concat (map (\<lambda>(i, s). tag i (queue_ids (sh_queue s))) (hb_sessions hub))"
    and "map (\<lambda>(i, m, _). (i, qm_id m)) ds
      = concat (map (\<lambda>(i, s). tag i (dropped_ids (sh_dropped s))) (hb_sessions hub))"
    unfolding dropped_listing [symmetric] by (auto simp: take_dropped_def hub_ids_def session_ids_cleared)
  then show ?thesis using session_ids_split [of "hb_sessions hub"]
    by (simp add: balanced_def no_traffic_def hub_ids_def)
qed

lemma gc_keep_ids: "\<not> gc_keep hs now i s \<Longrightarrow> pending_ids s = []"
  by (auto simp: gc_keep_def Let_def pending_ids_def)

lemma gc_ids: "mset (hub_ids (fst (gc hub now))) = mset (hub_ids hub)"
  using session_ids_map [of "prune_queue now" "hb_sessions hub"]
  by (simp add: gc_def Let_def hub_ids_def session_ids_retain gc_keep_ids)

lemma known_put_quiet:
  "hm_get (hb_sessions hub) i = Some s \<Longrightarrow> mset (pending_ids s') = mset (pending_ids s) \<Longrightarrow>
     mset (hub_ids (put_session i s' hub)) = mset (hub_ids hub)"
  using put_session_quiet [of s' "\<lambda>x. x" hub i] by (simp add: session_or_new_known)

lemma correlate_ids: "mset (hub_ids (fst (correlate hub i agent tool key now))) = mset (hub_ids hub)"
  by (cases "hm_get (hb_sessions hub) i") (auto simp: correlate_def Let_def intro!: known_put_quiet)

lemma interrupt_ids: "mset (hub_ids (fst (interrupt_session sha hub i now))) = mset (hub_ids hub)"
proof -
  let ?s = "(session_or_new sha hub i)\<lparr>sh_interrupt := True\<rparr>"
  have "mset (hub_ids (put_session i (if b then ?s\<lparr>sh_last_event_ms := now\<rparr> else ?s) hub)) = mset (hub_ids hub)" for b
    by (rule put_session_quiet) simp
  then show ?thesis by (simp add: interrupt_session_def Let_def hub_ids_def)
qed

lemma hub_apply_balanced:
  assumes "hub_apply sha alive now op hub = (hub', t)"
  shows "balanced hub hub' t"
proof (cases op)
  case (OpEvent ev)
  then show ?thesis using assms on_event_balanced by (auto split: prod.splits)
next
  case (OpSeen i)
  then show ?thesis using assms
    by (auto simp: mark_seen_def touch_def intro!: balanced_quiet put_session_quiet)
next
  case (OpCorrelate i agent tool key)
  then show ?thesis using assms by (auto intro: balanced_quiet simp: correlate_ids)
next
  case (OpHold pid h)
  then show ?thesis using assms by (auto simp: hold_def hub_ids_def Let_def intro!: balanced_quiet split: if_splits)
next
  case (OpUnhold pid)
  then show ?thesis using assms by (auto simp: unhold_def hub_ids_def intro!: balanced_quiet)
next
  case (OpInterrupt i)
  then show ?thesis using assms by (auto intro: balanced_quiet simp: interrupt_ids)
next
  case (OpEnqueue fresh i msg may)
  then show ?thesis using assms enqueue_balanced by (auto split: prod.splits)
next
  case (OpNoteMode i mode)
  then show ?thesis using assms
    by (auto simp: note_mode_def intro!: balanced_quiet known_put_quiet split: option.splits)
next
  case OpTakeDropped
  then show ?thesis using assms take_dropped_balanced by (auto split: prod.splits)
next
  case (OpCancel i mid)
  then show ?thesis using assms cancel_balanced by (auto split: prod.splits)
next
  case (OpArm i pid)
  then show ?thesis using assms arm_balanced by (auto split: prod.splits)
next
  case (OpDisarm i w)
  then show ?thesis using assms
    by (auto simp: disarm_def intro!: balanced_quiet known_put_quiet split: option.splits)
next
  case OpReleaseAll
  then show ?thesis using assms
    by (auto simp: release_all_waiters_def hub_ids_def intro!: balanced_quiet session_ids_map)
next
  case (OpObserve i status updated_at)
  then show ?thesis using assms observe_balanced by (auto split: prod.splits)
next
  case OpGc
  then show ?thesis using assms by (auto intro: balanced_quiet simp: gc_ids)
qed

section \<open>The hub's invariant\<close>

text \<open>Every store is bounded, queued messages are queued and can be taken back, and a waiter is told
  something at most once: the parked one not yet, everyone in \<open>sh_sent\<close> exactly once.\<close>

definition session_inv :: "nat \<Rightarrow> session_hooks \<Rightarrow> bool" where
  "session_inv n s \<longleftrightarrow>
     length (sh_queue s) \<le> QUEUE_CAP \<and> length (sh_history s) \<le> HISTORY_CAP
     \<and> length (sh_pre_tools s) \<le> Suc PRE_TOOL_CAP \<and> length (sh_finished s) \<le> Suc FINISHED_CALLS_CAP
     \<and> (\<forall>q \<in> set (sh_queue s). qm_status (qd_msg q) = QQueued \<and> qm_cancellable (qd_msg q))
     \<and> (\<forall>w. sh_waiter s = Some w \<longrightarrow> w \<le> n \<and> w \<notin> fst ` set (sh_sent s))
     \<and> (\<forall>w \<in> fst ` set (sh_sent s). w \<le> n) \<and> distinct (map fst (sh_sent s))"

lemma session_inv_mono: "session_inv n s \<Longrightarrow> n \<le> m \<Longrightarrow> session_inv m s"
  by (force simp: session_inv_def)

lemma session_inv_new [wf_intros]: "session_inv n (session_new m)"
  by (simp add: session_inv_def session_new_def)

lemma pop_while_or_bound: "length (pop_while (\<lambda>q. P q \<or> length q > n) xs) \<le> n"
  using pop_while_stop [of "\<lambda>q. P q \<or> length q > n" xs] by (cases "pop_while (\<lambda>q. P q \<or> length q > n) xs") auto

text \<open>A step that leaves the fields of the invariant alone, or shrinks them.\<close>

lemma session_inv_sub:
  assumes "session_inv n s" "set (sh_queue s') \<subseteq> set (sh_queue s)" "length (sh_queue s') \<le> length (sh_queue s)"
    "length (sh_history s') \<le> HISTORY_CAP" "length (sh_pre_tools s') \<le> Suc PRE_TOOL_CAP"
    "length (sh_finished s') \<le> Suc FINISHED_CALLS_CAP" "sh_waiter s' = sh_waiter s \<or> sh_waiter s' = None"
    "sh_sent s' = sh_sent s"
  shows "session_inv n s'"
  using assms unfolding session_inv_def by (metis option.distinct(1) order_trans subsetD)

lemma session_inv_tell [wf_intros]: "session_inv n s \<Longrightarrow> session_inv n (tell_waiter alive sig s)"
  by (auto simp: session_inv_def tell_waiter_def split: option.splits)

lemma live_queue_sub: "set (live_queue now s) \<subseteq> set (sh_queue s)" "length (live_queue now s) \<le> length (sh_queue s)"
  by (auto simp: live_queue_def)

lemma session_inv_prune_queue [wf_intros]:
  assumes "session_inv n s" shows "session_inv n (prune_queue now s)"
proof -
  obtain h d where "prune_queue now s = s\<lparr>sh_queue := live_queue now s, sh_history := h, sh_dropped := sh_dropped s @ d\<rparr>"
    and "length (sh_history s) \<le> HISTORY_CAP \<Longrightarrow> length h \<le> HISTORY_CAP"
    by (rule prune_queue_shape [where now = now and s = s]) (rule that)
  note h = this
  show ?thesis
    by (rule session_inv_sub [OF assms]) (use h assms live_queue_sub [of now s] in \<open>auto simp: session_inv_def\<close>)
qed

lemma session_inv_claim_raw:
  assumes inv: "session_inv n s" and c: "claim_raw now s = (s', r)" shows "session_inv n s'"
proof (rule session_inv_sub [OF inv])
  have "set (drop k (live_queue now s)) \<subseteq> set (sh_queue s)" for k
    using live_queue_sub(1) [of now s] set_drop_subset [of k "live_queue now s"] by blast
  then show "set (sh_queue s') \<subseteq> set (sh_queue s)" using claim_raw_result [OF c] by simp
  show "length (sh_queue s') \<le> length (sh_queue s)"
    using claim_raw_result [OF c] live_queue_sub(2) [of now s] by (simp split: if_splits)
qed (use claim_raw_fields [OF c] claim_raw_result [OF c] inv in \<open>auto simp: session_inv_def\<close>)

lemma session_inv_claim: "session_inv n s \<Longrightarrow> claim now s = (s', r) \<Longrightarrow> session_inv n s'"
  using session_inv_claim_raw [of n s now s'] by (auto simp: claim_def split: prod.splits)

lemma requeue_deliver:
  "qm_status (qd_msg q) = QQueued \<Longrightarrow> qm_cancellable (qd_msg q) \<Longrightarrow> requeue (deliver q) = q"
  by (simp add: requeue_def deliver_def closed_msg_def)

text \<open>A failed delivery puts the queue back as it was after pruning.\<close>

lemma requeue_taken:
  "\<forall>q \<in> set qs. qm_status (qd_msg q) = QQueued \<and> qm_cancellable (qd_msg q) \<Longrightarrow>
     map requeue (map deliver (take k qs)) @ drop k qs = qs"
proof -
  assume "\<forall>q \<in> set qs. qm_status (qd_msg q) = QQueued \<and> qm_cancellable (qd_msg q)"
  then have "map (requeue \<circ> deliver) (take k qs) = map (\<lambda>q. q) (take k qs)"
    by (intro map_cong refl) (auto simp: requeue_deliver dest: in_set_takeD)
  then show ?thesis by simp
qed

text \<open>The three ways \<open>try_release\<close> ends.\<close>

lemma try_release_cases:
  assumes "try_release alive now s = (s', msgs)"
  obtains (quiet) "sh_turn_active s \<or> sh_queue s = [] \<or> sh_waiter s = None" "s' = s" "msgs = []"
  | (pruned) s1 where "claim_raw now s = (s1, None)" "s' = s1" "msgs = []" "\<not> sh_turn_active s"
  | (sent) s1 tx taken w where "claim_raw now s = (s1, Some (tx, taken))" "sh_waiter s = Some w" "alive w"
      "\<not> sh_turn_active s" "msgs = map qd_msg taken"
      "s' = (tell_waiter alive (Release tx) s1)\<lparr>sh_last_waiter_end_ms := now, sh_turn_active := True,
               sh_turn_started_ms := now\<rparr>"
  | (dead) s1 tx taken w where "claim_raw now s = (s1, Some (tx, taken))" "sh_waiter s = Some w" "\<not> alive w"
      "\<not> sh_turn_active s" "msgs = []"
      "s' = unclaim taken (sh_marker_announced s) (tell_waiter alive (Release tx) s1)"
proof (cases "sh_turn_active s \<or> sh_queue s = [] \<or> sh_waiter s = None")
  case True
  then show thesis using assms by (intro quiet) (auto simp: try_release_def)
next
  case False
  obtain s1 r where c: "claim_raw now s = (s1, r)" by fastforce
  obtain w where w: "sh_waiter s = Some w" using False by auto
  have w1: "sh_waiter s1 = Some w" using claim_raw_fields [OF c] w by simp
  show thesis
  proof (cases r)
    case None
    have "try_release alive now s = (s1, [])" using False None by (simp add: try_release_def c w Let_def)
    with assms have "s' = s1" "msgs = []" by simp_all
    moreover have "claim_raw now s = (s1, None)" "\<not> sh_turn_active s" using False None c by simp_all
    ultimately show thesis by (intro pruned)
  next
    case (Some p)
    obtain tx taken where p: "r = Some (tx, taken)" using Some by (cases p) auto
    have e: "try_release alive now s =
        (let s' = tell_waiter alive (Release tx) s1
         in if alive w then (s'\<lparr>sh_last_waiter_end_ms := now, sh_turn_active := True, sh_turn_started_ms := now\<rparr>,
              map qd_msg taken)
            else (unclaim taken (sh_marker_announced s) s', []))"
      using False by (simp add: try_release_def c p w w1 Let_def)
    have cl: "claim_raw now s = (s1, Some (tx, taken))" using c p by simp
    have idle: "\<not> sh_turn_active s" using False by simp
    show thesis
    proof (cases "alive w")
      case True
      show thesis
        by (rule sent [OF cl w True idle]) (use assms True in \<open>simp_all add: e Let_def\<close>)
    next
      case dead': False
      show thesis
        by (rule dead [OF cl w dead' idle]) (use assms dead' in \<open>simp_all add: e Let_def\<close>)
    qed
  qed
qed

lemma session_inv_try_release:
  assumes inv: "session_inv n s" and t: "try_release alive now s = (s', msgs)" shows "session_inv n s'"
  using t
proof (cases rule: try_release_cases)
  case quiet
  then show ?thesis using inv by simp
next
  case (pruned s1)
  then show ?thesis using session_inv_claim_raw [OF inv] by blast
next
  case (sent s1 tx taken w)
  have "session_inv n (tell_waiter alive (Release tx) s1)"
    using session_inv_claim_raw [OF inv sent(1)] by (rule session_inv_tell)
  then show ?thesis unfolding sent(6) by (simp add: session_inv_def)
next
  case (dead s1 tx taken w)
  have live: "\<forall>q \<in> set (live_queue now s). qm_status (qd_msg q) = QQueued \<and> qm_cancellable (qd_msg q)"
    using inv live_queue_sub(1) [of now s] by (auto simp: session_inv_def)
  have q: "map requeue taken @ sh_queue s1 = live_queue now s"
    using claim_raw_result [OF dead(1)] requeue_taken [OF live] by (auto split: if_splits)
  have "session_inv n (tell_waiter alive (Release tx) s1)"
    using session_inv_claim_raw [OF inv dead(1)] by (rule session_inv_tell)
  then have "session_inv n ((tell_waiter alive (Release tx) s1)\<lparr>sh_queue := live_queue now s\<rparr>)"
    using inv live live_queue_sub(2) [of now s] by (auto simp: session_inv_def)
  moreover have "sh_queue (tell_waiter alive (Release tx) s1) = sh_queue s1"
    by (simp add: tell_waiter_def split: option.split)
  ultimately show ?thesis unfolding dead(6) unclaim_def Let_def
    using q by (auto simp: session_inv_def intro: le_trans [OF length_filter_le])
qed

lemma session_inv_quiet [simp]:
  "session_inv n (s\<lparr>sh_pid := a\<rparr>) = session_inv n s" "session_inv n (s\<lparr>sh_seen := b\<rparr>) = session_inv n s"
  "session_inv n (s\<lparr>sh_ended := b\<rparr>) = session_inv n s" "session_inv n (s\<lparr>sh_last_event_ms := t\<rparr>) = session_inv n s"
  "session_inv n (s\<lparr>sh_permission_mode := m\<rparr>) = session_inv n s"
  "session_inv n (s\<lparr>sh_turn_active := b\<rparr>) = session_inv n s"
  "session_inv n (s\<lparr>sh_turn_started_ms := t\<rparr>) = session_inv n s"
  "session_inv n (s\<lparr>sh_last_prompt_id := m\<rparr>) = session_inv n s"
  "session_inv n (s\<lparr>sh_interrupt := b\<rparr>) = session_inv n s"
  "session_inv n (s\<lparr>sh_marker_announced := b\<rparr>) = session_inv n s"
  "session_inv n (s\<lparr>sh_in_flight := i\<rparr>) = session_inv n s"
  "session_inv n (s\<lparr>sh_last_waiter_end_ms := t\<rparr>) = session_inv n s"
  "session_inv n (s\<lparr>sh_subagents := u\<rparr>) = session_inv n s" "session_inv n (s\<lparr>sh_pid_status := m\<rparr>) = session_inv n s"
  "session_inv n (s\<lparr>sh_left_waiting_at := l\<rparr>) = session_inv n s"
  "session_inv n (s\<lparr>sh_confirmed_relays := c\<rparr>) = session_inv n s"
  "session_inv n (s\<lparr>sh_dropped := d\<rparr>) = session_inv n s"
  by (simp_all add: session_inv_def)

lemma prune_pre_bounds:
  "length (sh_pre_tools (prune_pre now s)) \<le> PRE_TOOL_CAP"
  "length (sh_finished (prune_pre now s)) \<le> FINISHED_CALLS_CAP"
  unfolding prune_pre_def by (simp_all add: pop_while_or_bound)

lemma session_inv_prune_pre [wf_intros]:
  assumes "session_inv n s" shows "session_inv n (prune_pre now s)"
  by (rule session_inv_sub [OF assms])
    (use assms prune_pre_bounds [of now s] in \<open>auto simp: prune_pre_def session_inv_def\<close>)

lemma session_inv_start_turn [simp]: "session_inv n (start_turn now s) = session_inv n s"
  by (simp add: start_turn_def)

lemma session_inv_pre_filter:
  assumes "session_inv n s" shows "session_inv n (s\<lparr>sh_pre_tools := filter P (sh_pre_tools s)\<rparr>)"
  by (rule session_inv_sub [OF assms])
    (use assms in \<open>auto simp: session_inv_def intro: le_trans [OF length_filter_le]\<close>)

lemma session_inv_reset [wf_intros]:
  assumes "session_inv n s" shows "session_inv n (reset_process alive s)"
proof -
  have t: "session_inv n (tell_waiter alive Gone s)" using assms by (rule session_inv_tell)
  show ?thesis by (rule session_inv_sub [OF t]) (use t in \<open>auto simp: reset_process_def session_inv_def\<close>)
qed

lemma session_inv_touch [wf_intros]: "session_inv n s \<Longrightarrow> session_inv n (touch_session alive pid now s)"
  by (simp add: touch_session_def Let_def session_inv_reset split: option.split)

lemma session_inv_mode [simp]: "session_inv n (note_event_mode ev s) = session_inv n s"
  by (simp add: note_event_mode_def split: option.split)

lemma session_inv_drop_queued [wf_intros]:
  assumes "session_inv n s" shows "session_inv n (drop_queued r which s)"
proof -
  obtain h where h: "drop_queued r which s = s\<lparr>sh_queue := filter (\<lambda>q. \<not> which q) (sh_queue s), sh_history := h,
        sh_dropped := sh_dropped s @ dropped_as r (filter which (sh_queue s))\<rparr>"
    "length (sh_history s) \<le> HISTORY_CAP \<longrightarrow> length h \<le> HISTORY_CAP"
    using drop_queued_shape by blast
  show ?thesis by (rule session_inv_sub [OF assms]) (use h assms in \<open>auto simp: session_inv_def\<close>)
qed

lemma session_inv_push_pre:
  "session_inv n s \<Longrightarrow> length (sh_pre_tools s) \<le> PRE_TOOL_CAP \<Longrightarrow> session_inv n (s\<lparr>sh_pre_tools := sh_pre_tools s @ [p]\<rparr>)"
  by (simp add: session_inv_def)

lemma session_inv_push_finished:
  "session_inv n s \<Longrightarrow> length (sh_finished s) \<le> FINISHED_CALLS_CAP \<Longrightarrow> session_inv n (s\<lparr>sh_finished := sh_finished s @ [f]\<rparr>)"
  by (simp add: session_inv_def)

lemma session_inv_event:
  assumes "session_inv n s" "handle_event alive hs ev now s = (s', out)"
  shows "session_inv n s'"
proof -
  have push: "session_inv n ((prune_pre now s)\<lparr>sh_pre_tools := sh_pre_tools (prune_pre now s) @ [p], sh_in_flight := i\<rparr>)" for p i
    using session_inv_push_pre [OF session_inv_prune_pre [OF assms(1)] prune_pre_bounds(1)] by simp
  have fin: "session_inv n ((prune_pre now t)\<lparr>sh_finished := sh_finished (prune_pre now t) @ [f]\<rparr>)"
    if "session_inv n t" for t f
    using session_inv_push_finished [OF session_inv_prune_pre [OF that] prune_pre_bounds(2)] .
  have flt: "session_inv n (s\<lparr>sh_in_flight := i, sh_pre_tools := filter P (sh_pre_tools s)\<rparr>)" for P i
    using session_inv_pre_filter [of n "s\<lparr>sh_in_flight := i\<rparr>" P] assms(1) by simp
  have 1: "on_pre_tool_use ev now s = (s', out) \<Longrightarrow> ?thesis"
    using assms(1) push by (auto simp: on_pre_tool_use_def Let_def split: option.splits if_splits)
  have 2: "on_post_tool hs ev now s = (s', out) \<Longrightarrow> ?thesis"
    using assms(1) fin [OF flt]
    by (auto simp: on_post_tool_def Let_def split: option.splits if_splits prod.splits
        elim!: session_inv_claim [rotated])
  have 3: "on_stop alive hs ev now s = (s', out) \<Longrightarrow> ?thesis"
    using assms(1) by (auto simp: on_stop_def Let_def split: option.splits if_splits prod.splits
        dest: session_inv_claim [rotated] session_inv_try_release [rotated])
  have 4: "on_user_prompt hs ev now s = (s', out) \<Longrightarrow> ?thesis"
    using assms(1) by (auto simp: on_user_prompt_def Let_def split: option.splits if_splits)
  have 5: "on_session_start ev s = (s', out) \<Longrightarrow> ?thesis"
    using assms(1) by (auto simp: on_session_start_def Let_def split: if_splits)
  have 6: "on_session_end alive hs ev s = (s', out) \<Longrightarrow> ?thesis"
    using assms(1) by (auto simp: on_session_end_def Let_def intro!: session_inv_tell session_inv_drop_queued)
  have 7: "on_subagent_start ev now s = (s', out) \<Longrightarrow> ?thesis"
    using assms(1) by (auto simp: on_subagent_start_def split: option.splits)
  have 8: "on_subagent_stop hs ev s = (s', out) \<Longrightarrow> ?thesis"
    using assms(1) by (auto simp: on_subagent_stop_def split: option.splits)
  show ?thesis
    using assms 1 2 3 4 5 6 7 8 unfolding handle_event_def Let_def by (auto split: if_splits)
qed

definition hub_inv :: "hub \<Rightarrow> bool" where
  "hub_inv hub \<longleftrightarrow> (\<forall>(i, s) \<in> set (hb_sessions hub). session_inv (hb_next_waiter hub) s)"

lemma hub_inv_get: "hub_inv hub \<Longrightarrow> hm_get (hb_sessions hub) i = Some s \<Longrightarrow> session_inv (hb_next_waiter hub) s"
  by (auto simp: hub_inv_def dest!: map_of_SomeD)

lemma hub_inv_or_new: "hub_inv hub \<Longrightarrow> session_inv (hb_next_waiter hub) (session_or_new sha hub i)"
  by (auto simp: session_or_new_def hub_inv_get session_inv_new split: option.split)

lemma hub_inv_put:
  "hub_inv hub \<Longrightarrow> session_inv (hb_next_waiter hub) s \<Longrightarrow> hub_inv (put_session i s hub)"
  using set_hm_put [of i s "hb_sessions hub"] by (fastforce simp: hub_inv_def put_session_def)

lemma hub_inv_map:
  "hub_inv hub \<Longrightarrow> (\<And>s. session_inv (hb_next_waiter hub) s \<Longrightarrow> session_inv (hb_next_waiter hub) (f s)) \<Longrightarrow>
     hub_inv (hub\<lparr>hb_sessions := hm_map f (hb_sessions hub)\<rparr>)"
  by (auto simp: hub_inv_def hm_map_def)

lemma mark_first_length [simp]: "length (mark_first P ps) = length ps"
  by (induction ps) auto

lemma hub_inv_arm:
  assumes inv: "hub_inv hub" and a: "arm_waiter sha alive hub i pid now = (hub', r)"
  shows "hub_inv hub'"
proof -
  let ?h = "hub\<lparr>hb_next_waiter := Suc (hb_next_waiter hub)\<rparr>"
  let ?s0 = "session_or_new sha ?h i"
  let ?s = "tell_waiter alive Superseded (touch_session alive pid now ?s0)"
  have h: "hub_inv ?h" using inv by (auto simp: hub_inv_def intro: session_inv_mono)
  have old: "session_inv (hb_next_waiter hub) ?s"
    using hub_inv_or_new [OF inv, of sha i]
    by (intro session_inv_tell session_inv_touch) (simp add: session_or_new_def cong: option.case_cong)
  obtain s' c where c: "(if \<not> sh_turn_active ?s then claim now ?s else (?s, None)) = (s', c)" by fastforce
  have s': "session_inv (hb_next_waiter hub) s'"
    using c old by (auto split: if_splits dest: session_inv_claim [rotated])
  have park: "session_inv (Suc (hb_next_waiter hub)) (s'\<lparr>sh_waiter := Some (Suc (hb_next_waiter hub))\<rparr>)"
    using s' by (fastforce simp: session_inv_def)
  have hub': "hub' = put_session i (s'\<lparr>sh_waiter := Some (Suc (hb_next_waiter hub))\<rparr>) ?h
      \<or> hub' = put_session i (s'\<lparr>sh_last_waiter_end_ms := now, sh_turn_active := True, sh_turn_started_ms := now\<rparr>) ?h"
    using a c by (auto simp: arm_waiter_def Let_def split: option.splits prod.splits)
  have "session_inv (Suc (hb_next_waiter hub)) s'" using s' by (rule session_inv_mono) simp
  then show ?thesis using hub' park h by (auto intro!: hub_inv_put)
qed

lemma hub_apply_inv:
  assumes inv: "hub_inv hub" and a: "hub_apply sha alive now op hub = (hub', t)"
  shows "hub_inv hub'"
proof (cases op)
  case (OpEvent ev)
  let ?s = "note_event_mode ev (touch_session alive (ev_pid ev) now (session_or_new sha hub (ev_session ev)))"
  obtain s' o' where h: "handle_event alive (hb_held hub) ev now ?s = (s', o')" by fastforce
  have "session_inv (hb_next_waiter hub) s'"
    using h inv by (intro session_inv_event [OF _ h]) (simp add: session_inv_touch hub_inv_or_new)
  moreover have "hub' = put_session (ev_session ev) s' hub"
    using a OpEvent h by (auto simp: on_event_def Let_def)
  ultimately show ?thesis using inv by (simp add: hub_inv_put)
next
  case (OpSeen i)
  then show ?thesis using a inv
    by (auto simp: mark_seen_def touch_def intro!: hub_inv_put session_inv_touch hub_inv_or_new)
next
  case (OpCorrelate i agent tool key)
  show ?thesis
  proof (cases "hm_get (hb_sessions hub) i")
    case None
    then show ?thesis using a inv OpCorrelate by (auto simp: correlate_def)
  next
    case (Some s)
    have "session_inv (hb_next_waiter hub) ((prune_pre now s)\<lparr>sh_pre_tools := mark_first P (sh_pre_tools (prune_pre now s))\<rparr>)" for P
      using session_inv_prune_pre [OF hub_inv_get [OF inv Some]] by (simp add: session_inv_def)
    then show ?thesis using a inv OpCorrelate Some by (auto simp: correlate_def Let_def intro!: hub_inv_put)
  qed
next
  case (OpInterrupt i)
  let ?s = "(session_or_new sha hub i)\<lparr>sh_interrupt := True\<rparr>"
  have "session_inv (hb_next_waiter hub) (if b then ?s\<lparr>sh_last_event_ms := now\<rparr> else ?s)" for b
    using hub_inv_or_new [OF inv] by simp
  from hub_inv_put [OF inv this] have "hub_inv (put_session i (if b then ?s\<lparr>sh_last_event_ms := now\<rparr> else ?s) hub)" for b .
  moreover have "hub_inv (h\<lparr>hb_held := x\<rparr>) = hub_inv h" for h x by (simp add: hub_inv_def)
  ultimately show ?thesis using a OpInterrupt
    by (auto simp: interrupt_session_def Let_def simp del: if_split)
next
  case (OpEnqueue fresh i msg may)
  let ?s = "session_or_new sha hub i"
  have s: "session_inv (hb_next_waiter hub) ?s" using hub_inv_or_new [OF inv] .
  then have p: "session_inv (hb_next_waiter hub) (prune_queue now ?s)" by (rule session_inv_prune_queue)
  have q: "session_inv (hb_next_waiter hub) ((prune_queue now ?s)\<lparr>sh_queue := sh_queue (prune_queue now ?s) @ [x]\<rparr>)"
    if "length (sh_queue (prune_queue now ?s)) < QUEUE_CAP" "qm_status (qd_msg x) = QQueued" "qm_cancellable (qd_msg x)" for x
    using p that by (auto simp: session_inv_def)
  show ?thesis using a OpEnqueue inv s p
    by (auto simp: enqueue_from_def Let_def not_le intro!: hub_inv_put session_inv_try_release [OF q]
        split: if_splits prod.splits)
next
  case (OpNoteMode i mode)
  then show ?thesis using a inv hub_inv_get [OF inv]
    by (auto simp: note_mode_def intro!: hub_inv_put split: option.splits if_splits)
next
  case OpTakeDropped
  then show ?thesis using a inv by (auto simp: take_dropped_def intro!: hub_inv_map)
next
  case (OpCancel i mid)
  show ?thesis
  proof (cases "hm_get (hb_sessions hub) i")
    case None
    then show ?thesis using a inv OpCancel by (auto simp: cancel_def)
  next
    case (Some s)
    let ?s' = "remember mid QCancelled (s\<lparr>sh_queue := remove_first (\<lambda>q. qm_id (qd_msg q) = mid) (sh_queue s)\<rparr>)"
    have s: "session_inv (hb_next_waiter hub) s" using hub_inv_get [OF inv Some] .
    have "session_inv (hb_next_waiter hub) ?s'"
      by (rule session_inv_sub [OF s])
        (use s set_remove_first [of "\<lambda>q. qm_id (qd_msg q) = mid" "sh_queue s"] in
          \<open>auto simp: remember_def session_inv_def length_remember_history length_remove_first\<close>)
    then show ?thesis using a inv OpCancel Some
      by (auto simp: cancel_def intro!: hub_inv_put split: option.splits prod.splits)
  qed
next
  case (OpArm i pid)
  then show ?thesis using a hub_inv_arm [OF inv] by (auto split: prod.splits)
next
  case (OpDisarm i w)
  show ?thesis
  proof (cases "hm_get (hb_sessions hub) i")
    case None
    then show ?thesis using a inv OpDisarm by (auto simp: disarm_def)
  next
    case (Some s)
    have "session_inv (hb_next_waiter hub) (s\<lparr>sh_waiter := (if sh_waiter s = Some w then None else sh_waiter s)\<rparr>)"
      using hub_inv_get [OF inv Some] by (auto simp: session_inv_def)
    then show ?thesis using a inv OpDisarm Some by (auto simp: disarm_def intro!: hub_inv_put)
  qed
next
  case OpReleaseAll
  then show ?thesis using a inv by (auto simp: release_all_waiters_def intro!: hub_inv_map session_inv_tell)
next
  case (OpObserve i status updated_at)
  show ?thesis
  proof (cases "hm_get (hb_sessions hub) i")
    case None
    then show ?thesis using a inv OpObserve by (auto simp: observe_pidfile_def)
  next
    case (Some s)
    obtain s1 wd where 1: "pidfile_withdraw (hb_held hub) i status now (pidfile_left status updated_at s) = (s1, wd)"
      by fastforce
    obtain s2 msgs where 2: "pidfile_idle alive status updated_at now s1 = (s2, msgs)" by fastforce
    have "session_inv (hb_next_waiter hub) (pidfile_left status updated_at s)"
      using hub_inv_get [OF inv Some] by (simp add: pidfile_left_def Let_def)
    then have "session_inv (hb_next_waiter hub) s1"
      using 1 by (auto simp: pidfile_withdraw_def split: option.splits if_splits)
    then have "session_inv (hb_next_waiter hub) s2"
      using 2 by (auto simp: pidfile_idle_def split: if_splits dest: session_inv_try_release [rotated])
    then show ?thesis using a inv OpObserve
      by (auto simp: observe_pidfile_def Let_def Some 1 2 intro!: hub_inv_put)
  qed
next
  case OpGc
  have "hub_inv (hub\<lparr>hb_sessions := hm_map (prune_queue now) (hb_sessions hub)\<rparr>)"
    using inv by (rule hub_inv_map) (rule session_inv_prune_queue)
  then show ?thesis using a OpGc by (auto simp: gc_def Let_def hub_inv_def hm_retain_def)
qed (use a inv in \<open>auto simp: hold_def unhold_def hub_inv_def Let_def split: if_splits\<close>)

type_synonym hub_input = "(nat \<Rightarrow> bool) \<times> int \<times> hub_op"

definition hub_step :: "(str \<Rightarrow> str) \<Rightarrow> hub \<Rightarrow> hub_input \<Rightarrow> hub" where
  "hub_step sha hub e = (case e of (alive, now, op) \<Rightarrow> fst (hub_apply sha alive now op hub))"

interpretation hub_machine: invariant_machine "hub_step sha" hub_inv for sha
  by unfold_locales
    (auto simp: hub_step_def split: prod.split intro: hub_apply_inv [OF _ prod.collapse [symmetric]])

section \<open>Runs\<close>

definition traffic_add :: "traffic \<Rightarrow> traffic \<Rightarrow> traffic" where
  "traffic_add t u = \<lparr>tf_enqueued = tf_enqueued t @ tf_enqueued u, tf_delivered = tf_delivered t @ tf_delivered u,
     tf_cancelled = tf_cancelled t @ tf_cancelled u, tf_dropped = tf_dropped t @ tf_dropped u\<rparr>"

fun hub_run :: "(str \<Rightarrow> str) \<Rightarrow> hub_input list \<Rightarrow> hub \<Rightarrow> hub \<times> traffic" where
  "hub_run sha [] hub = (hub, no_traffic)"
| "hub_run sha ((alive, now, op) # es) hub =
     (let (hub1, t) = hub_apply sha alive now op hub; (hub2, u) = hub_run sha es hub1
      in (hub2, traffic_add t u))"

lemma hub_run_balanced: "hub_run sha es hub = (hub', t) \<Longrightarrow> balanced hub hub' t"
proof (induction es arbitrary: hub t)
  case Nil
  then show ?case by (auto intro: balanced_quiet)
next
  case (Cons e es)
  obtain alive now op where e: "e = (alive, now, op)" by (cases e)
  obtain hub1 u where 1: "hub_apply sha alive now op hub = (hub1, u)" by fastforce
  obtain v where 2: "hub_run sha es hub1 = (hub', v)" and t: "t = traffic_add u v"
    using Cons.prems by (auto simp: e 1 split: prod.splits)
  have a: "balanced hub hub1 u" using 1 by (rule hub_apply_balanced)
  have b: "balanced hub1 hub' v" using 2 by (rule Cons.IH)
  show ?case
  proof -
    have "mset (hub_ids hub) + mset (tf_enqueued t)
        = (mset (hub_ids hub) + mset (tf_enqueued u)) + mset (tf_enqueued v)"
      by (simp add: t traffic_add_def)
    also have "\<dots> = (mset (hub_ids hub1) + mset (tf_enqueued v))
        + (mset (tf_delivered u) + mset (tf_cancelled u) + mset (tf_dropped u))"
      using a by (simp add: balanced_def)
    also have "\<dots> = mset (hub_ids hub') + mset (tf_delivered t) + mset (tf_cancelled t) + mset (tf_dropped t)"
      using b by (simp add: balanced_def t traffic_add_def)
    finally show ?thesis by (simp add: balanced_def)
  qed
qed

lemma hub_inv_start: "hub_inv (hub_with_secret k)"
  by (simp add: hub_inv_def hub_with_secret_def)

section \<open>Events and threads\<close>

lemma claim_result:
  assumes "claim now s = (s', r)"
  shows "r = (if live_queue now s = [] then None
      else Some (hand_text now s, map qd_msg (map deliver (take (take_count now s) (live_queue now s)))))
    \<and> sh_queue s' = (if live_queue now s = [] then [] else drop (take_count now s) (live_queue now s))"
proof -
  obtain s1 q where c: "claim_raw now s = (s1, q)" by fastforce
  show ?thesis using assms claim_raw_result [OF c] by (auto simp: claim_def c split: if_splits)
qed

lemma held_where_mem:
  "i \<in> set (held_where hs session f) \<longleftrightarrow> (\<exists>h. (i, h) \<in> set hs \<and> h_session h = session \<and> f h)"
  by (force simp: held_where_def)

lemma withdrawn_mem: "(i, r) \<in> set (withdrawn reason ids) \<longleftrightarrow> r = reason \<and> i \<in> set ids"
  by (auto simp: withdrawn_def)

lemma outcome_default_simps [simp]:
  "oc_withdraw outcome_default = []" "oc_delivered outcome_default = []"
  "oc_response outcome_default = relay_empty"
  by (simp_all add: outcome_default_def)

lemma post_withdraw_mem:
  "i \<in> set (post_withdraw hs ev t) \<Longrightarrow>
     \<exists>h. (i, h) \<in> set hs \<and> h_session h = ev_session ev
       \<and> (h_tool_use_id h = Some t
          \<or> (h_tool_use_id h = None \<and> h_agent_id h = ev_agent_id ev \<and> ev_tool_name ev = Some (h_tool_name h)
             \<and> ev_input_key ev = Some (h_input_key h)))"
  by (auto simp: post_withdraw_def Let_def held_where_mem dest!: in_set_takeD split: if_splits option.splits)

lemma handle_event_split:
  assumes "handle_event alive hs ev now s = (s', out)"
  obtains "ev_name ev = ''PreToolUse''" "on_pre_tool_use ev now s = (s', out)"
  | "ev_name ev \<in> {''PostToolUse'', ''PostToolUseFailure'', ''PermissionDenied''}" "on_post_tool hs ev now s = (s', out)"
  | "ev_name ev \<in> {''Stop'', ''StopFailure''}" "ev_agent_id ev = None" "on_stop alive hs ev now s = (s', out)"
  | "ev_name ev = ''UserPromptSubmit''" "ev_agent_id ev = None" "on_user_prompt hs ev now s = (s', out)"
  | "ev_name ev = ''SessionStart''" "on_session_start ev s = (s', out)"
  | "ev_name ev = ''SessionEnd''" "on_session_end alive hs ev s = (s', out)"
  | "ev_name ev = ''SubagentStart''" "on_subagent_start ev now s = (s', out)"
  | "ev_name ev = ''SubagentStop''" "on_subagent_stop hs ev s = (s', out)"
  | "s' = s" "out = outcome_default" "ev_agent_id ev = None \<Longrightarrow> ev_name ev \<notin> {''Stop'', ''StopFailure'', ''UserPromptSubmit''}"
    "ev_name ev \<noteq> ''SessionStart''" "ev_name ev \<noteq> ''SessionEnd''"
  using assms unfolding handle_event_def Let_def by (auto split: if_splits)

lemma event_withdraws_held:
  assumes "handle_event alive hs ev now s = (s', out)" "(i, r) \<in> set (oc_withdraw out)"
  shows "\<exists>h. (i, h) \<in> set hs \<and> h_session h = ev_session ev
    \<and> (ev_name ev \<in> {''Stop'', ''StopFailure'', ''UserPromptSubmit''} \<longrightarrow> h_agent_id h = None)
    \<and> (ev_name ev = ''SubagentStop'' \<longrightarrow> h_agent_id h = ev_agent_id ev)
    \<and> (ev_name ev \<in> {''PostToolUse'', ''PostToolUseFailure'', ''PermissionDenied''} \<longrightarrow>
        h_tool_use_id h = ev_tool_use_id ev
        \<or> (h_tool_use_id h = None \<and> h_agent_id h = ev_agent_id ev \<and> ev_tool_name ev = Some (h_tool_name h)
           \<and> ev_input_key ev = Some (h_input_key h)))"
  using assms(1)
proof (cases rule: handle_event_split)
  case 1
  then show ?thesis using assms(2) by (auto simp: on_pre_tool_use_def Let_def split: option.splits if_splits)
next
  case 2
  then have "\<exists>t. ev_tool_use_id ev = Some t \<and> i \<in> set (post_withdraw hs ev t)"
    using assms(2) by (auto simp: on_post_tool_def Let_def withdrawn_mem split: option.splits if_splits prod.splits)
  then show ?thesis using 2(1) post_withdraw_mem by fastforce
next
  case 3
  then have "i \<in> set (held_where hs (ev_session ev) (\<lambda>h. h_agent_id h = None))"
    using assms(2) by (auto simp: on_stop_def Let_def withdrawn_mem split: option.splits if_splits prod.splits)
  then show ?thesis using 3(1) by (auto simp: held_where_mem)
next
  case 4
  then show ?thesis using assms(2)
    by (auto simp: on_user_prompt_def Let_def withdrawn_mem held_where_mem split: if_splits option.splits)
next
  case 5
  then show ?thesis using assms(2) by (auto simp: on_session_start_def Let_def split: if_splits)
next
  case 6
  then show ?thesis using assms(2) by (auto simp: on_session_end_def Let_def withdrawn_mem held_where_mem)
next
  case 7
  then show ?thesis using assms(2) by (auto simp: on_subagent_start_def split: option.splits)
next
  case 8
  then show ?thesis using assms(2)
    by (auto simp: on_subagent_stop_def withdrawn_mem held_where_mem split: option.splits)
next
  case 9
  then show ?thesis using assms(2) by simp
qed

lemma turn_end_withdraws:
  assumes "handle_event alive hs ev now s = (s', out)" "(i, h) \<in> set hs" "h_session h = ev_session ev"
    and "(ev_name ev \<in> {''Stop'', ''StopFailure''} \<and> ev_agent_id ev = None \<and> h_agent_id h = None)
      \<or> ev_name ev = ''SessionEnd''
      \<or> (ev_name ev = ''SubagentStop'' \<and> ev_agent_id ev \<noteq> None \<and> h_agent_id h = ev_agent_id ev)
      \<or> (ev_name ev \<in> {''PostToolUse'', ''PostToolUseFailure'', ''PermissionDenied''}
           \<and> ev_tool_use_id ev \<noteq> None \<and> h_tool_use_id h = ev_tool_use_id ev)"
  shows "i \<in> fst ` set (oc_withdraw out)"
proof -
  have mem: "i \<in> fst ` set (withdrawn r ids)" if "i \<in> set ids" for r ids
    using that by (force simp: withdrawn_def)
  have hw: "i \<in> set (held_where hs (ev_session ev) f)" if "f h" for f
    using assms(2,3) that by (auto simp: held_where_mem)
  from assms(4) show ?thesis
  proof (elim disjE conjE)
    assume a: "ev_name ev \<in> {''Stop'', ''StopFailure''}" "ev_agent_id ev = None" "h_agent_id h = None"
    then have "on_stop alive hs ev now s = (s', out)" using assms(1) by (auto simp: handle_event_def Let_def)
    then have "oc_withdraw out = withdrawn ''the turn ended'' (held_where hs (ev_session ev) (\<lambda>h. h_agent_id h = None))"
      by (auto simp: on_stop_def Let_def split: if_splits prod.splits option.splits)
    then show ?thesis using mem hw a(3) by simp
  next
    assume a: "ev_name ev = ''SessionEnd''"
    then have "on_session_end alive hs ev s = (s', out)" using assms(1) by (simp add: handle_event_def Let_def)
    then show ?thesis using mem hw by (auto simp: on_session_end_def Let_def)
  next
    assume a: "ev_name ev = ''SubagentStop''" "ev_agent_id ev \<noteq> None" "h_agent_id h = ev_agent_id ev"
    then have "on_subagent_stop hs ev s = (s', out)" using assms(1) by (simp add: handle_event_def Let_def)
    then show ?thesis using mem hw a by (auto simp: on_subagent_stop_def)
  next
    assume a: "ev_name ev \<in> {''PostToolUse'', ''PostToolUseFailure'', ''PermissionDenied''}"
      "ev_tool_use_id ev \<noteq> None" "h_tool_use_id h = ev_tool_use_id ev"
    then have p: "on_post_tool hs ev now s = (s', out)" using assms(1) by (auto simp: handle_event_def Let_def)
    obtain t where t: "ev_tool_use_id ev = Some t" using a(2) by auto
    have "i \<in> set (held_where hs (ev_session ev) (\<lambda>h. h_tool_use_id h = Some t))"
      by (rule hw) (use a(3) t in simp)
    then have "i \<in> set (post_withdraw hs ev t)" by (auto simp: post_withdraw_def Let_def)
    moreover have "oc_withdraw out = withdrawn (post_reason (ev_name ev)) (post_withdraw hs ev t)"
      using p t by (auto simp: on_post_tool_def Let_def split: if_splits prod.splits option.splits)
    ultimately show ?thesis using mem by simp
  qed
qed

section \<open>Interrupts\<close>

lemma response_not_interrupt [simp]:
  "relay_empty \<noteq> interrupt_output" "interrupt_output \<noteq> relay_empty"
  "additional_context e x \<noteq> interrupt_output" "interrupt_output \<noteq> additional_context e x"
  by (simp_all add: relay_empty_def interrupt_output_def additional_context_def obj_def)

lemma interrupt_kept [simp]:
  "sh_interrupt (prune_pre now t) = sh_interrupt t" "sh_interrupt (start_turn now t) = sh_interrupt t"
  "sh_interrupt (tell_waiter alive sig t) = sh_interrupt t"
  by (simp_all add: prune_pre_def start_turn_def tell_waiter_def split: option.split)

lemma interrupt_drop_queued [simp]: "sh_interrupt (drop_queued r which t) = sh_interrupt t"
  using drop_queued_shape [of r which t] by auto

lemma interrupt_claim: "claim now t = (t', r) \<Longrightarrow> sh_interrupt t' = sh_interrupt t"
proof -
  assume c': "claim now t = (t', r)"
  obtain t1 q where c: "claim_raw now t = (t1, q)" by fastforce
  show ?thesis using c' claim_raw_fields [OF c] by (simp add: claim_def c)
qed

lemma interrupt_try_release: "try_release alive now t = (t', m) \<Longrightarrow> sh_interrupt t' = sh_interrupt t"
  by (erule try_release_cases) (auto simp: unclaim_def Let_def dest: claim_raw_fields)

lemma pre_tool_interrupt:
  "on_pre_tool_use ev now s = (s', out) \<Longrightarrow> oc_delivered out = []
     \<and> (oc_response out = interrupt_output \<longrightarrow> sh_interrupt s \<and> ev_agent_id ev = None)"
  by (auto simp: on_pre_tool_use_def Let_def split: option.splits if_splits)

lemma post_tool_interrupt:
  assumes "on_post_tool hs ev now s = (s', out)"
  shows "(ev_agent_id ev \<noteq> None \<longrightarrow> oc_delivered out = [])
     \<and> (oc_response out = interrupt_output \<longrightarrow> sh_interrupt s \<and> ev_agent_id ev = None \<and> ev_name ev = ''PostToolUse'')"
proof (cases "ev_agent_id ev = None \<and> ev_name ev = ''PostToolUse''")
  case True
  then show ?thesis using assms
    by (auto simp: on_post_tool_def Let_def split: option.splits if_splits prod.splits)
next
  case False
  then show ?thesis using assms
    by (auto simp: on_post_tool_def Let_def split: option.splits)
qed

lemma stop_interrupt:
  assumes "on_stop alive hs ev now s = (s', out)"
  shows "\<not> sh_interrupt s' \<and> oc_response out \<noteq> interrupt_output"
proof (cases "ev_name ev = ''Stop''")
  case True
  obtain s1 r where c: "claim now (s\<lparr>sh_interrupt := False\<rparr>) = (s1, r)" by fastforce
  show ?thesis using assms True interrupt_claim [OF c]
    by (cases r) (auto simp: on_stop_def Let_def c split: if_splits)
next
  case False
  obtain s1 m where c: "try_release alive now (s\<lparr>sh_interrupt := False, sh_turn_active := False\<rparr>) = (s1, m)"
    by fastforce
  show ?thesis using assms False interrupt_try_release [OF c]
    by (auto simp: on_stop_def Let_def c)
qed

lemma user_prompt_interrupt:
  "on_user_prompt hs ev now s = (s', out) \<Longrightarrow> oc_delivered out = [] \<and> oc_response out \<noteq> interrupt_output
     \<and> (ev_prompt_id ev = None \<or> ev_prompt_id ev \<noteq> sh_last_prompt_id s \<longrightarrow> \<not> sh_interrupt s')"
  by (auto simp: on_user_prompt_def Let_def split: option.splits if_splits)

section \<open>Properties\<close>

text \<open>C1: No relay is lost or duplicated. After any sequence of hook events, polls, cancellations,
  pidfile observations, clean-ups and restarts of the sessions' processes, every message that was
  queued was delivered once, or cancelled once, or reported as dropped once, or is still held by
  its session - exactly one of these.\<close>

theorem relay_exactly_once:
  assumes "hub_run sha es (hub_with_secret secret) = (hub, t)" and "distinct (tf_enqueued t)"
  shows "mset (tf_enqueued t) = mset (tf_delivered t @ tf_cancelled t @ tf_dropped t @ hub_ids hub)
    \<and> distinct (tf_delivered t @ tf_cancelled t @ tf_dropped t @ hub_ids hub)"
proof -
  have "hub_ids (hub_with_secret secret) = []" by (simp add: hub_ids_def hub_with_secret_def)
  with hub_run_balanced [OF assms(1)]
  have m: "mset (tf_enqueued t) = mset (tf_delivered t @ tf_cancelled t @ tf_dropped t @ hub_ids hub)"
    by (simp add: balanced_def ac_simps)
  then show ?thesis using assms(2) mset_eq_imp_distinct_iff by blast
qed

theorem relay_exactly_once_witness:
  "let (hub, t) = hub_run (\<lambda>_. []) [(\<lambda>_. True, 5, OpEnqueue ''m'' ''s'' ''hi'' True), (\<lambda>_. True, 6, OpCancel ''s'' ''m'')]
       (hub_with_secret []) in tf_cancelled t = [(''s'', ''m'')] \<and> distinct (tf_delivered t @ tf_cancelled t)"
proof -
  let ?es = "[(\<lambda>_. True, 5, OpEnqueue ''m'' ''s'' ''hi'' True), (\<lambda>_. True, 6, OpCancel ''s'' ''m'')] :: hub_input list"
  have t: "tf_enqueued (snd (hub_run (\<lambda>_. []) ?es (hub_with_secret []))) = [(''s'', ''m'')]"
    "tf_cancelled (snd (hub_run (\<lambda>_. []) ?es (hub_with_secret []))) = [(''s'', ''m'')]"
    by code_simp+
  obtain hub tr where r: "hub_run (\<lambda>_. []) ?es (hub_with_secret []) = (hub, tr)" by fastforce
  have "tf_enqueued tr = [(''s'', ''m'')]" "tf_cancelled tr = [(''s'', ''m'')]" using t by (simp_all only: r snd_conv)
  with relay_exactly_once [OF r] show ?thesis by (simp only: r Let_def prod.case) simp
qed

text \<open>C26: A hand-over gives the session the live part of its queue, in order and as whole messages:
  what it takes and what it leaves are together the queue without the messages past their time and
  without those a session now in \<open>bypassPermissions\<close> may not take from their sender; it takes at
  least one, and the text holds exactly the messages reported as delivered.\<close>

theorem hand_over_takes_live_prefix:
  assumes "(claim now s = (s', Some (txt, msgs)))
    \<or> (try_release alive now s = (s', msgs) \<and> msgs \<noteq> [] \<and> sh_waiter s = Some w
        \<and> txt = (case last (sh_sent s') of (_, Release x) \<Rightarrow> x | _ \<Rightarrow> []))"
  shows "\<exists>taken. taken \<noteq> [] \<and> msgs = map (\<lambda>q. closed_msg QDelivered (qd_msg q)) taken
    \<and> taken @ sh_queue s' = filter (\<lambda>q. \<not> now - qm_created_at (qd_msg q) > RELAY_TTL_MS
          \<and> (sh_permission_mode s = Some BYPASS \<longrightarrow> qd_may_dangerous q)) (sh_queue s)
    \<and> txt = relay_build (sh_marker s) msgs (\<not> sh_marker_announced s)"
proof -
  have live: "live_queue now s = filter (\<lambda>q. \<not> now - qm_created_at (qd_msg q) > RELAY_TTL_MS
          \<and> (sh_permission_mode s = Some BYPASS \<longrightarrow> qd_may_dangerous q)) (sh_queue s)"
    unfolding live_queue_def expired_def barred_def by (rule filter_cong) auto
  let ?t = "take (take_count now s) (live_queue now s)"
  have main: ?thesis if "live_queue now s \<noteq> []" "sh_queue s' = drop (take_count now s) (live_queue now s)"
    "msgs = map qd_msg (map deliver ?t)" "txt = hand_text now s"
  proof (intro exI conjI)
    show "?t \<noteq> []" using that(1) take_count_bounds(1) by simp
    show "msgs = map (\<lambda>q. closed_msg QDelivered (qd_msg q)) ?t" using that(3) by simp
    show "?t @ sh_queue s' = filter (\<lambda>q. \<not> now - qm_created_at (qd_msg q) > RELAY_TTL_MS
          \<and> (sh_permission_mode s = Some BYPASS \<longrightarrow> qd_may_dangerous q)) (sh_queue s)"
      using that(2) live by simp
    show "txt = relay_build (sh_marker s) msgs (\<not> sh_marker_announced s)"
      using that(3,4) by (simp add: hand_text_def)
  qed
  from assms show ?thesis
  proof (elim disjE conjE)
    assume "claim now s = (s', Some (txt, msgs))"
    from claim_result [OF this] show ?thesis using main by (simp split: if_splits)
  next
    assume t: "try_release alive now s = (s', msgs)" "msgs \<noteq> []"
      "txt = (case last (sh_sent s') of (_, Release x) \<Rightarrow> x | _ \<Rightarrow> [])"
    from t(1) show ?thesis
    proof (cases rule: try_release_cases)
      case (sent s1 tx taken v)
      have l: "live_queue now s \<noteq> []" "taken = map deliver ?t" "tx = hand_text now s"
        "sh_queue s1 = drop (take_count now s) (live_queue now s)"
        using claim_raw_result [OF sent(1)] by (auto split: if_splits)
      have "sh_waiter s1 = Some v" using claim_raw_fields [OF sent(1)] sent(2) by simp
      then have "sh_queue s' = sh_queue s1" "last (sh_sent s') = (v, Release tx)"
        using sent(3,6) by (simp_all add: tell_waiter_def)
      then show ?thesis using main l sent(5) t(3) by simp
    qed (use t(2) in auto)
  qed
qed

theorem hand_over_takes_live_prefix_witness:
  "\<exists>taken. taken @ sh_queue (fst (claim 10 ((session_new ''k'')\<lparr>sh_permission_mode := Some BYPASS, sh_queue :=
      [\<lparr>qd_msg = \<lparr>qm_id = ''1'', qm_text = ''a'', qm_created_at = 0, qm_via = ViaHookBusy, qm_status = QQueued,
          qm_cancellable = True\<rparr>, qd_may_dangerous = False\<rparr>,
       \<lparr>qd_msg = \<lparr>qm_id = ''2'', qm_text = ''b'', qm_created_at = 0, qm_via = ViaHookBusy, qm_status = QQueued,
          qm_cancellable = True\<rparr>, qd_may_dangerous = True\<rparr>]\<rparr>)))
     = [\<lparr>qd_msg = \<lparr>qm_id = ''2'', qm_text = ''b'', qm_created_at = 0, qm_via = ViaHookBusy, qm_status = QQueued,
          qm_cancellable = True\<rparr>, qd_may_dangerous = True\<rparr>]"
proof -
  let ?s = "(session_new ''k'')\<lparr>sh_permission_mode := Some BYPASS, sh_queue :=
      [\<lparr>qd_msg = \<lparr>qm_id = ''1'', qm_text = ''a'', qm_created_at = 0, qm_via = ViaHookBusy, qm_status = QQueued,
          qm_cancellable = True\<rparr>, qd_may_dangerous = False\<rparr>,
       \<lparr>qd_msg = \<lparr>qm_id = ''2'', qm_text = ''b'', qm_created_at = 0, qm_via = ViaHookBusy, qm_status = QQueued,
          qm_cancellable = True\<rparr>, qd_may_dangerous = True\<rparr>]\<rparr>"
  have "live_queue 10 ?s \<noteq> []"
    by (simp add: live_queue_def expired_def barred_def session_new_def RELAY_TTL_MS_def)
  then obtain s' x msgs where c: "claim 10 ?s = (s', Some (x, msgs))"
    using claim_result [of 10 ?s] by (metis prod.collapse)
  with hand_over_takes_live_prefix [OF disjI1 [OF c]] show ?thesis
    by (auto simp: session_new_def RELAY_TTL_MS_def)
qed

text \<open>A waiter that has gone costs nothing: when the release text cannot be sent, the queue is the
  live queue again, message for message and in order, still queued and cancellable, and the marker
  counts as announced only if it was before; nothing is reported as delivered.\<close>

theorem dead_waiter_loses_nothing:
  assumes "hub_inv hub" and "hm_get (hb_sessions hub) i = Some s"
    and "sh_waiter s = Some w" and "\<not> alive w" and "try_release alive now s = (s', msgs)"
    and "\<not> sh_turn_active s" and "live_queue now s \<noteq> []"
  shows "msgs = [] \<and> sh_queue s' = live_queue now s \<and> sh_waiter s' = None
    \<and> sh_marker_announced s' = sh_marker_announced s \<and> sh_sent s' = sh_sent s
    \<and> (\<forall>q \<in> set (sh_queue s'). qm_status (qd_msg q) = QQueued \<and> qm_cancellable (qd_msg q))"
  using assms(5)
proof (cases rule: try_release_cases)
  case quiet
  then show ?thesis using assms by (auto simp: live_queue_def)
next
  case (pruned s1)
  then show ?thesis using claim_raw_result [OF pruned(1)] assms(7) by auto
next
  case (sent s1 tx taken v)
  then show ?thesis using assms by auto
next
  case (dead s1 tx taken v)
  have live: "\<forall>q \<in> set (live_queue now s). qm_status (qd_msg q) = QQueued \<and> qm_cancellable (qd_msg q)"
    using hub_inv_get [OF assms(1,2)] live_queue_sub(1) [of now s] by (auto simp: session_inv_def)
  have "map requeue taken @ sh_queue s1 = live_queue now s"
    using claim_raw_result [OF dead(1)] requeue_taken [OF live] by (auto split: if_splits)
  then show ?thesis
    using dead claim_raw_fields [OF dead(1)] live by (auto simp: unclaim_def Let_def tell_waiter_def)
qed

theorem dead_waiter_loses_nothing_witness:
  "\<exists>s'. try_release (\<lambda>_. False) 10 ((session_new ''k'')\<lparr>sh_waiter := Some 0, sh_queue :=
      [\<lparr>qd_msg = \<lparr>qm_id = ''1'', qm_text = ''a'', qm_created_at = 0, qm_via = ViaHookIdle, qm_status = QQueued,
          qm_cancellable = True\<rparr>, qd_may_dangerous = False\<rparr>]\<rparr>) = (s', []) \<and> length (sh_queue s') = 1"
proof -
  let ?s = "(session_new ''k'')\<lparr>sh_waiter := Some 0, sh_queue :=
      [\<lparr>qd_msg = \<lparr>qm_id = ''1'', qm_text = ''a'', qm_created_at = 0, qm_via = ViaHookIdle, qm_status = QQueued,
          qm_cancellable = True\<rparr>, qd_may_dangerous = False\<rparr>]\<rparr>"
  let ?hub = "(hub_with_secret [])\<lparr>hb_sessions := [(''s'', ?s)]\<rparr>"
  have inv: "hub_inv ?hub"
    by (simp add: hub_inv_def hub_with_secret_def session_inv_def session_new_def QUEUE_CAP_def)
  have live: "live_queue 10 ?s = sh_queue ?s"
    by (simp add: live_queue_def expired_def barred_def session_new_def RELAY_TTL_MS_def)
  obtain s' msgs where t: "try_release (\<lambda>_. False) 10 ?s = (s', msgs)" by fastforce
  have g: "hm_get (hb_sessions ?hub) ''s'' = Some ?s" by simp
  from dead_waiter_loses_nothing [OF inv g _ _ t, of 0] live t show ?thesis
    by (simp add: session_new_def)
qed

text \<open>In every reachable hub the stores are bounded - twenty queued messages, the history, the tool
  calls remembered - every queued message can still be taken back, and every waiter is told at most
  once, the parked one not yet.\<close>

theorem hub_stays_bounded:
  assumes "hm_get (hb_sessions (foldl (hub_step sha) (hub_with_secret secret) es)) i = Some s"
  shows "length (sh_queue s) \<le> QUEUE_CAP \<and> length (sh_history s) \<le> HISTORY_CAP
    \<and> length (sh_pre_tools s) \<le> PRE_TOOL_CAP + 1 \<and> length (sh_finished s) \<le> FINISHED_CALLS_CAP + 1
    \<and> (\<forall>q \<in> set (sh_queue s). qm_status (qd_msg q) = QQueued \<and> qm_cancellable (qd_msg q))
    \<and> distinct (map fst (sh_sent s)) \<and> (\<forall>w. sh_waiter s = Some w \<longrightarrow> w \<notin> fst ` set (sh_sent s))"
proof -
  have "hub_inv (foldl (hub_step sha) (hub_with_secret secret) es)"
    using hub_inv_start by (rule hub_machine.run_inv)
  from hub_inv_get [OF this assms] show ?thesis by (simp add: session_inv_def)
qed

theorem hub_stays_bounded_witness:
  "\<exists>s. hm_get (hb_sessions (foldl (hub_step (\<lambda>_. [])) (hub_with_secret []) [(\<lambda>_. True, 5, OpSeen ''s'')])) ''s'' = Some s
     \<and> length (sh_queue s) \<le> QUEUE_CAP"
proof -
  have "hm_get (hb_sessions (foldl (hub_step (\<lambda>_. [])) (hub_with_secret []) [(\<lambda>_. True, 5, OpSeen ''s'')])) ''s'' \<noteq> None"
    by (simp add: hub_step_def mark_seen_def touch_def put_session_def hub_with_secret_def)
  then show ?thesis using hub_stays_bounded by blast
qed

text \<open>Relays and interrupts attach to the main thread only: an event of a subagent delivers no
  message and is never answered with a stop, whatever the flags say. And an interrupt never outlives
  its turn: after \<open>Stop\<close>, \<open>StopFailure\<close>, a new prompt, the end of the session or a start that is not
  an auto-compaction it is no longer set, and a stop is answered only while it is.\<close>

theorem interrupts_stay_in_their_turn:
  assumes "handle_event alive hs ev now s = (s', out)"
  shows "(ev_agent_id ev \<noteq> None \<longrightarrow> oc_delivered out = [] \<and> oc_response out \<noteq> interrupt_output)
    \<and> (oc_response out = interrupt_output \<longrightarrow> sh_interrupt s \<and> ev_name ev \<in> {''PreToolUse'', ''PostToolUse''})
    \<and> ((ev_name ev \<in> {''Stop'', ''StopFailure''} \<and> ev_agent_id ev = None)
        \<or> (ev_name ev = ''UserPromptSubmit'' \<and> ev_agent_id ev = None
             \<and> (ev_prompt_id ev = None \<or> ev_prompt_id ev \<noteq> sh_last_prompt_id s))
        \<or> ev_name ev = ''SessionEnd'' \<or> (ev_name ev = ''SessionStart'' \<and> ev_source ev \<noteq> Some ''compact'')
        \<longrightarrow> \<not> sh_interrupt s')"
  using assms
proof (cases rule: handle_event_split)
  case 1
  then show ?thesis using pre_tool_interrupt [OF 1(2)] by auto
next
  case 2
  then show ?thesis using post_tool_interrupt [OF 2(2)] by auto
next
  case 3
  then show ?thesis using stop_interrupt [OF 3(3)] by auto
next
  case 4
  then show ?thesis using user_prompt_interrupt [OF 4(3)] by auto
next
  case 5
  then show ?thesis by (auto simp: on_session_start_def Let_def split: if_splits)
next
  case 6
  then show ?thesis by (auto simp: on_session_end_def Let_def)
next
  case 7
  then show ?thesis by (auto simp: on_subagent_start_def split: option.splits)
next
  case 8
  then show ?thesis by (auto simp: on_subagent_stop_def split: option.splits)
next
  case 9
  then show ?thesis by auto
qed

theorem interrupts_stay_in_their_turn_witness:
  "\<not> sh_interrupt (fst (handle_event (\<lambda>_. True) []
      \<lparr>ev_name = ''Stop'', ev_session = ''s'', ev_agent_id = None, ev_agent_type = None, ev_tool_use_id = None,
       ev_tool_name = None, ev_input_key = None, ev_prompt_id = None, ev_prompt = None,
       ev_permission_mode = None, ev_source = None, ev_pid = None\<rparr> 5 ((session_new ''k'')\<lparr>sh_interrupt := True\<rparr>)))"
  using interrupts_stay_in_their_turn [where alive = "\<lambda>_. True" and hs = "[]" and now = 5 and s = "(session_new ''k'')\<lparr>sh_interrupt := True\<rparr>" and ev =
      "\<lparr>ev_name = ''Stop'', ev_session = ''s'', ev_agent_id = None, ev_agent_type = None, ev_tool_use_id = None,
       ev_tool_name = None, ev_input_key = None, ev_prompt_id = None, ev_prompt = None,
       ev_permission_mode = None, ev_source = None, ev_pid = None\<rparr>", OF prod.collapse [symmetric]]
  by simp

text \<open>An event withdraws the held prompts it answers, all of them, and no others: the end of a turn
  every prompt of the main thread, the end of a subagent its own, the end of the session all of its
  prompts, a finished call the prompts for that call (or else one uncorrelated prompt for the same
  agent, tool and input); never a prompt of another session.\<close>

theorem withdrawals_are_exact:
  assumes "handle_event alive hs ev now s = (s', out)"
  shows "(\<forall>(i, r) \<in> set (oc_withdraw out). \<exists>h. (i, h) \<in> set hs \<and> h_session h = ev_session ev
      \<and> (ev_name ev \<in> {''Stop'', ''StopFailure'', ''UserPromptSubmit''} \<longrightarrow> h_agent_id h = None)
      \<and> (ev_name ev = ''SubagentStop'' \<longrightarrow> h_agent_id h = ev_agent_id ev)
      \<and> (ev_name ev \<in> {''PostToolUse'', ''PostToolUseFailure'', ''PermissionDenied''} \<longrightarrow>
          h_tool_use_id h = ev_tool_use_id ev
          \<or> (h_tool_use_id h = None \<and> h_agent_id h = ev_agent_id ev \<and> ev_tool_name ev = Some (h_tool_name h)
             \<and> ev_input_key ev = Some (h_input_key h))))
    \<and> (\<forall>(i, h) \<in> set hs. h_session h = ev_session ev \<and>
        ((ev_name ev \<in> {''Stop'', ''StopFailure''} \<and> ev_agent_id ev = None \<and> h_agent_id h = None)
         \<or> ev_name ev = ''SessionEnd''
         \<or> (ev_name ev = ''SubagentStop'' \<and> ev_agent_id ev \<noteq> None \<and> h_agent_id h = ev_agent_id ev)
         \<or> (ev_name ev \<in> {''PostToolUse'', ''PostToolUseFailure'', ''PermissionDenied''}
              \<and> ev_tool_use_id ev \<noteq> None \<and> h_tool_use_id h = ev_tool_use_id ev))
        \<longrightarrow> i \<in> fst ` set (oc_withdraw out))"
proof (intro conjI ballI, goal_cases)
  case (1 x)
  obtain i r where x: "x = (i, r)" by (cases x)
  show ?case unfolding x prod.case using event_withdraws_held [OF assms 1 [unfolded x]] .
next
  case (2 x)
  obtain i h where x: "x = (i, h)" by (cases x)
  show ?case unfolding x prod.case
    by (intro impI, elim conjE) (rule turn_end_withdraws [OF assms 2 [unfolded x]])
qed

theorem withdrawals_are_exact_witness:
  "''p'' \<in> fst ` set (oc_withdraw (snd (handle_event (\<lambda>_. True)
      [(''p'', \<lparr>h_session = ''s'', h_agent_id = None, h_tool_use_id = None, h_tool_name = ''Bash'', h_input_key = 1,
        h_created_ms = 2, h_interrupt = True\<rparr>)]
      \<lparr>ev_name = ''SessionEnd'', ev_session = ''s'', ev_agent_id = None, ev_agent_type = None, ev_tool_use_id = None,
       ev_tool_name = None, ev_input_key = None, ev_prompt_id = None, ev_prompt = None,
       ev_permission_mode = None, ev_source = None, ev_pid = None\<rparr> 5 (session_new ''k''))))"
  using withdrawals_are_exact [where alive = "\<lambda>_. True" and now = 5 and s = "session_new ''k''" and hs =
      "[(''p'', \<lparr>h_session = ''s'', h_agent_id = None, h_tool_use_id = None, h_tool_name = ''Bash'', h_input_key = 1,
        h_created_ms = 2, h_interrupt = True\<rparr>)]" and ev =
      "\<lparr>ev_name = ''SessionEnd'', ev_session = ''s'', ev_agent_id = None, ev_agent_type = None, ev_tool_use_id = None,
       ev_tool_name = None, ev_input_key = None, ev_prompt_id = None, ev_prompt = None,
       ev_permission_mode = None, ev_source = None, ev_pid = None\<rparr>", OF prod.collapse [symmetric]]
  by simp

end
