(* ===== verification/AddrParse.thy ===== *)
theory AddrParse
  imports RustText RustNet
begin

text \<open>
  \<open>std::net\<close>'s text forms as far as the program reads them: \<open>FromStr\<close> of \<open>Ipv4Addr\<close>, \<open>Ipv6Addr\<close>,
  \<open>IpAddr\<close> and \<open>SocketAddr\<close> (of the last only the address), and the address classes it asks for.
  A reader takes a prefix of the text and returns the value with the rest; a parse must use up
  everything.
\<close>

type_synonym 'a reader = "str \<Rightarrow> ('a \<times> str) option"

definition to_digit :: "nat \<Rightarrow> char \<Rightarrow> nat option" where
  "to_digit radix c =
     (let d = (if is_ascii_digit c then byte c - 48
               else if 97 \<le> byte c \<and> byte c \<le> 122 then byte c - 87
               else if 65 \<le> byte c \<and> byte c \<le> 90 then byte c - 55
               else radix)
      in if d < radix then Some d else None)"

fun radix_val :: "nat \<Rightarrow> nat \<Rightarrow> str \<Rightarrow> nat" where
  "radix_val radix acc [] = acc"
| "radix_val radix acc (c # s) =
     radix_val radix (radix * acc + (case to_digit radix c of Some d \<Rightarrow> d | None \<Rightarrow> 0)) s"

text \<open>\<open>read_number\<close>: the longest run of digits; too many of them, a value that does not fit or a
  forbidden leading zero fail.\<close>

definition read_number :: "nat \<Rightarrow> nat option \<Rightarrow> bool \<Rightarrow> nat \<Rightarrow> nat reader" where
  "read_number radix max_digits zero_prefix maxv s =
     (let ds = takeWhile (\<lambda>c. to_digit radix c \<noteq> None) s;
          rest = dropWhile (\<lambda>c. to_digit radix c \<noteq> None) s;
          v = radix_val radix 0 ds
      in if (case max_digits of Some m \<Rightarrow> length ds > m | None \<Rightarrow> False) then None
         else if ds = [] then None
         else if \<not> zero_prefix \<and> byte (hd ds) = 48 \<and> length ds > 1 then None
         else if v \<le> maxv then Some (v, rest) else None)"

definition read_char :: "char \<Rightarrow> unit reader" where
  "read_char c s = (case s of d # rest \<Rightarrow> if d = c then Some ((), rest) else None | [] \<Rightarrow> None)"

text \<open>\<open>read_separator\<close>: the separator before every element but the first.\<close>

definition read_sep :: "char \<Rightarrow> nat \<Rightarrow> 'a reader \<Rightarrow> 'a reader" where
  "read_sep c i f s =
     (if i = 0 then f s else Option.bind (read_char c s) (\<lambda>(_, s). f s))"

fun read_octets :: "nat \<Rightarrow> nat \<Rightarrow> nat list reader" where
  "read_octets 0 i s = Some ([], s)"
| "read_octets (Suc n) i s =
     Option.bind (read_sep (CHR ''.'') i (read_number 10 (Some 3) False 255) s)
       (\<lambda>(v, s). Option.bind (read_octets n (Suc i) s) (\<lambda>(vs, s). Some (v # vs, s)))"

definition v4_of_octets :: "nat list \<Rightarrow> 32 word" where
  "v4_of_octets os = foldl (\<lambda>a x. 256 * a + of_nat x) 0 os"

definition read_ipv4 :: "nat list reader" where
  "read_ipv4 s = read_octets 4 0 s"

text \<open>\<open>read_groups\<close>: up to \<open>limit\<close> groups from index \<open>i\<close>; an embedded IPv4 address takes the place
  of two and ends them. Gives the groups, whether they ended in an IPv4 address, and the rest.\<close>

function read_groups :: "nat \<Rightarrow> nat \<Rightarrow> str \<Rightarrow> nat list \<times> bool \<times> str" where
  "read_groups limit i s =
     (if i \<ge> limit then ([], False, s)
      else case (if i + 1 < limit then read_sep (CHR '':'') i read_ipv4 s else None) of
        Some (os, s') \<Rightarrow> ([256 * (os ! 0) + os ! 1, 256 * (os ! 2) + os ! 3], True, s')
      | None \<Rightarrow>
          (case read_sep (CHR '':'') i (read_number 16 (Some 4) True 65535) s of
             Some (g, s') \<Rightarrow> (let (gs, v4, s'') = read_groups limit (Suc i) s' in (g # gs, v4, s''))
           | None \<Rightarrow> ([], False, s)))"
  by pat_completeness auto
termination
  by (relation "measure (\<lambda>(limit, i, s). limit - i)") auto

declare read_groups.simps [simp del]

definition v6_of_groups :: "nat list \<Rightarrow> 128 word" where
  "v6_of_groups gs = foldl (\<lambda>a g. 65536 * a + of_nat g) 0 gs"

definition read_ipv6 :: "128 word reader" where
  "read_ipv6 s =
     (let (head, v4, s1) = read_groups 8 0 s
      in if length head = 8 then Some (v6_of_groups head, s1)
         else if v4 then None
         else Option.bind (read_char (CHR '':'') s1) (\<lambda>(_, s2).
              Option.bind (read_char (CHR '':'') s2) (\<lambda>(_, s3).
                let (tail, _, s4) = read_groups (8 - (length head + 1)) 0 s3
                in Some (v6_of_groups (head @ replicate (8 - length head - length tail) 0 @ tail), s4))))"

definition read_ip :: "ip_addr reader" where
  "read_ip s =
     (case read_ipv4 s of
        Some (os, r) \<Rightarrow> Some (V4 (v4_of_octets os), r)
      | None \<Rightarrow> map_option (\<lambda>(v, r). (V6 v, r)) (read_ipv6 s))"

text \<open>\<open>read_port\<close>\<close>

definition read_port :: "nat reader" where
  "read_port s = Option.bind (read_char (CHR '':'') s) (\<lambda>(_, s). read_number 10 None True 65535 s)"

definition skip_scope_id :: "str \<Rightarrow> str" where
  "skip_scope_id s =
     (case Option.bind (read_char (CHR ''%'') s) (\<lambda>(_, s). read_number 10 None True (2 ^ 32 - 1) s) of
        Some (_, r) \<Rightarrow> r | None \<Rightarrow> s)"

definition read_socket_v4 :: "ip_addr reader" where
  "read_socket_v4 s =
     Option.bind (read_ipv4 s) (\<lambda>(os, s).
     Option.bind (read_port s) (\<lambda>(_, s). Some (V4 (v4_of_octets os), s)))"

definition read_socket_v6 :: "ip_addr reader" where
  "read_socket_v6 s =
     Option.bind (read_char (CHR ''['') s) (\<lambda>(_, s).
     Option.bind (read_ipv6 s) (\<lambda>(v, s).
     Option.bind (read_char (CHR '']'') (skip_scope_id s)) (\<lambda>(_, s).
     Option.bind (read_port s) (\<lambda>(_, s). Some (V6 v, s)))))"

definition read_socket :: "ip_addr reader" where
  "read_socket s = (case read_socket_v4 s of Some r \<Rightarrow> Some r | None \<Rightarrow> read_socket_v6 s)"

definition parse_with :: "'a reader \<Rightarrow> str \<Rightarrow> 'a option" where
  "parse_with f s = (case f s of Some (v, []) \<Rightarrow> Some v | _ \<Rightarrow> None)"

definition parse_ipv4 :: "str \<Rightarrow> 32 word option" where
  "parse_ipv4 s = (if length s > 15 then None else map_option v4_of_octets (parse_with read_ipv4 s))"

definition parse_ipv6 :: "str \<Rightarrow> 128 word option" where
  "parse_ipv6 s = parse_with read_ipv6 s"

definition parse_ip :: "str \<Rightarrow> ip_addr option" where
  "parse_ip s = parse_with read_ip s"

definition parse_socket_ip :: "str \<Rightarrow> ip_addr option" where
  "parse_socket_ip s = parse_with read_socket s"

section \<open>Address classes\<close>

fun ip_is_unspecified :: "ip_addr \<Rightarrow> bool" where
  "ip_is_unspecified (V4 v) \<longleftrightarrow> v = 0"
| "ip_is_unspecified (V6 v) \<longleftrightarrow> v = 0"

fun ip_is_multicast :: "ip_addr \<Rightarrow> bool" where
  "ip_is_multicast (V4 v) \<longleftrightarrow> 224 \<le> v4_octet v 0 \<and> v4_octet v 0 \<le> 239"
| "ip_is_multicast (V6 v) \<longleftrightarrow> drop_bit 120 v = 0xff"

definition v4_is_broadcast :: "32 word \<Rightarrow> bool" where
  "v4_is_broadcast v \<longleftrightarrow> v = 0xffffffff"

definition v4_is_private :: "32 word \<Rightarrow> bool" where
  "v4_is_private v \<longleftrightarrow> v4_octet v 0 = 10
     \<or> (v4_octet v 0 = 172 \<and> 16 \<le> v4_octet v 1 \<and> v4_octet v 1 \<le> 31)
     \<or> (v4_octet v 0 = 192 \<and> v4_octet v 1 = 168)"

definition v4_is_link_local :: "32 word \<Rightarrow> bool" where
  "v4_is_link_local v \<longleftrightarrow> v4_octet v 0 = 169 \<and> v4_octet v 1 = 254"

section \<open>What a parsed number or address is made of\<close>

lemma read_number_Some:
  assumes "read_number radix m z maxv s = Some (v, r)"
  shows "\<exists>ds. s = ds @ r \<and> ds \<noteq> [] \<and> (\<forall>c \<in> set ds. to_digit radix c \<noteq> None) \<and> v \<le> maxv"
proof -
  let ?P = "\<lambda>c. to_digit radix c \<noteq> None"
  have "s = takeWhile ?P s @ dropWhile ?P s" by simp
  moreover have "\<forall>c \<in> set (takeWhile ?P s). ?P c" using set_takeWhileD by fastforce
  ultimately show ?thesis using assms
    by (auto simp: read_number_def Let_def split: if_splits intro!: exI [of _ "takeWhile ?P s"])
qed

lemma read_char_Some: "read_char c s = Some (u, r) \<longleftrightarrow> s = c # r"
  by (auto simp: read_char_def split: list.splits)

lemma decimal_digit: "to_digit 10 c \<noteq> None \<Longrightarrow> is_ascii_digit c"
  by (auto simp: to_digit_def Let_def split: if_splits)

lemma hex_digit_alnum: "to_digit 16 c \<noteq> None \<Longrightarrow> is_ascii_alnum c"
  by (auto simp: to_digit_def Let_def is_ascii_alnum_def is_ascii_alpha_def split: if_splits)

lemma read_octets_Some:
  "read_octets n i s = Some (os, r) \<Longrightarrow>
     length os = n \<and> (\<forall>v \<in> set os. v \<le> 255)
     \<and> (\<exists>p. s = p @ r \<and> (\<forall>c \<in> set p. is_ascii_digit c \<or> c = CHR ''.''))"
proof (induction n arbitrary: i s os r)
  case (Suc n)
  from Suc.prems obtain v s1 vs where h: "read_sep (CHR ''.'') i (read_number 10 (Some 3) False 255) s = Some (v, s1)"
    and t: "read_octets n (Suc i) s1 = Some (vs, r)" and os: "os = v # vs"
    by (auto simp: bind_eq_Some_conv)
  obtain p where p: "s1 = p @ r" "\<forall>c \<in> set p. is_ascii_digit c \<or> c = CHR ''.''"
    and l: "length vs = n" "\<forall>v \<in> set vs. v \<le> 255" using Suc.IH [OF t] by blast
  have "\<exists>q. s = q @ s1 \<and> (\<forall>c \<in> set q. is_ascii_digit c \<or> c = CHR ''.'') \<and> v \<le> 255"
  proof (cases "i = 0")
    case True
    then show ?thesis using h read_number_Some [of 10 "Some 3" False 255 s v s1] decimal_digit
      by (fastforce simp: read_sep_def)
  next
    case False
    then obtain s0 where "s = CHR ''.'' # s0" "read_number 10 (Some 3) False 255 s0 = Some (v, s1)"
      using h by (auto simp: read_sep_def bind_eq_Some_conv read_char_Some)
    then show ?thesis using read_number_Some [of 10 "Some 3" False 255 s0 v s1] decimal_digit
      by (force intro: exI [of _ "CHR ''.'' # _"])
  qed
  then show ?case using p l os by force
qed simp

end
