(* ===== verification/AddrShow.thy ===== *)
theory AddrShow
  imports AddrParse
begin

text \<open>
  How \<open>std::net\<close> writes an address: \<open>Display\<close> of \<open>Ipv4Addr\<close> and \<open>Ipv6Addr\<close>. An IPv6 address is written
  with its first longest run of at least two zero segments as \<open>::\<close>, an IPv4-mapped one with the IPv4
  address at its end.
\<close>

definition show_ipv4 :: "32 word \<Rightarrow> str" where
  "show_ipv4 v = join ''.'' (map (\<lambda>i. show_nat (v4_octet v i)) [0..<4])"

fun show_hex :: "nat \<Rightarrow> str" where
  "show_hex n =
     (let d = n mod 16; c = char_of (if d < 10 then 48 + d else 87 + d)
      in if n < 16 then [c] else show_hex (n div 16) @ [c])"

declare show_hex.simps [simp del]

text \<open>The first longest run of zero segments: where it starts and how long it is.\<close>

fun zero_span :: "nat \<Rightarrow> nat \<Rightarrow> nat \<Rightarrow> nat \<times> nat \<Rightarrow> nat list \<Rightarrow> nat \<times> nat" where
  "zero_span i start len best [] = best"
| "zero_span i start len best (s # ss) =
     (if s = 0
      then let start = (if len = 0 then i else start)
           in zero_span (i + 1) start (len + 1) (if len + 1 > snd best then (start, len + 1) else best) ss
      else zero_span (i + 1) 0 0 best ss)"

definition show_segments :: "nat list \<Rightarrow> str" where
  "show_segments ss = join '':'' (map show_hex ss)"

definition show_ipv6 :: "128 word \<Rightarrow> str" where
  "show_ipv6 v =
     (let ss = map (v6_segment v) [0..<8];
          (start, len) = zero_span 0 0 0 (0, 0) ss
      in if drop_bit 32 v = 0xffff then ''::ffff:'' @ show_ipv4 (ucast v)
         else if len > 1 then show_segments (take start ss) @ ''::'' @ show_segments (drop (start + len) ss)
         else show_segments ss)"

fun show_ip :: "ip_addr \<Rightarrow> str" where
  "show_ip (V4 v) = show_ipv4 v"
| "show_ip (V6 v) = show_ipv6 v"

end
