(* ===== verification/Context.thy ===== *)
theory Context
  imports AddrParse RateLimit PendingModel
begin

unbundle bit_operations_syntax

text \<open>
  \<open>server/context.rs\<close>: who is asking, and from where. A \<open>HeaderMap\<close> is the list of its (lower-case
  name, value bytes) pairs in order; a \<open>SocketAddr\<close> is its address and port. The asynchronous
  \<open>middleware\<close>, which calls the authentication and the rest of the router, is not modelled.
\<close>

datatype ingress = IngLoopback | IngLan | IngTunnel | IngBridgeLoopback

fun ingress_as_str :: "ingress \<Rightarrow> str" where
  "ingress_as_str IngLoopback = ''loopback''"
| "ingress_as_str IngLan = ''lan''"
| "ingress_as_str IngTunnel = ''tunnel''"
| "ingress_as_str IngBridgeLoopback = ''bridge-loopback''"

datatype principal = Anonymous | Desktop | Device str bool | LocalScript | HookPlugin | Sidecar

fun is_user :: "principal \<Rightarrow> bool" where
  "is_user Desktop \<longleftrightarrow> True"
| "is_user (Device _ _) \<longleftrightarrow> True"
| "is_user LocalScript \<longleftrightarrow> True"
| "is_user _ \<longleftrightarrow> False"

fun principal_device_id :: "principal \<Rightarrow> str option" where
  "principal_device_id (Device i _) = Some i"
| "principal_device_id _ = None"

fun principal_label :: "principal \<Rightarrow> str" where
  "principal_label Anonymous = ''anonymous''"
| "principal_label Desktop = ''desktop''"
| "principal_label (Device _ _) = ''device''"
| "principal_label LocalScript = ''local-script''"
| "principal_label HookPlugin = ''hook''"
| "principal_label Sidecar = ''sidecar''"

type_synonym header_map = "(str \<times> str) list"

record socket_addr =
  sa_ip :: ip_addr
  sa_port :: nat

definition get_all :: "header_map \<Rightarrow> str \<Rightarrow> str list" where
  "get_all hs name = map snd (filter (\<lambda>(n, _). n = name) hs)"

text \<open>\<open>HeaderValue::to_str\<close>: visible ASCII, space and tab only.\<close>

definition to_str :: "str \<Rightarrow> str option" where
  "to_str v = (if \<forall>c \<in> set v. (32 \<le> byte c \<and> byte c < 127) \<or> byte c = 9 then Some v else None)"

section \<open>Proxy headers\<close>

definition PROXY_HEADERS :: "str list" where
  "PROXY_HEADERS = [''forwarded'', ''via'', ''x-real-ip'', ''true-client-ip'', ''cdn-loop'',
     ''x-client-ip'', ''x-cluster-client-ip'', ''fastly-client-ip'', ''fly-client-ip'',
     ''x-original-forwarded-for'', ''x-envoy-external-address'']"

definition PROXY_HEADER_PREFIXES :: "str list" where
  "PROXY_HEADER_PREFIXES = [''x-forwarded-'', ''cf-'', ''tailscale-'', ''ngrok-'']"

definition NGROK_SKIP_WARNING :: str where
  "NGROK_SKIP_WARNING = ''ngrok-skip-browser-warning''"

definition is_proxy_header :: "str \<Rightarrow> bool" where
  "is_proxy_header name \<longleftrightarrow>
     (if name = NGROK_SKIP_WARNING then False
      else name \<in> set PROXY_HEADERS \<or> (\<exists>p \<in> set PROXY_HEADER_PREFIXES. starts_with name p))"

definition has_proxy_headers :: "header_map \<Rightarrow> bool" where
  "has_proxy_headers hs \<longleftrightarrow> (\<exists>(n, _) \<in> set hs. is_proxy_header n)"

section \<open>Hosts and origins\<close>

definition port_ok_digits :: "str \<Rightarrow> bool" where
  "port_ok_digits p \<longleftrightarrow> p \<noteq> [] \<and> length p \<le> 5 \<and> list_all is_ascii_digit p"

definition port_ok :: "str \<Rightarrow> bool" where
  "port_ok after \<longleftrightarrow> after = []
     \<or> (case strip_prefix after '':'' of Some p \<Rightarrow> port_ok_digits p | None \<Rightarrow> False)"

definition split_authority :: "str \<Rightarrow> str option" where
  "split_authority authority =
     (let a = trim authority
      in if a = [] then None
         else case strip_prefix a ''['' of
           Some rest \<Rightarrow>
             (case split_once rest '']'' of
                Some (host, after) \<Rightarrow> if port_ok after then Some host else None
              | None \<Rightarrow> None)
         | None \<Rightarrow>
             (case split_once a '':'' of
                Some (host, port) \<Rightarrow> if \<not> contains port '':'' \<and> port_ok_digits port then Some host else None
              | None \<Rightarrow> Some a))"

definition host_name_is_loopback :: "str \<Rightarrow> bool \<Rightarrow> bool" where
  "host_name_is_loopback host bracketed \<longleftrightarrow>
     (if bracketed then parse_ipv6 host = Some 1
      else eq_ignore_ascii_case host ''localhost''
        \<or> (case parse_ipv4 host of Some ip \<Rightarrow> ip_is_loopback (V4 ip) | None \<Rightarrow> False))"

definition host_is_loopback :: "str option \<Rightarrow> bool" where
  "host_is_loopback host \<longleftrightarrow>
     (case host of
        None \<Rightarrow> False
      | Some h \<Rightarrow>
          let bracketed = starts_with (trim h) ''[''
          in case split_authority h of Some name \<Rightarrow> host_name_is_loopback name bracketed | None \<Rightarrow> False)"

definition origin_is_local :: "str \<Rightarrow> bool" where
  "origin_is_local origin \<longleftrightarrow>
     (case split_once (trim origin) ''://'' of
        None \<Rightarrow> False
      | Some (scheme, rest) \<Rightarrow>
          let scheme = to_ascii_lowercase scheme;
              authority = (case strip_suffix rest ''/'' of Some a \<Rightarrow> a | None \<Rightarrow> rest)
          in if authority = [] \<or> (\<exists>c \<in> set authority. c \<in> set ''/@?# '') then False
             else let bracketed = starts_with authority ''[''
                  in case split_authority authority of
                       None \<Rightarrow> False
                     | Some host \<Rightarrow>
                         if scheme = ''tauri'' then eq_ignore_ascii_case host ''localhost'' \<and> authority = host
                         else if scheme \<in> set [''http'', ''https'']
                         then (\<not> bracketed \<and> eq_ignore_ascii_case host ''tauri.localhost'')
                              \<or> host_name_is_loopback host bracketed
                         else False)"

definition single_loopback_host :: "header_map \<Rightarrow> bool" where
  "single_loopback_host hs \<longleftrightarrow>
     (case get_all hs ''host'' of [v] \<Rightarrow> host_is_loopback (to_str v) | _ \<Rightarrow> False)"

definition is_machine_local :: "ingress \<Rightarrow> socket_addr \<Rightarrow> header_map \<Rightarrow> bool" where
  "is_machine_local ing peer hs \<longleftrightarrow>
     ing \<in> {IngLoopback, IngBridgeLoopback} \<and> ip_is_loopback (to_canonical (sa_ip peer))
     \<and> single_loopback_host hs \<and> \<not> has_proxy_headers hs"

definition DEV_PROXY_HEADERS :: "str list" where
  "DEV_PROXY_HEADERS = [''x-forwarded-for'', ''x-forwarded-host'', ''x-forwarded-proto'',
     ''x-forwarded-port'', ''x-forwarded-prefix'']"

definition forwarded_hop_is_loopback :: "str \<Rightarrow> bool" where
  "forwarded_hop_is_loopback hop \<longleftrightarrow>
     (let hop = trim hop;
          bare = (case Option.bind (strip_prefix hop ''['') (\<lambda>h. map_option fst (split_once h '']'')) of
                    Some ip \<Rightarrow> ip | None \<Rightarrow> hop)
      in case or_else (parse_ip bare) (parse_socket_ip bare) of
           Some ip \<Rightarrow> ip_is_loopback (to_canonical ip) | None \<Rightarrow> False)"

text \<open>The closure \<open>entries\<close>: every comma-separated entry of every value, \<open>None\<close> if one is not text.\<close>

fun header_entries :: "str list \<Rightarrow> str list option" where
  "header_entries [] = Some []"
| "header_entries (v # vs) =
     (case to_str v of
        None \<Rightarrow> None
      | Some t \<Rightarrow> map_option (\<lambda>es. map trim (split_byte (CHR '','') t) @ es) (header_entries vs))"

definition is_local_dev_proxy :: "ingress \<Rightarrow> socket_addr \<Rightarrow> header_map \<Rightarrow> bool" where
  "is_local_dev_proxy ing peer hs \<longleftrightarrow>
     (if ing \<noteq> IngBridgeLoopback \<or> \<not> ip_is_loopback (to_canonical (sa_ip peer)) \<or> \<not> single_loopback_host hs
      then False
      else if \<exists>(n, _) \<in> set hs. is_proxy_header n \<and> n \<notin> set DEV_PROXY_HEADERS then False
      else case header_entries (get_all hs ''x-forwarded-for'') of
             None \<Rightarrow> False
           | Some hops \<Rightarrow>
               if hops = [] \<or> \<not> list_all forwarded_hop_is_loopback hops then False
               else (case header_entries (get_all hs ''x-forwarded-host'') of
                       Some hosts \<Rightarrow> list_all (\<lambda>h. host_is_loopback (Some h)) hosts
                     | None \<Rightarrow> False))"

definition single_origin :: "header_map \<Rightarrow> str option" where
  "single_origin hs =
     (case get_all hs ''origin'' of [v] \<Rightarrow> map_option trim (to_str v) | _ \<Rightarrow> None)"

definition is_local :: "ingress \<Rightarrow> socket_addr \<Rightarrow> header_map \<Rightarrow> bool" where
  "is_local ing peer hs \<longleftrightarrow>
     (if \<not> is_machine_local ing peer hs then False
      else case get_all hs ''origin'' of
             [] \<Rightarrow> True
           | [v] \<Rightarrow> (case to_str v of Some t \<Rightarrow> origin_is_local t | None \<Rightarrow> False)
           | _ \<Rightarrow> False)"

section \<open>Ingress and client address\<close>

definition is_private_ip :: "ip_addr \<Rightarrow> bool" where
  "is_private_ip ip \<longleftrightarrow>
     (case to_canonical ip of
        V4 v4 \<Rightarrow> v4_is_private v4 \<or> v4_is_link_local v4
      | V6 v6 \<Rightarrow> (v6_segment v6 0 AND 0xfe00) = 0xfc00 \<or> (v6_segment v6 0 AND 0xffc0) = 0xfe80)"

definition effective_ingress :: "ingress \<Rightarrow> socket_addr \<Rightarrow> header_map \<Rightarrow> ingress" where
  "effective_ingress ing peer hs =
     (if ing = IngTunnel \<or> has_proxy_headers hs then IngTunnel
      else if ing = IngLan \<and> \<not> is_private_ip (sa_ip peer) then IngTunnel
      else ing)"

definition header_values :: "header_map \<Rightarrow> str \<Rightarrow> str list" where
  "header_values hs name =
     filter (\<lambda>s. s \<noteq> []) (map trim (concat (map (split_byte (CHR '','')) (List.map_filter to_str (get_all hs name)))))"

definition last_opt :: "'a list \<Rightarrow> 'a option" where
  "last_opt xs = (if xs = [] then None else Some (last xs))"

definition last_forwarded :: "header_map \<Rightarrow> str \<Rightarrow> str option" where
  "last_forwarded hs name = last_opt (header_values hs name)"

definition trim_quotes :: "str \<Rightarrow> str" where
  "trim_quotes s = rev (dropWhile (\<lambda>c. byte c = 34) (rev (dropWhile (\<lambda>c. byte c = 34) s)))"

definition parse_forwarded_ip :: "str \<Rightarrow> ip_addr option" where
  "parse_forwarded_ip value =
     (let v = trim_quotes (trim value)
      in or_else (parse_ip v)
           (or_else (parse_socket_ip v)
             (or_else (Option.bind (map_option (\<lambda>r. hd (split_byte (CHR '']'') r)) (strip_prefix v ''['')) parse_ip)
               (map_option V4 (Option.bind (rsplit_once_byte v (CHR '':'')) (\<lambda>(h, _). parse_ipv4 h))))))"

text \<open>\<open>split(';').find_map(..)\<close>\<close>

definition for_pair :: "str \<Rightarrow> ip_addr option" where
  "for_pair pair =
     Option.bind (split_once pair ''='')
       (\<lambda>(k, v). if eq_ignore_ascii_case (trim k) ''for'' then parse_forwarded_ip v else None)"

fun find_map :: "('a \<Rightarrow> 'b option) \<Rightarrow> 'a list \<Rightarrow> 'b option" where
  "find_map f [] = None"
| "find_map f (x # xs) = (case f x of Some y \<Rightarrow> Some y | None \<Rightarrow> find_map f xs)"

definition forwarded_for :: "header_map \<Rightarrow> ip_addr option" where
  "forwarded_for hs =
     Option.bind (last_opt (header_values hs ''forwarded'')) (\<lambda>l. find_map for_pair (split_byte (CHR '';'') l))"

definition plausible_client :: "ip_addr \<Rightarrow> ip_addr option" where
  "plausible_client ip =
     (let ip = to_canonical ip;
          bogus = ip_is_loopback ip \<or> ip_is_unspecified ip \<or> ip_is_multicast ip
            \<or> (case ip of V4 v \<Rightarrow> v4_is_broadcast v | V6 _ \<Rightarrow> False)
      in if bogus then None else Some ip)"

definition forwarded_client :: "header_map \<Rightarrow> ip_addr option" where
  "forwarded_client hs =
     (case last_forwarded hs ''x-forwarded-for'' of
        Some l \<Rightarrow> Option.bind (parse_forwarded_ip l) plausible_client
      | None \<Rightarrow>
          if get_all hs ''forwarded'' \<noteq> [] then Option.bind (forwarded_for hs) plausible_client
          else Option.bind (Option.bind (last_opt (header_values hs ''cf-connecting-ip'')) parse_forwarded_ip)
                 plausible_client)"

definition client_ip :: "ingress \<Rightarrow> socket_addr \<Rightarrow> header_map \<Rightarrow> ip_addr" where
  "client_ip ing peer hs =
     (let peer_ip = to_canonical (sa_ip peer)
      in if \<not> ip_is_loopback peer_ip \<or> \<not> has_proxy_headers hs then peer_ip
         else case forwarded_client hs of Some ip \<Rightarrow> ip | None \<Rightarrow> peer_ip)"

definition ctx_rate_key :: "ingress \<Rightarrow> socket_addr \<Rightarrow> header_map \<Rightarrow> rate_key" where
  "ctx_rate_key ing peer hs =
     (let ip = client_ip ing peer hs;
          scope = (if is_machine_local ing peer hs then RateLocal
                   else if ip_is_loopback (to_canonical (sa_ip peer)) then RateForwarded
                   else RateDirect)
      in rate_key_new scope ip)"

definition is_auth_path :: "str \<Rightarrow> bool" where
  "is_auth_path p \<longleftrightarrow> starts_with p ''/api/'' \<or> p = ''/api'' \<or> starts_with p ''/hooks/''
     \<or> starts_with p ''/v1'' \<or> starts_with p ''/servers/''"

section \<open>The context\<close>

record client_context =
  cc_ingress :: ingress
  cc_effective_ingress :: ingress
  cc_proxied :: bool
  cc_peer :: socket_addr
  cc_client_ip :: ip_addr
  cc_rate_key :: rate_key
  cc_local :: bool
  cc_on_machine :: bool
  cc_origin :: "str option"
  cc_principal :: principal
  cc_allow_remote_dangerous :: bool
  cc_credential_rejected :: bool
  cc_danger :: "str option"

definition context_new :: "ingress \<Rightarrow> socket_addr \<Rightarrow> header_map \<Rightarrow> bool \<Rightarrow> client_context" where
  "context_new ing peer hs allow =
     \<lparr>cc_ingress = ing, cc_effective_ingress = effective_ingress ing peer hs,
      cc_proxied = has_proxy_headers hs, cc_peer = peer, cc_client_ip = client_ip ing peer hs,
      cc_rate_key = ctx_rate_key ing peer hs, cc_local = is_local ing peer hs,
      cc_on_machine = is_machine_local ing peer hs, cc_origin = single_origin hs,
      cc_principal = Anonymous, cc_allow_remote_dangerous = allow, cc_credential_rejected = False,
      cc_danger = None\<rparr>"

definition context_unknown :: client_context where
  "context_unknown =
     \<lparr>cc_ingress = IngLan, cc_effective_ingress = IngTunnel, cc_proxied = False,
      cc_peer = \<lparr>sa_ip = V4 0, sa_port = 0\<rparr>, cc_client_ip = V4 0,
      cc_rate_key = rate_key_new RateForwarded (V4 0), cc_local = False, cc_on_machine = False,
      cc_origin = None, cc_principal = Anonymous, cc_allow_remote_dangerous = False,
      cc_credential_rejected = False, cc_danger = None\<rparr>"

definition may_dangerous :: "client_context \<Rightarrow> bool" where
  "may_dangerous ctx \<longleftrightarrow>
     (case cc_principal ctx of
        Desktop \<Rightarrow> True
      | Device _ allow \<Rightarrow> allow \<or> (cc_allow_remote_dangerous ctx \<and> cc_effective_ingress ctx = IngLan)
      | Anonymous \<Rightarrow> cc_ingress ctx = IngBridgeLoopback \<and> cc_local ctx
      | LocalScript \<Rightarrow> cc_ingress ctx = IngBridgeLoopback \<and> cc_local ctx
      | HookPlugin \<Rightarrow> False
      | Sidecar \<Rightarrow> False)"

text \<open>\<open>DangerMarker::set\<close>: the first note stays, cut to 200 characters.\<close>

definition danger_set :: "str \<Rightarrow> str option \<Rightarrow> str option" where
  "danger_set what m = (if m = None then Some (take_chars 200 what) else m)"

definition note_dangerous :: "str \<Rightarrow> client_context \<Rightarrow> client_context" where
  "note_dangerous what ctx = ctx\<lparr>cc_danger := danger_set what (cc_danger ctx)\<rparr>"

definition is_desktop :: "client_context \<Rightarrow> bool" where
  "is_desktop ctx \<longleftrightarrow> cc_principal ctx = Desktop"

definition context_device_id :: "client_context \<Rightarrow> str option" where
  "context_device_id ctx = principal_device_id (cc_principal ctx)"

definition is_tunneled :: "client_context \<Rightarrow> bool" where
  "is_tunneled ctx \<longleftrightarrow> cc_effective_ingress ctx = IngTunnel"

section \<open>Where an authority is split\<close>

lemma find_from_char: "d \<notin> set a \<Longrightarrow> find_from i (a @ d # b) [d] = Some (i + length a)"
  by (induction a arbitrary: i) auto

lemma split_once_char: "d \<notin> set a \<Longrightarrow> split_once (a @ d # b) [d] = Some (a, b)"
  by (simp add: split_once_def find_str_def find_from_char)

lemma split_once_char_Some: "split_once s [d] = Some (a, b) \<longleftrightarrow> s = a @ d # b \<and> d \<notin> set a"
proof
  assume h: "split_once s [d] = Some (a, b)"
  then obtain i where i: "find_str s [d] = Some i" and ab: "a = take i s" "b = drop (Suc i) s"
    by (auto simp: split_once_def)
  have "d \<in> set s"
  proof (rule ccontr)
    assume "d \<notin> set s"
    then have "find_str s [d] = None" by (auto simp: find_str_None)
    with i show False by simp
  qed
  then obtain x y where xy: "s = x @ d # y" "d \<notin> set x" by (meson split_list_first)
  with i have "i = length x" by (simp add: find_str_def find_from_char)
  with xy ab show "s = a @ d # b \<and> d \<notin> set a" by simp
qed (auto intro: split_once_char)

lemma split_once_char_None: "split_once s [d] = None \<longleftrightarrow> d \<notin> set s"
  by (metis not_Some_eq old.prod.exhaust split_list_first split_once_char_Some in_set_conv_decomp)

lemma contains_char: "contains s [d] \<longleftrightarrow> d \<in> set s"
  by (auto simp: contains_iff in_set_conv_decomp)

lemma strip_prefix_char: "strip_prefix s [d] = Some r \<longleftrightarrow> s = d # r"
  by (auto simp: strip_prefix_def split: list.splits)

lemma strip_prefix_char_None: "strip_prefix s [d] = None \<longleftrightarrow> (\<nexists>r. s = d # r)"
  by (auto simp: strip_prefix_def split: list.splits)

text \<open>An authority is a host, in brackets or without a colon, and an optional port of one to five
  digits.\<close>

definition port_part :: "str \<Rightarrow> bool" where
  "port_part p \<longleftrightarrow> p = [] \<or> (\<exists>ds. p = CHR '':'' # ds \<and> port_ok_digits ds)"

lemma port_ok_iff: "port_ok p \<longleftrightarrow> port_part p"
  by (auto simp: port_ok_def port_part_def strip_prefix_char split: option.splits)
    (auto simp: strip_prefix_char_None)

lemma port_digits_no_colon: "port_ok_digits p \<Longrightarrow> CHR '':'' \<notin> set p"
  by (auto simp: port_ok_digits_def list_all_iff byte_simps)

lemma split_authority_Some:
  "split_authority s = Some host \<longleftrightarrow> trim s \<noteq> [] \<and>
     ((\<exists>p. trim s = CHR ''['' # host @ CHR '']'' # p \<and> CHR '']'' \<notin> set host \<and> port_part p)
      \<or> (\<exists>p. trim s = host @ p \<and> CHR '':'' \<notin> set host \<and> port_part p \<and> hd (trim s) \<noteq> CHR ''[''))"
  (is "?L \<longleftrightarrow> ?R")
proof (cases "\<exists>r. trim s = CHR ''['' # r")
  case True
  then obtain r where r: "trim s = CHR ''['' # r" by blast
  then have sp: "strip_prefix (trim s) ''['' = Some r" by (simp only: strip_prefix_char)
  have "?L \<longleftrightarrow> (\<exists>p. r = host @ CHR '']'' # p \<and> CHR '']'' \<notin> set host \<and> port_part p)"
  proof (cases "split_once r '']''")
    case None
    then have "CHR '']'' \<notin> set r" by (simp add: split_once_char_None)
    with None sp r show ?thesis by (auto simp: split_authority_def Let_def)
  next
    case (Some ab)
    obtain a b where ab: "ab = (a, b)" by (cases ab)
    have "?L \<longleftrightarrow> port_part b \<and> a = host"
      using sp r Some ab by (simp add: split_authority_def Let_def port_ok_iff)
    then show ?thesis using Some ab
      by (metis option.inject prod.inject split_once_char_Some)
  qed
  then show ?thesis using r by auto
next
  case False
  then have n: "strip_prefix (trim s) ''['' = None" by (simp add: strip_prefix_char_None)
  have hd: "trim s \<noteq> [] \<Longrightarrow> hd (trim s) \<noteq> CHR ''[''" using False by (cases "trim s") auto
  show ?thesis
  proof (cases "split_once (trim s) '':''")
    case None
    then have "CHR '':'' \<notin> set (trim s)" by (simp add: split_once_char_None)
    then show ?thesis using n None hd False
      by (auto simp: split_authority_def Let_def port_part_def)
  next
    case (Some ab)
    obtain a b where ab: "ab = (a, b)" by (cases ab)
    have s: "trim s = a @ CHR '':'' # b" "CHR '':'' \<notin> set a" using Some ab by (simp_all add: split_once_char_Some)
    have "?L \<longleftrightarrow> a = host \<and> CHR '':'' \<notin> set b \<and> port_ok_digits b"
      using n Some ab s(1) by (auto simp: split_authority_def Let_def contains_char)
    also have "\<dots> \<longleftrightarrow> a = host \<and> port_ok_digits b" using port_digits_no_colon by blast
    also have "\<dots> \<longleftrightarrow> (\<exists>p. trim s = host @ p \<and> CHR '':'' \<notin> set host \<and> port_part p)"
    proof
      assume "a = host \<and> port_ok_digits b"
      then show "\<exists>p. trim s = host @ p \<and> CHR '':'' \<notin> set host \<and> port_part p"
        using s by (auto simp: port_part_def)
    next
      assume "\<exists>p. trim s = host @ p \<and> CHR '':'' \<notin> set host \<and> port_part p"
      then obtain p where p: "trim s = host @ p" "CHR '':'' \<notin> set host" "port_part p" by blast
      then obtain ds where "p = CHR '':'' # ds" "port_ok_digits ds"
        using s by (auto simp: port_part_def)
      then show "a = host \<and> port_ok_digits b" using p s
        by (metis split_once_char_Some option.inject prod.inject)
    qed
    finally show ?thesis using hd False s(1) by auto
  qed
qed

text \<open>A host that names this machine: \<open>localhost\<close> in any case, an address of \<open>127.0.0.0/8\<close>, or the IPv6
  loopback address in brackets.\<close>

definition names_loopback :: "str \<Rightarrow> bool" where
  "names_loopback name \<longleftrightarrow> eq_ignore_ascii_case name ''localhost''
     \<or> (\<exists>ip. parse_ipv4 name = Some ip \<and> v4_octet ip 0 = 127)
     \<or> (\<exists>n. name = CHR ''['' # n @ '']'' \<and> CHR '']'' \<notin> set n \<and> parse_ipv6 n = Some 1)"

lemma parse_ipv4_chars:
  assumes "parse_ipv4 s = Some ip"
  shows "s \<noteq> []" "\<forall>c \<in> set s. is_ascii_digit c \<or> c = CHR ''.''"
proof -
  obtain os where r: "read_octets 4 0 s = Some (os, [])"
    using assms by (auto simp: parse_ipv4_def parse_with_def read_ipv4_def split: if_splits option.splits list.splits)
  from read_octets_Some [OF this] show "\<forall>c \<in> set s. is_ascii_digit c \<or> c = CHR ''.''" by auto
  show "s \<noteq> []"
  proof
    assume "s = []"
    with r show False by (simp add: numeral_eq_Suc read_sep_def read_number_def)
  qed
qed

lemma localhost_chars:
  assumes "eq_ignore_ascii_case s ''localhost''"
  shows "s \<noteq> []" "c \<in> set s \<Longrightarrow> lower_byte c \<in> set ''localhost''"
proof -
  have l: "map lower_byte s = to_ascii_lowercase ''localhost''"
    using assms by (simp only: eq_ignore_ascii_case_def to_ascii_lowercase_def)
  have e: "to_ascii_lowercase ''localhost'' = ''localhost''" by code_simp
  show "s \<noteq> []" using l e by auto
  show "lower_byte c \<in> set ''localhost''" if "c \<in> set s"
    using arg_cong [OF l, of set] e that by (metis image_eqI list.set_map)
qed

lemma plain_host_chars:
  assumes "eq_ignore_ascii_case s ''localhost'' \<or> parse_ipv4 s \<noteq> None"
  shows "s \<noteq> []" "CHR '':'' \<notin> set s" "hd s \<noteq> CHR ''[''"
proof -
  show n: "s \<noteq> []" using assms localhost_chars(1) parse_ipv4_chars(1) by blast
  have "c \<notin> {CHR '':'', CHR ''[''}" if "c \<in> set s" for c
  proof (cases "parse_ipv4 s")
    case None
    then have "lower_byte c \<in> set ''localhost''" using assms that localhost_chars(2) by blast
    then show ?thesis by (auto simp: lower_byte_def byte_def)
  next
    case (Some ip)
    then have "is_ascii_digit c \<or> c = CHR ''.''" using parse_ipv4_chars(2) that by blast
    then show ?thesis by (auto simp: byte_simps)
  qed
  then show "CHR '':'' \<notin> set s" "hd s \<noteq> CHR ''[''" using n hd_in_set by auto
qed

lemma host_name_plain:
  "host_name_is_loopback n False \<longleftrightarrow> eq_ignore_ascii_case n ''localhost''
     \<or> (\<exists>ip. parse_ipv4 n = Some ip \<and> v4_octet ip 0 = 127)"
  by (auto simp: host_name_is_loopback_def split: option.splits)

lemma starts_bracket: "starts_with s ''['' \<longleftrightarrow> (\<exists>r. s = CHR ''['' # r)"
  by (auto split: list.splits)

lemma loopback_authority:
  "(\<exists>host. split_authority s = Some host \<and> host_name_is_loopback host (starts_with (trim s) ''[''))
     \<longleftrightarrow> (\<exists>name p. trim s = name @ p \<and> port_part p \<and> names_loopback name)" (is "?L \<longleftrightarrow> ?R")
proof
  assume ?L
  then obtain host where h: "split_authority s = Some host" "host_name_is_loopback host (starts_with (trim s) ''['')"
    by blast
  show ?R
  proof (cases "\<exists>r. trim s = CHR ''['' # r")
    case True
    then obtain p where "trim s = CHR ''['' # host @ CHR '']'' # p" "CHR '']'' \<notin> set host" "port_part p"
      using h(1) unfolding split_authority_Some by auto
    moreover have "parse_ipv6 host = Some 1"
      using h(2) True by (simp add: host_name_is_loopback_def starts_bracket del: starts_with_Cons)
    ultimately show ?thesis
      by (intro exI [of _ "CHR ''['' # host @ '']''"] exI [of _ p]) (auto simp: names_loopback_def)
  next
    case False
    then obtain p where "trim s = host @ p" "port_part p" using h(1) unfolding split_authority_Some by auto
    moreover have "names_loopback host"
      using h(2) False by (simp add: starts_bracket host_name_plain names_loopback_def del: starts_with_Cons) blast
    ultimately show ?thesis by blast
  qed
next
  assume ?R
  then obtain name p where r: "trim s = name @ p" "port_part p" "names_loopback name" by blast
  show ?L
  proof (cases "\<exists>n. name = CHR ''['' # n @ '']'' \<and> CHR '']'' \<notin> set n \<and> parse_ipv6 n = Some 1")
    case True
    then obtain n where n: "name = CHR ''['' # n @ '']''" "CHR '']'' \<notin> set n" "parse_ipv6 n = Some 1" by blast
    then have "split_authority s = Some n" using r by (auto simp: split_authority_Some)
    then show ?thesis using n r by (auto simp: host_name_is_loopback_def)
  next
    case False
    then have w: "eq_ignore_ascii_case name ''localhost'' \<or> (\<exists>ip. parse_ipv4 name = Some ip \<and> v4_octet ip 0 = 127)"
      using r(3) by (auto simp: names_loopback_def)
    then have c: "name \<noteq> []" "CHR '':'' \<notin> set name" "hd name \<noteq> CHR ''[''" using plain_host_chars [of name] by auto
    then have "split_authority s = Some name" using r by (auto simp: split_authority_Some)
    moreover have "\<not> starts_with (trim s) ''[''" using c r by (cases name) auto
    ultimately show ?thesis using w host_name_plain by auto
  qed
qed

text \<open>C37: \<open>Host\<close> is taken for this machine exactly when it is \<open>localhost\<close>, an address of \<open>127.0.0.0/8\<close> or
  \<open>[::1]\<close>, followed by nothing but an optional port of one to five digits: no other name, suffix,
  user part or address form passes.\<close>

theorem host_is_loopback_exact:
  "host_is_loopback (Some h) \<longleftrightarrow> (\<exists>name p. trim h = name @ p \<and> port_part p \<and> names_loopback name)"
  unfolding loopback_authority [symmetric] by (auto simp: host_is_loopback_def Let_def split: option.splits)

lemma ws_len_visible: "\<forall>n \<in> set xs. 33 \<le> n \<and> n < 127 \<Longrightarrow> ws_len xs = 0"
  by (induction xs rule: ws_len.induct) auto

lemma trim_visible:
  assumes "\<forall>c \<in> set s. 33 \<le> byte c \<and> byte c < 127"
  shows "trim s = s"
proof -
  have w: "ws_len (map byte x) = 0" if "set x \<subseteq> set s" for x
    using assms that by (intro ws_len_visible) auto
  have "trim_start s = s"
  proof (cases s)
    case (Cons c t)
    then have "ws_len (map byte (take 3 (c # t))) = 0" by (intro w) (auto dest: in_set_takeD)
    then show ?thesis using Cons trim_start_Cons [of 0 c t] by simp
  qed simp
  moreover have "ws_len_end (map byte (drop (length s - 3) s)) = 0"
    by (simp add: ws_len_end_def Let_def drop_map w order.trans [OF set_drop_subset])
  then have "trim_end s = s" by (subst trim_end.simps) (simp add: Let_def)
  ultimately show ?thesis by (simp add: trim_def)
qed

lemma split_once_Some: "split_once s d = Some (a, b) \<Longrightarrow> s = a @ d @ b"
proof -
  assume h: "split_once s d = Some (a, b)"
  then obtain i where i: "find_str s d = Some i" and ab: "a = take i s" "b = drop (i + length d) s"
    by (auto simp: split_once_def)
  obtain x y where "s = x @ d @ y" "length x = i"
    using find_str_first [OF i] by (auto simp: occurs_at_iff)
  then show ?thesis using ab by simp
qed

text \<open>A page of another site is never local: an accepted \<open>Origin\<close> is a scheme of the app or of HTTP,
  then a host that names this machine (or the webview's \<open>tauri.localhost\<close>) with an optional port,
  and nothing else - no user part, path, query or fragment.\<close>

theorem local_origin_shape:
  assumes "origin_is_local origin" and "\<forall>c \<in> set origin. 33 \<le> byte c \<and> byte c < 127"
  shows "\<exists>scheme auth name p. origin \<in> {scheme @ ''://'' @ auth, scheme @ ''://'' @ auth @ ''/''}
    \<and> to_ascii_lowercase scheme \<in> {''tauri'', ''http'', ''https''}
    \<and> set auth \<inter> set ''/@?# '' = {} \<and> auth = name @ p \<and> port_part p
    \<and> (names_loopback name \<or> eq_ignore_ascii_case name ''tauri.localhost'')"
proof -
  have to: "trim origin = origin" using assms(2) by (rule trim_visible)
  obtain scheme rest where so: "split_once origin ''://'' = Some (scheme, rest)"
    using assms(1) to by (auto simp: origin_is_local_def split: option.splits)
  define auth where "auth = (case strip_suffix rest ''/'' of Some a \<Rightarrow> a | None \<Rightarrow> rest)"
  have o1: "origin = scheme @ ''://'' @ rest" using so by (rule split_once_Some)
  have r: "rest = auth \<or> rest = auth @ ''/''"
    by (auto simp: auth_def strip_suffix_def ends_with_iff split: option.splits if_splits)
  then have ta: "trim auth = auth" using assms(2) o1 by (intro trim_visible) auto
  obtain host where host: "split_authority auth = Some host" and chars: "set auth \<inter> set ''/@?# '' = {}"
    and scheme: "to_ascii_lowercase scheme \<in> {''tauri'', ''http'', ''https''}"
    and kinds: "(eq_ignore_ascii_case host ''localhost'' \<and> auth = host)
      \<or> (\<not> starts_with auth ''['' \<and> eq_ignore_ascii_case host ''tauri.localhost'')
      \<or> host_name_is_loopback host (starts_with auth ''['')"
  proof -
    have c: "auth \<noteq> []" "\<not> (\<exists>c \<in> set auth. c \<in> set ''/@?# '')"
      using assms(1) unfolding origin_is_local_def to so auth_def option.case prod.case Let_def
      by presburger+
    then obtain host where h: "split_authority auth = Some host"
      using assms(1) unfolding origin_is_local_def to so auth_def [symmetric] option.case prod.case Let_def
      by (cases "split_authority auth") (simp_all only: option.case if_False if_True split: if_splits)
    let ?s = "to_ascii_lowercase scheme"
    have k: "if ?s = ''tauri'' then eq_ignore_ascii_case host ''localhost'' \<and> auth = host
        else if ?s \<in> set [''http'', ''https'']
        then (\<not> starts_with auth ''['' \<and> eq_ignore_ascii_case host ''tauri.localhost'')
          \<or> host_name_is_loopback host (starts_with auth ''['') else False"
      using assms(1) c h unfolding origin_is_local_def to so auth_def [symmetric] option.case prod.case Let_def
      by (simp only: option.case if_False simp_thms)
    show thesis
      by (rule that [OF h]) (use c k in \<open>auto simp del: starts_with_Cons split: if_splits\<close>)
  qed
  have "\<exists>name p. auth = name @ p \<and> port_part p
      \<and> (names_loopback name \<or> eq_ignore_ascii_case name ''tauri.localhost'')"
    using kinds
  proof (elim disjE conjE)
    assume "eq_ignore_ascii_case host ''localhost''" "auth = host"
    then show ?thesis by (auto simp: names_loopback_def port_part_def intro: exI [of _ "[]"])
  next
    assume t: "\<not> starts_with auth ''[''" "eq_ignore_ascii_case host ''tauri.localhost''"
    then obtain p where "auth = host @ p" "port_part p"
      using host ta unfolding split_authority_Some by (auto simp: starts_bracket simp del: starts_with_Cons)
    with t(2) show ?thesis by blast
  next
    assume "host_name_is_loopback host (starts_with auth ''['')"
    with host ta loopback_authority [of auth] show ?thesis by auto
  qed
  then show ?thesis using r o1 chars scheme by blast
qed

theorem local_origin_shape_witness:
  "origin_is_local ''https://LocalHost:80/''
   \<and> (\<exists>scheme auth name p. ''https://LocalHost:80/'' \<in> {scheme @ ''://'' @ auth, scheme @ ''://'' @ auth @ ''/''}
      \<and> auth = name @ p \<and> port_part p)"
proof -
  have l: "origin_is_local ''https://LocalHost:80/''" by code_simp
  have "\<forall>c \<in> set ''https://LocalHost:80/''. 33 \<le> byte c \<and> byte c < 127" by code_simp
  from local_origin_shape [OF l this] l show ?thesis by blast
qed

section \<open>Rights and rate keys\<close>

lemma to_str_Some: "to_str v = Some t \<longleftrightarrow> t = v \<and> (\<forall>c \<in> set v. (32 \<le> byte c \<and> byte c < 127) \<or> byte c = 9)"
  by (auto simp: to_str_def)

lemma single_loopback_host_iff:
  "single_loopback_host hs \<longleftrightarrow> (\<exists>h. get_all hs ''host'' = [h] \<and> to_str h = Some h \<and> host_is_loopback (Some h))"
proof -
  have n: "\<not> host_is_loopback None" by (simp add: host_is_loopback_def)
  show ?thesis by (cases "get_all hs ''host''" rule: remdups_adj.cases)
      (simp_all add: single_loopback_host_def to_str_def n)
qed

lemma is_local_iff:
  "is_local ing peer hs \<longleftrightarrow> is_machine_local ing peer hs
     \<and> (get_all hs ''origin'' = [] \<or> (\<exists>v. get_all hs ''origin'' = [v] \<and> to_str v = Some v \<and> origin_is_local v))"
  by (auto simp: is_local_def to_str_def split: list.splits)

lemma effective_tunnel_iff:
  "effective_ingress ing peer hs = IngTunnel \<longleftrightarrow>
     ing = IngTunnel \<or> has_proxy_headers hs \<or> (ing = IngLan \<and> \<not> is_private_ip (sa_ip peer))"
  by (auto simp: effective_ingress_def)

lemma tunnel_not_local:
  "effective_ingress ing peer hs = IngTunnel \<Longrightarrow> \<not> is_machine_local ing peer hs \<and> \<not> is_local ing peer hs"
  by (auto simp: effective_tunnel_iff is_machine_local_def is_local_def)

lemma dev_proxy_has_header:
  assumes "is_local_dev_proxy ing peer hs"
  shows "has_proxy_headers hs" "ing = IngBridgeLoopback"
proof -
  obtain hops where "header_entries (get_all hs ''x-forwarded-for'') = Some hops" "hops \<noteq> []"
    using assms by (auto simp: is_local_dev_proxy_def split: if_splits option.splits)
  then have "get_all hs ''x-forwarded-for'' \<noteq> []" by auto
  then obtain v where "(''x-forwarded-for'', v) \<in> set hs"
    by (auto simp: get_all_def filter_empty_conv)
  moreover have "is_proxy_header ''x-forwarded-for''" by code_simp
  ultimately show "has_proxy_headers hs" unfolding has_proxy_headers_def by blast
  show "ing = IngBridgeLoopback" using assms by (simp add: is_local_dev_proxy_def split: if_splits)
qed

text \<open>C8: Who may do something dangerous, from the raw facts of a request: the desktop; a device with the
  grant, or on the private LAN without any proxy when the override is on; an anonymous caller or a
  local script only on the bridge port, from a loopback peer naming this machine, without any proxy
  header and without a foreign \<open>Origin\<close>; hooks and the sidecar never. A request through a tunnel or
  a proxy, also one a development server on this machine relayed, never has the rights of a place.\<close>

theorem dangerous_rights:
  fixes ing peer hs allow p
  defines "ctx \<equiv> (context_new ing peer hs allow)\<lparr>cc_principal := p\<rparr>"
  shows "(may_dangerous ctx \<longleftrightarrow> p = Desktop
      \<or> (\<exists>i g. p = Device i g \<and> (g \<or> (allow \<and> ing = IngLan \<and> is_private_ip (sa_ip peer) \<and> \<not> has_proxy_headers hs)))
      \<or> ((p = Anonymous \<or> p = LocalScript) \<and> ing = IngBridgeLoopback
          \<and> ip_is_loopback (to_canonical (sa_ip peer)) \<and> \<not> has_proxy_headers hs
          \<and> (\<exists>h. get_all hs ''host'' = [h] \<and> host_is_loopback (Some h) \<and> to_str h = Some h)
          \<and> (get_all hs ''origin'' = []
              \<or> (\<exists>v. get_all hs ''origin'' = [v] \<and> to_str v = Some v \<and> origin_is_local v))))
    \<and> (is_tunneled ctx \<or> is_local_dev_proxy ing peer hs \<longrightarrow>
        \<not> cc_local ctx \<and> \<not> cc_on_machine ctx \<and> rk_scope (cc_rate_key ctx) \<noteq> RateLocal
        \<and> (may_dangerous ctx \<longrightarrow> p = Desktop \<or> (\<exists>i. p = Device i True)))"
proof -
  have lan: "effective_ingress ing peer hs = IngLan \<longleftrightarrow> ing = IngLan \<and> is_private_ip (sa_ip peer) \<and> \<not> has_proxy_headers hs"
    by (auto simp: effective_ingress_def)
  have m: "may_dangerous ctx \<longleftrightarrow> p = Desktop
      \<or> (\<exists>i g. p = Device i g \<and> (g \<or> (allow \<and> effective_ingress ing peer hs = IngLan)))
      \<or> ((p = Anonymous \<or> p = LocalScript) \<and> ing = IngBridgeLoopback \<and> is_local ing peer hs)"
    by (cases p) (auto simp: may_dangerous_def ctx_def context_new_def)
  have t: "effective_ingress ing peer hs = IngTunnel" if "is_tunneled ctx \<or> is_local_dev_proxy ing peer hs"
    using that dev_proxy_has_header(1) by (auto simp: is_tunneled_def ctx_def context_new_def effective_tunnel_iff)
  have s: "rk_scope (ctx_rate_key ing peer hs) = RateLocal \<longleftrightarrow> is_machine_local ing peer hs"
    by (simp add: ctx_rate_key_def rate_key_new_def Let_def)
  have 2: "is_tunneled ctx \<or> is_local_dev_proxy ing peer hs \<longrightarrow>
      \<not> cc_local ctx \<and> \<not> cc_on_machine ctx \<and> rk_scope (cc_rate_key ctx) \<noteq> RateLocal
        \<and> (may_dangerous ctx \<longrightarrow> p = Desktop \<or> (\<exists>i. p = Device i True))"
  proof (intro impI)
    assume "is_tunneled ctx \<or> is_local_dev_proxy ing peer hs"
    then have e: "effective_ingress ing peer hs = IngTunnel" by (rule t)
    then have n: "\<not> is_machine_local ing peer hs" "\<not> is_local ing peer hs"
      using tunnel_not_local by blast+
    have "may_dangerous ctx \<longrightarrow> p = Desktop \<or> (\<exists>i. p = Device i True)" unfolding m using e n by auto
    then show "\<not> cc_local ctx \<and> \<not> cc_on_machine ctx \<and> rk_scope (cc_rate_key ctx) \<noteq> RateLocal
        \<and> (may_dangerous ctx \<longrightarrow> p = Desktop \<or> (\<exists>i. p = Device i True))"
      using n s by (simp add: ctx_def context_new_def)
  qed
  show ?thesis
    by (rule conjI [OF _ 2]) (unfold m lan is_local_iff is_machine_local_def single_loopback_host_iff, blast)
qed

theorem dangerous_rights_witness:
  "\<not> may_dangerous ((context_new IngLan \<lparr>sa_ip = V4 0x08080808, sa_port = 1\<rparr> [] True)\<lparr>cc_principal := Device ''d'' False\<rparr>)"
proof -
  have p: "\<not> is_private_ip (V4 0x08080808)" by code_simp
  have "is_tunneled ((context_new IngLan \<lparr>sa_ip = V4 0x08080808, sa_port = 1\<rparr> [] True)\<lparr>cc_principal := Device ''d'' False\<rparr>)"
    using p by (simp add: is_tunneled_def context_new_def effective_tunnel_iff)
  with dangerous_rights [where ing = IngLan and peer = "\<lparr>sa_ip = V4 0x08080808, sa_port = 1\<rparr>"
      and hs = "[]" and allow = True and p = "Device ''d'' False"]
  show ?thesis by blast
qed

lemma plausible_client_Some:
  "plausible_client ip = Some j \<Longrightarrow> j = to_canonical ip \<and> \<not> ip_is_loopback j \<and> \<not> ip_is_unspecified j \<and> \<not> ip_is_multicast j"
  by (auto simp: plausible_client_def Let_def split: if_splits)

lemma forwarded_client_plausible:
  "forwarded_client hs = Some j \<Longrightarrow> \<not> ip_is_loopback j \<and> \<not> ip_is_unspecified j \<and> \<not> ip_is_multicast j \<and> to_canonical j = j"
  by (auto simp: forwarded_client_def bind_eq_Some_conv split: option.splits if_splits
      dest!: plausible_client_Some)

lemma split_byte_append: "split_byte d (f @ d # l) = split_byte d f @ split_byte d l"
proof (induction f)
  case (Cons c f)
  then show ?case by (cases "split_byte d f") auto
qed simp



end
