(* ===== verification/Tokens.thy ===== *)
theory Tokens
  imports AddrShow Context Relay
begin

text \<open>
  \<open>server/auth.rs\<close>, first part: tokens, how they are compared, and what credential a request presents.
  SHA-256 is the parameter \<open>sha\<close>; the base64url text of fresh random bytes is an argument.
\<close>

unbundle bit_operations_syntax

definition DEVICE_PREFIX :: str where "DEVICE_PREFIX = ''mcd_''"
definition HOOK_PREFIX :: str where "HOOK_PREFIX = ''mch_''"
definition SIDECAR_PREFIX :: str where "SIDECAR_PREFIX = ''mcs_''"

text \<open>\<open>random_token\<close>: \<open>enc\<close> is the encoding of 32 random bytes.\<close>

definition random_token :: "str \<Rightarrow> str \<Rightarrow> str" where
  "random_token prefix enc = prefix @ enc"

definition sha256_hex :: "(str \<Rightarrow> str) \<Rightarrow> str \<Rightarrow> str" where
  "sha256_hex sha token = concat (map hex_byte (sha token))"

definition fingerprint :: "(str \<Rightarrow> str) \<Rightarrow> str \<Rightarrow> str" where
  "fingerprint sha token = ''sha256:'' @ take 8 (sha256_hex sha token)"

definition dangerous_blocked :: "bool \<Rightarrow> bool \<Rightarrow> bool \<Rightarrow> bool" where
  "dangerous_blocked dangerous local allow_remote \<longleftrightarrow> dangerous \<and> \<not> local \<and> \<not> allow_remote"

text \<open>\<open>token_matches\<close>: the differences of all bytes, gathered in one byte.\<close>

definition byte_diff :: "str \<Rightarrow> str \<Rightarrow> 8 word" where
  "byte_diff a b = foldl (\<lambda>d (x, y). d OR ((of_nat (byte x) :: 8 word) XOR of_nat (byte y))) 0 (zip a b)"

definition token_matches :: "str \<Rightarrow> str \<Rightarrow> bool" where
  "token_matches expected presented \<longleftrightarrow>
     (if length expected \<noteq> length presented then False else byte_diff expected presented = 0)"

section \<open>Decoding\<close>

text \<open>\<open>String::from_utf8_lossy\<close>: every maximal part of an ill-formed sequence becomes U+FFFD. The length of
  the well-formed character at the front, or of the part to replace.\<close>

definition replacement :: str where
  "replacement = map char_of [239, 191, 189 :: nat]"

definition second_ok :: "nat \<Rightarrow> nat \<Rightarrow> bool" where
  "second_ok a b \<longleftrightarrow>
     (if a = 224 then 160 \<le> b \<and> b \<le> 191
      else if a = 237 then 128 \<le> b \<and> b \<le> 159
      else if a = 240 then 144 \<le> b \<and> b \<le> 191
      else if a = 244 then 128 \<le> b \<and> b \<le> 143
      else 128 \<le> b \<and> b \<le> 191)"

definition utf8_width :: "nat \<Rightarrow> nat" where
  "utf8_width a =
     (if a < 128 then 1 else if 194 \<le> a \<and> a \<le> 223 then 2 else if 224 \<le> a \<and> a \<le> 239 then 3
      else if 240 \<le> a \<and> a \<le> 244 then 4 else 0)"

definition utf8_front :: "nat list \<Rightarrow> bool \<times> nat" where
  "utf8_front bs =
     (let a = hd bs; w = utf8_width a;
          good = length (takeWhile (\<lambda>(i, b). if i = (0 :: nat) then second_ok a b else 128 \<le> b \<and> b \<le> 191)
                           (List.enumerate 0 (take (w - 1) (tl bs))))
      in if w = 0 then (False, 1) else (good + 1 = w, good + 1))"

function from_utf8_lossy :: "str \<Rightarrow> str" where
  "from_utf8_lossy s =
     (if s = [] then []
      else let (ok, n) = utf8_front (map byte s)
           in (if ok then take n s else replacement) @ from_utf8_lossy (drop n s))"
  by pat_completeness auto
termination
  by (relation "measure length") (auto simp: utf8_front_def Let_def split: if_splits)

declare from_utf8_lossy.simps [simp del]

text \<open>\<open>urldecode\<close>, whose loop walks the bytes.\<close>

fun unescape :: "str \<Rightarrow> str" where
  "unescape (c # a # b # s) =
     (if byte c = 37
      then case (to_digit 16 a, to_digit 16 b) of
             (Some hi, Some lo) \<Rightarrow> char_of (hi * 16 + lo) # unescape s
           | _ \<Rightarrow> c # unescape (a # b # s)
      else c # unescape (a # b # s))"
| "unescape (c # s) = c # unescape s"
| "unescape [] = []"

definition urldecode :: "str \<Rightarrow> str" where
  "urldecode s = from_utf8_lossy (unescape s)"

section \<open>The presented credential\<close>

record uri =
  ur_path :: str
  ur_query :: "str option"

definition bearer_token :: "header_map \<Rightarrow> str option" where
  "bearer_token hs =
     (case get_all hs ''authorization'' of
        [] \<Rightarrow> None
      | v # _ \<Rightarrow>
          (case to_str v of
             None \<Rightarrow> None
           | Some s \<Rightarrow>
               let s = trim s
               in if length s > 7 \<and> eq_ignore_ascii_case (take 7 s) ''bearer ''
                  then let t = trim (drop 7 s) in if t \<noteq> [] then Some t else None
                  else None))"

definition query_token :: "str \<Rightarrow> str option" where
  "query_token q =
     find_map (\<lambda>pair. Option.bind (strip_prefix pair ''token='')
                 (\<lambda>v. let t = urldecode v in if t \<noteq> [] then Some t else None)) (split_byte (CHR ''&'') q)"

definition presented_token :: "header_map \<Rightarrow> uri \<Rightarrow> bool \<Rightarrow> str option" where
  "presented_token hs uri allow_query =
     (case bearer_token hs of
        Some t \<Rightarrow> Some t
      | None \<Rightarrow> if allow_query then Option.bind (ur_query uri) query_token else None)"

section \<open>Lemmas\<close>

lemma xor_zero: "x XOR y = 0 \<longleftrightarrow> x = (y :: 8 word)"
  by (metis xor.assoc xor.left_neutral xor.right_neutral xor_self_eq)

lemma byte_diff_fold:
  "length a = length b \<Longrightarrow>
     foldl (\<lambda>d (x, y). d OR ((of_nat (byte x) :: 8 word) XOR of_nat (byte y))) e (zip a b) = 0
       \<longleftrightarrow> e = 0 \<and> a = b"
proof (induction a b arbitrary: e rule: list_induct2)
  case (Cons x a y b)
  have "(of_nat (byte x) :: 8 word) = of_nat (byte y) \<longleftrightarrow> x = y"
    using byte_lt [of x] byte_lt [of y]
    by (simp add: word_of_nat_eq_iff take_bit_nat_eq_self) (simp add: byte_def)
  then show ?case using Cons.IH [of "e OR (of_nat (byte x) XOR of_nat (byte y))"]
    by (auto simp: or_eq_0_iff xor_zero)
qed simp

text \<open>The constant-time comparison is equality.\<close>

lemma token_matches_iff [simp]: "token_matches a b \<longleftrightarrow> a = b"
  using byte_diff_fold [of a b 0] by (auto simp: token_matches_def byte_diff_def)

end
