(* ===== verification/Devices.thy ===== *)
theory Devices
  imports Tokens "HOL-Library.Product_Lexorder"
begin

text \<open>
  \<open>server/devices.rs\<close> and \<open>server/devices/audit.rs\<close>: the registry of paired devices, with the hashes of
  their tokens and their grants, and the audit log. Wall-clock milliseconds (\<open>now\<close>), the monotonic
  clock (\<open>inst\<close>, nanoseconds), fresh ids and fresh tokens are arguments. What is handed to the writer of
  \<open>devices.json\<close> and appended to \<open>audit.jsonl\<close> is kept in the state; the writing itself is not modelled.
\<close>

definition DEFAULT_IDLE_DAYS :: nat where "DEFAULT_IDLE_DAYS = 30"
definition MAX_NAME_CHARS :: nat where "MAX_NAME_CHARS = 64"
definition RECENT_PER_DEVICE :: nat where "RECENT_PER_DEVICE = 20"
definition FLUSH_EVERY :: nat where "FLUSH_EVERY = 60 * SECOND"
definition DAY_MS :: int where "DAY_MS = 86400000"
definition RING :: nat where "RING = 500"

section \<open>Labels\<close>

text \<open>Control characters (C0, DEL, C1) become spaces.\<close>

fun blank_controls :: "str \<Rightarrow> str" where
  "blank_controls (a # b # s) =
     (if is_c1 a b then CHR '' '' # blank_controls s
      else (if byte a < 32 \<or> byte a = 127 then CHR '' '' else a) # blank_controls (b # s))"
| "blank_controls [a] = [if byte a < 32 \<or> byte a = 127 then CHR '' '' else a]"
| "blank_controls [] = []"

text \<open>\<open>split_whitespace\<close>: \<open>acc\<close> is the word being read, backwards.\<close>

fun split_ws :: "str \<Rightarrow> str \<Rightarrow> str list" where
  "split_ws acc [] = (if acc = [] then [] else [rev acc])"
| "split_ws acc (c # s) =
     (let n = ws_len (map byte (take 3 (c # s)))
      in if n = 0 then split_ws (c # acc) s
         else (if acc = [] then [] else [rev acc]) @ split_ws [] (drop (n - 1) s))"

definition sanitize_label :: "str \<Rightarrow> nat \<Rightarrow> str" where
  "sanitize_label raw max_chars = take_chars max_chars (join '' '' (split_ws [] (blank_controls raw)))"

definition device_name :: "str \<Rightarrow> str" where
  "device_name raw =
     (let n = sanitize_label raw MAX_NAME_CHARS in if n = [] then ''Unnamed device'' else n)"

section \<open>The audit log\<close>

record audit_entry =
  ad_at :: int
  ad_action :: str
  ad_principal :: "str option"
  ad_device_id :: "str option"
  ad_device_name :: "str option"
  ad_ingress :: "str option"
  ad_effective_ingress :: "str option"
  ad_client_ip :: "str option"
  ad_method :: "str option"
  ad_path :: "str option"
  ad_status :: "nat option"
  ad_dangerous :: "str option"
  ad_detail :: "json option"

definition audit_now :: "int \<Rightarrow> audit_entry" where
  "audit_now now = \<lparr>ad_at = now, ad_action = [], ad_principal = None, ad_device_id = None,
     ad_device_name = None, ad_ingress = None, ad_effective_ingress = None, ad_client_ip = None,
     ad_method = None, ad_path = None, ad_status = None, ad_dangerous = None, ad_detail = None\<rparr>"

definition audit_from_ctx :: "int \<Rightarrow> client_context \<Rightarrow> str \<Rightarrow> audit_entry" where
  "audit_from_ctx now ctx action =
     (audit_now now)\<lparr>ad_action := action, ad_principal := Some (principal_label (cc_principal ctx)),
        ad_device_id := context_device_id ctx, ad_ingress := Some (ingress_as_str (cc_ingress ctx)),
        ad_effective_ingress := Some (ingress_as_str (cc_effective_ingress ctx)),
        ad_client_ip := Some (show_ip (cc_client_ip ctx))\<rparr>"

record audit_log =
  lg_has_file :: bool
  lg_written :: "audit_entry list"
  lg_ring :: "audit_entry list"

definition audit_log_new :: "bool \<Rightarrow> audit_log" where
  "audit_log_new has_file = \<lparr>lg_has_file = has_file, lg_written = [], lg_ring = []\<rparr>"

definition audit_record :: "audit_entry \<Rightarrow> audit_log \<Rightarrow> audit_log" where
  "audit_record e l =
     (let l = (if lg_has_file l then l\<lparr>lg_written := lg_written l @ [e]\<rparr> else l);
          ring = lg_ring l @ [e]
      in l\<lparr>lg_ring := drop (length ring - RING) ring\<rparr>)"

definition audit_recent :: "nat \<Rightarrow> audit_log \<Rightarrow> audit_entry list" where
  "audit_recent limit l = drop (length (lg_ring l) - limit) (lg_ring l)"

section \<open>Records\<close>

record device_auth =
  da_id :: str
  da_name :: str
  da_allow_dangerous :: bool

record recent_action =
  ra_at :: int
  ra_action :: str
  ra_status :: "nat option"
  ra_ip :: "str option"
  ra_ingress :: "str option"
  ra_dangerous :: bool

record device_info =
  di_id :: str
  di_name :: str
  di_platform :: str
  di_created_at :: int
  di_last_seen_at :: "int option"
  di_last_ip :: "str option"
  di_ingress :: "str option"
  di_paired_via :: "str option"
  di_user_agent :: "str option"
  di_allow_dangerous :: bool
  di_allow_dangerous_internet :: bool
  di_revoked :: bool
  di_revoked_at :: "int option"
  di_revoke_reason :: "str option"
  di_expires_at :: "int option"
  di_token_count :: nat
  di_sockets :: nat
  di_recent :: "recent_action list"

record device_record =
  dr_id :: str
  dr_name :: str
  dr_platform :: str
  dr_user_agent :: "str option"
  dr_token_sha256 :: str
  dr_extra_token_sha256 :: "str list"
  dr_created_at :: int
  dr_last_seen_at :: "int option"
  dr_last_ip :: "str option"
  dr_ingress :: "str option"
  dr_paired_via :: "str option"
  dr_allow_dangerous :: bool
  dr_allow_dangerous_internet :: bool
  dr_revoked :: bool
  dr_revoked_at :: "int option"
  dr_revoke_reason :: "str option"
  dr_extra :: "(str \<times> json) list"

definition device_record_default :: device_record where
  "device_record_default = \<lparr>dr_id = [], dr_name = [], dr_platform = [], dr_user_agent = None,
     dr_token_sha256 = [], dr_extra_token_sha256 = [], dr_created_at = 0, dr_last_seen_at = None,
     dr_last_ip = None, dr_ingress = None, dr_paired_via = None, dr_allow_dangerous = False,
     dr_allow_dangerous_internet = False, dr_revoked = False, dr_revoked_at = None,
     dr_revoke_reason = None, dr_extra = []\<rparr>"

definition hashes :: "device_record \<Rightarrow> str list" where
  "hashes d = dr_token_sha256 d # dr_extra_token_sha256 d"

definition record_matches :: "device_record \<Rightarrow> str \<Rightarrow> bool" where
  "record_matches d hash = foldl (\<lambda>hit h. hit \<or> (h \<noteq> [] \<and> token_matches h hash)) False (hashes d)"

definition idle_since :: "device_record \<Rightarrow> int" where
  "idle_since d =
     max (case dr_last_seen_at d of Some t \<Rightarrow> t | None \<Rightarrow> dr_created_at d) (dr_created_at d)"

section \<open>The store\<close>

record device_store =
  ds_has_path :: bool
  ds_devices :: "device_record list"
  ds_dirty :: bool
  ds_last_flush :: nat
  ds_idle_days :: nat
  ds_recent :: "(str, recent_action list) hmap"
  ds_saved :: "device_record list option"
  ds_audit :: audit_log
  ds_revocations :: "64 word"

text \<open>\<open>load\<close>: \<open>file\<close> is what was read (\<open>None\<close>: missing or corrupt), \<open>env\<close> the idle days of the environment.\<close>

definition store_load :: "bool \<Rightarrow> device_record list option \<Rightarrow> str option \<Rightarrow> nat \<Rightarrow> device_store" where
  "store_load has_dir file env inst =
     \<lparr>ds_has_path = has_dir,
      ds_devices = filter (\<lambda>d. dr_id d \<noteq> []) (if has_dir then case file of Some ds \<Rightarrow> ds | None \<Rightarrow> [] else []),
      ds_dirty = False, ds_last_flush = inst,
      ds_idle_days = (case opt_filter (\<lambda>d. d > 0) (Option.bind env (\<lambda>v. parse_uint (2 ^ 32 - 1) (trim v))) of
                        Some d \<Rightarrow> d | None \<Rightarrow> DEFAULT_IDLE_DAYS),
      ds_recent = [], ds_saved = None, ds_audit = audit_log_new has_dir, ds_revocations = 0\<rparr>"

definition persist_locked :: "nat \<Rightarrow> device_store \<Rightarrow> device_store" where
  "persist_locked inst s =
     (let s = s\<lparr>ds_dirty := False, ds_last_flush := inst\<rparr>
      in if ds_has_path s then s\<lparr>ds_saved := Some (ds_devices s)\<rparr> else s)"

definition ds_flush :: "nat \<Rightarrow> device_store \<Rightarrow> device_store" where
  "ds_flush inst s = (if ds_dirty s then persist_locked inst s else s)"

definition idle_ms :: "device_store \<Rightarrow> int" where
  "idle_ms s = int (ds_idle_days s) * DAY_MS"

definition ds_info :: "device_store \<Rightarrow> device_record \<Rightarrow> device_info" where
  "ds_info s d =
     \<lparr>di_id = dr_id d, di_name = dr_name d, di_platform = dr_platform d, di_created_at = dr_created_at d,
      di_last_seen_at = dr_last_seen_at d, di_last_ip = dr_last_ip d, di_ingress = dr_ingress d,
      di_paired_via = dr_paired_via d, di_user_agent = dr_user_agent d,
      di_allow_dangerous = dr_allow_dangerous d,
      di_allow_dangerous_internet = dr_allow_dangerous_internet d,
      di_revoked = dr_revoked d, di_revoked_at = dr_revoked_at d, di_revoke_reason = dr_revoke_reason d,
      di_expires_at = (if \<not> dr_revoked d then Some (idle_since d + idle_ms s) else None),
      di_token_count = (if dr_revoked d then 0 else length (filter (\<lambda>h. h \<noteq> []) (hashes d))),
      di_sockets = 0,
      di_recent = (case hm_get (ds_recent s) (dr_id d) of Some q \<Rightarrow> rev q | None \<Rightarrow> [])\<rparr>"

text \<open>The position of the first element with a property.\<close>

fun position :: "('a \<Rightarrow> bool) \<Rightarrow> 'a list \<Rightarrow> nat option" where
  "position P [] = None"
| "position P (x # xs) = (if P x then Some 0 else map_option Suc (position P xs))"

definition ds_authenticate :: "(str \<Rightarrow> str) \<Rightarrow> int \<Rightarrow> nat \<Rightarrow> str \<Rightarrow> ip_addr \<Rightarrow> ingress \<Rightarrow> device_store
    \<Rightarrow> device_store \<times> device_auth option" where
  "ds_authenticate sha now inst token ip ing s =
     (if \<not> starts_with token DEVICE_PREFIX then (s, None)
      else case position (\<lambda>d. record_matches d (sha256_hex sha token)) (ds_devices s) of
        None \<Rightarrow> (s, None)
      | Some i \<Rightarrow>
          let d = ds_devices s ! i
          in if dr_revoked d then (s, None)
             else if now - idle_since d > idle_ms s then (s, None)
             else let d = d\<lparr>dr_last_seen_at := Some now, dr_last_ip := Some (show_ip ip),
                            dr_ingress := Some (ingress_as_str ing)\<rparr>;
                      out = \<lparr>da_id = dr_id d, da_name = dr_name d,
                             da_allow_dangerous = (if ing = IngLan then dr_allow_dangerous d
                                                   else dr_allow_dangerous_internet d)\<rparr>;
                      s = s\<lparr>ds_devices := (ds_devices s)[i := d], ds_dirty := True\<rparr>;
                      s = (if inst - ds_last_flush s \<ge> FLUSH_EVERY then persist_locked inst s else s)
                  in (s, Some out))"

definition ds_get :: "str \<Rightarrow> device_store \<Rightarrow> device_info option" where
  "ds_get i s = map_option (ds_info s) (find (\<lambda>d. dr_id d = i) (ds_devices s))"

text \<open>Unrevoked first, then newest first; a stable sort.\<close>

definition ds_list :: "device_store \<Rightarrow> device_info list" where
  "ds_list s =
     sort_key (\<lambda>d. (di_revoked d, - di_created_at d)) (map (ds_info s) (ds_devices s))"

definition ds_active_count :: "device_store \<Rightarrow> nat" where
  "ds_active_count s = length (filter (\<lambda>d. \<not> dr_revoked d) (ds_devices s))"

text \<open>\<open>issue\<close>: \<open>enc\<close> and \<open>uuid\<close> are the randomness of the token and of the id.\<close>

definition ds_issue :: "(str \<Rightarrow> str) \<Rightarrow> str \<Rightarrow> str \<Rightarrow> int \<Rightarrow> nat \<Rightarrow> str \<Rightarrow> str \<Rightarrow> str option \<Rightarrow> ingress
    \<Rightarrow> ip_addr \<Rightarrow> device_store \<Rightarrow> device_store \<times> device_info \<times> str" where
  "ds_issue sha enc uuid now inst name platform user_agent paired_via ip s =
     (let token = random_token DEVICE_PREFIX enc;
          d = device_record_default\<lparr>dr_id := ''dev_'' @ uuid, dr_name := device_name name,
                dr_platform := sanitize_label platform 32,
                dr_user_agent := opt_filter (\<lambda>u. u \<noteq> []) (map_option (\<lambda>u. sanitize_label u 200) user_agent),
                dr_token_sha256 := sha256_hex sha token, dr_created_at := now, dr_last_seen_at := Some now,
                dr_last_ip := Some (show_ip ip), dr_ingress := Some (ingress_as_str paired_via),
                dr_paired_via := Some (ingress_as_str paired_via)\<rparr>;
          s = persist_locked inst (s\<lparr>ds_devices := ds_devices s @ [d]\<rparr>)
      in (s, ds_info s d, token))"

text \<open>The first unrevoked record of an id, changed; \<open>None\<close> when there is none.\<close>

definition ds_update :: "str \<Rightarrow> (device_record \<Rightarrow> device_record) \<Rightarrow> device_store
    \<Rightarrow> (device_store \<times> device_record) option" where
  "ds_update i f s =
     map_option (\<lambda>k. let d = f (ds_devices s ! k) in (s\<lparr>ds_devices := (ds_devices s)[k := d]\<rparr>, d))
       (position (\<lambda>d. dr_id d = i \<and> \<not> dr_revoked d) (ds_devices s))"

definition ds_add_token :: "(str \<Rightarrow> str) \<Rightarrow> str \<Rightarrow> int \<Rightarrow> nat \<Rightarrow> str \<Rightarrow> device_store
    \<Rightarrow> device_store \<times> str option" where
  "ds_add_token sha enc now inst i s =
     (let token = random_token DEVICE_PREFIX enc
      in case ds_update i (\<lambda>d. let extra = dr_extra_token_sha256 d @ [sha256_hex sha token];
                                   extra = (if length extra > 4 then tl extra else extra)
                               in d\<lparr>dr_extra_token_sha256 := extra, dr_last_seen_at := Some now\<rparr>) s of
           None \<Rightarrow> (s, None)
         | Some (s, _) \<Rightarrow> (persist_locked inst s, Some token))"

definition ds_rename :: "nat \<Rightarrow> str \<Rightarrow> str \<Rightarrow> device_store \<Rightarrow> device_store \<times> device_info option" where
  "ds_rename inst i name s =
     (case ds_update i (\<lambda>d. d\<lparr>dr_name := device_name name\<rparr>) s of
        None \<Rightarrow> (s, None)
      | Some (s, d) \<Rightarrow> let s = persist_locked inst s in (s, Some (ds_info s d)))"

definition ds_set_grants :: "nat \<Rightarrow> str \<Rightarrow> bool option \<Rightarrow> bool option \<Rightarrow> device_store
    \<Rightarrow> device_store \<times> device_info option" where
  "ds_set_grants inst i lan internet s =
     (case ds_update i (\<lambda>d.
             let d = (case lan of Some v \<Rightarrow> d\<lparr>dr_allow_dangerous := v\<rparr> | None \<Rightarrow> d)
             in case internet of Some v \<Rightarrow> d\<lparr>dr_allow_dangerous_internet := v\<rparr> | None \<Rightarrow> d) s of
        None \<Rightarrow> (s, None)
      | Some (s, d) \<Rightarrow> let s = persist_locked inst s in (s, Some (ds_info s d)))"

definition ds_revoke_record :: "int \<Rightarrow> nat \<Rightarrow> str \<Rightarrow> str \<Rightarrow> device_store \<Rightarrow> device_store \<times> bool" where
  "ds_revoke_record now inst i reason s =
     (case ds_update i (\<lambda>d. d\<lparr>dr_revoked := True, dr_revoked_at := Some now,
             dr_revoke_reason := Some reason, dr_token_sha256 := [], dr_extra_token_sha256 := [],
             dr_allow_dangerous := False, dr_allow_dangerous_internet := False\<rparr>) s of
        None \<Rightarrow> (s, False)
      | Some (s, _) \<Rightarrow>
          let s = persist_locked inst s in (s\<lparr>ds_revocations := ds_revocations s + 1\<rparr>, True))"

definition ds_is_active :: "str \<Rightarrow> device_store \<Rightarrow> bool" where
  "ds_is_active i s \<longleftrightarrow> list_ex (\<lambda>d. dr_id d = i \<and> \<not> dr_revoked d) (ds_devices s)"

definition ds_forget :: "nat \<Rightarrow> str \<Rightarrow> device_store \<Rightarrow> device_store \<times> bool" where
  "ds_forget inst i s =
     (let kept = filter (\<lambda>d. \<not> (dr_id d = i \<and> dr_revoked d)) (ds_devices s);
          removed = (length kept \<noteq> length (ds_devices s));
          s = s\<lparr>ds_devices := kept\<rparr>
      in if removed
         then let s = persist_locked inst (s\<lparr>ds_recent := hm_del i (ds_recent s)\<rparr>)
              in (s\<lparr>ds_revocations := ds_revocations s + 1\<rparr>, True)
         else (s, False))"

definition ds_set_idle_days :: "nat \<Rightarrow> device_store \<Rightarrow> device_store" where
  "ds_set_idle_days days s = s\<lparr>ds_idle_days := min (max days 1) 3650\<rparr>"

definition ds_expired_ids :: "int \<Rightarrow> device_store \<Rightarrow> str list" where
  "ds_expired_ids now s =
     map dr_id (filter (\<lambda>d. \<not> dr_revoked d \<and> now - idle_since d > idle_ms s) (ds_devices s))"

definition ds_note_action :: "str \<Rightarrow> recent_action \<Rightarrow> device_store \<Rightarrow> device_store" where
  "ds_note_action i a s =
     (if \<not> list_ex (\<lambda>d. dr_id d = i) (ds_devices s) then s
      else let q = (case hm_get (ds_recent s) i of Some q \<Rightarrow> q | None \<Rightarrow> []) @ [a]
           in s\<lparr>ds_recent := hm_put i (drop (length q - RECENT_PER_DEVICE) q) (ds_recent s)\<rparr>)"

definition ds_record :: "audit_entry \<Rightarrow> device_store \<Rightarrow> device_store" where
  "ds_record e s = s\<lparr>ds_audit := audit_record e (ds_audit s)\<rparr>"

end
