(* ===== verification/PairModel.thy ===== *)
theory PairModel
  imports Devices Ids
begin

text \<open>
  \<open>server/pairing.rs\<close>, first part: codes, pending pairs, and what happens to them under the lock of
  \<open>PairingState\<close>. Times are milliseconds since the epoch, random bytes are arguments.
\<close>

definition CODE_LEN :: nat where "CODE_LEN = 12"
definition CODE_TTL_MS :: int where "CODE_TTL_MS = 5 * 60 * 1000"
definition MAX_ACTIVE_CODES :: nat where "MAX_ACTIVE_CODES = 5"
definition PENDING_TTL_MS :: int where "PENDING_TTL_MS = 10 * 60 * 1000"
definition MAX_PENDING :: nat where "MAX_PENDING = 5"
definition MAX_FINGERPRINT_ATTEMPTS :: nat where "MAX_FINGERPRINT_ATTEMPTS = 3"
definition DECIDED_KEEP_MS :: int where "DECIDED_KEEP_MS = 10 * 60 * 1000"
definition POLL_SECRET_PREFIX :: str where "POLL_SECRET_PREFIX = ''mcps_''"
definition CROCKFORD :: str where "CROCKFORD = ''0123456789ABCDEFGHJKMNPQRSTVWXYZ''"

datatype code_target = TargetLan | TargetInternet | TargetSelf

fun target_as_str :: "code_target \<Rightarrow> str" where
  "target_as_str TargetLan = ''lan''"
| "target_as_str TargetInternet = ''internet''"
| "target_as_str TargetSelf = ''self''"

record code_use =
  cu_pending_id :: "str option"
  cu_device_id :: "str option"

record code =
  cd_code :: str
  cd_target :: code_target
  cd_device_id :: "str option"
  cd_expires_at :: int
  cd_used :: "code_use option"

datatype pending_status = PairPending | PairApproved | PairDenied | PairExpired

fun status_str :: "pending_status \<Rightarrow> str" where
  "status_str PairPending = ''pending''"
| "status_str PairApproved = ''approved''"
| "status_str PairDenied = ''denied''"
| "status_str PairExpired = ''expired''"

record pending_pair =
  pp_id :: str
  pp_poll_secret_sha :: str
  pp_fingerprint :: str
  pp_device_name :: str
  pp_platform :: str
  pp_user_agent :: "str option"
  pp_client_ip :: str
  pp_ingress :: ingress
  pp_provider :: "str option"
  pp_code_target :: code_target
  pp_created_at :: int
  pp_expires_at :: int
  pp_status :: pending_status
  pp_contested :: bool
  pp_fingerprint_attempts :: nat
  pp_decided_at :: "int option"
  pp_device_id :: "str option"
  pp_token :: "str option"

definition pp_live :: "int \<Rightarrow> pending_pair \<Rightarrow> bool" where
  "pp_live now p \<longleftrightarrow> pp_status p = PairPending \<and> now < pp_expires_at p"

definition opt_str :: "str option \<Rightarrow> json" where
  "opt_str x = (case x of Some s \<Rightarrow> JStr s | None \<Rightarrow> JNull)"

text \<open>\<open>view\<close>: neither the fingerprint nor the poll secret.\<close>

definition pp_view :: "pending_pair \<Rightarrow> json" where
  "pp_view p = obj
     [(''id'', JStr (pp_id p)), (''deviceName'', JStr (pp_device_name p)), (''platform'', JStr (pp_platform p)),
      (''userAgent'', opt_str (pp_user_agent p)), (''clientIp'', JStr (pp_client_ip p)),
      (''ingress'', JStr (ingress_as_str (pp_ingress p))), (''provider'', opt_str (pp_provider p)),
      (''codeTarget'', JStr (target_as_str (pp_code_target p))), (''createdAt'', JNum (pp_created_at p)),
      (''expiresAt'', JNum (pp_expires_at p)), (''status'', JStr (status_str (pp_status p))),
      (''contested'', JBool (pp_contested p)),
      (''fingerprintAttemptsLeft'', JNum (int (MAX_FINGERPRINT_ATTEMPTS - pp_fingerprint_attempts p)))]"

record pairing_state =
  ps_codes :: "code list"
  ps_pending :: "pending_pair list"

definition pairing_new :: pairing_state where
  "pairing_new = \<lparr>ps_codes = [], ps_pending = []\<rparr>"

text \<open>\<open>Inner::prune\<close>: expired codes go, waiting pairs past their time expire, decided ones are forgotten
  after a while. The flag says whether anything changed.\<close>

definition expire_pair :: "int \<Rightarrow> pending_pair \<Rightarrow> pending_pair" where
  "expire_pair now p =
     (if pp_status p = PairPending \<and> now \<ge> pp_expires_at p
      then p\<lparr>pp_status := PairExpired, pp_decided_at := Some now, pp_token := None\<rparr> else p)"

definition keep_pair :: "int \<Rightarrow> pending_pair \<Rightarrow> bool" where
  "keep_pair now p \<longleftrightarrow> pp_status p = PairPending
     \<or> now < (case pp_decided_at p of Some t \<Rightarrow> t | None \<Rightarrow> pp_expires_at p) + DECIDED_KEEP_MS"

definition pair_prune :: "int \<Rightarrow> pairing_state \<Rightarrow> pairing_state \<times> bool" where
  "pair_prune now g =
     (let codes = filter (\<lambda>c. now < cd_expires_at c) (ps_codes g);
          expired = map (expire_pair now) (ps_pending g);
          kept = filter (keep_pair now) expired
      in (g\<lparr>ps_codes := codes, ps_pending := kept\<rparr>,
          length (ps_codes g) \<noteq> length codes
            \<or> list_ex (\<lambda>p. pp_status p = PairPending \<and> now \<ge> pp_expires_at p) (ps_pending g)
            \<or> length expired \<noteq> length kept))"

definition pair_sweep :: "int \<Rightarrow> pairing_state \<Rightarrow> pairing_state \<times> bool" where
  "pair_sweep now g = pair_prune now g"

definition pending_views :: "int \<Rightarrow> pairing_state \<Rightarrow> pairing_state \<times> json list" where
  "pending_views now g =
     (let g = fst (pair_prune now g)
      in (g, map pp_view (sort_key (\<lambda>p. (pp_status p \<noteq> PairPending, pp_created_at p)) (ps_pending g))))"

definition pending_count :: "int \<Rightarrow> pairing_state \<Rightarrow> nat" where
  "pending_count now g = length (filter (pp_live now) (ps_pending g))"

text \<open>\<open>iter_mut().find(P)\<close> with a change to what it finds.\<close>

fun update_first :: "('a \<Rightarrow> bool) \<Rightarrow> ('a \<Rightarrow> 'a) \<Rightarrow> 'a list \<Rightarrow> 'a list" where
  "update_first P f [] = []"
| "update_first P f (x # xs) = (if P x then f x # xs else x # update_first P f xs)"

section \<open>Codes\<close>

definition new_code :: "nat list \<Rightarrow> str" where
  "new_code bytes = map (\<lambda>b. CROCKFORD ! (b mod 32)) bytes"

definition upper_byte :: "char \<Rightarrow> char" where
  "upper_byte c = (if 97 \<le> byte c \<and> byte c \<le> 122 then char_of (byte c - 32) else c)"

text \<open>\<open>normalize_code\<close>: the loop, with what was written so far.\<close>

fun normalize_loop :: "str \<Rightarrow> str \<Rightarrow> str option" where
  "normalize_loop out [] = (if length out = CODE_LEN then Some out else None)"
| "normalize_loop out (c # s) =
     (let c = upper_byte c
      in if c \<in> set [CHR '' '', CHR ''-'', CHR ''_'', CHR 0x09] then normalize_loop out s
         else let c = (if c = CHR ''O'' then CHR ''0'' else if c \<in> set [CHR ''I'', CHR ''L''] then CHR ''1'' else c)
              in if c \<notin> set CROCKFORD then None
                 else if length out + 1 > CODE_LEN then None
                 else normalize_loop (out @ [c]) s)"

definition normalize_code :: "str \<Rightarrow> str option" where
  "normalize_code raw = normalize_loop [] raw"

fun chunks :: "nat \<Rightarrow> 'a list \<Rightarrow> 'a list list" where
  "chunks n [] = []"
| "chunks n (x # xs) = (if n = 0 then [] else (x # take (n - 1) xs) # chunks n (drop (n - 1) xs))"

definition display_code :: "str \<Rightarrow> str" where
  "display_code code = join ''-'' (map from_utf8_lossy (chunks 4 code))"

text \<open>\<open>{n:04}\<close> of a number below 10000.\<close>

definition four_digits :: "nat \<Rightarrow> str" where
  "four_digits n = (let s = show_nat n in replicate (4 - length s) (CHR ''0'') @ s)"

definition new_fingerprint :: "nat list \<Rightarrow> str" where
  "new_fingerprint b = four_digits (foldr (\<lambda>x a. x + 256 * a) (take 4 b) 0 mod 10000)"

fun has_control :: "str \<Rightarrow> bool" where
  "has_control (a # b # s) \<longleftrightarrow> byte a < 32 \<or> byte a = 127 \<or> is_c1 a b \<or> has_control (b # s)"
| "has_control [a] \<longleftrightarrow> byte a < 32 \<or> byte a = 127"
| "has_control [] \<longleftrightarrow> False"

definition trim_end_slashes :: "str \<Rightarrow> str" where
  "trim_end_slashes s = rev (dropWhile (\<lambda>c. c = CHR ''/'') (rev s))"

definition validate_base_url :: "str \<Rightarrow> bool \<Rightarrow> api_error + str" where
  "validate_base_url raw https_only =
     (case split_once (trim_end_slashes (trim raw)) ''://'' of
        None \<Rightarrow> Inl (api_unprocessable ''invalid_url'' ''Use a full URL like https://example.com.'')
      | Some (scheme, rest) \<Rightarrow>
          let scheme = to_ascii_lowercase scheme;
              scheme_ok = (if scheme = ''https'' then True else if scheme = ''http'' then \<not> https_only else False)
          in if \<not> scheme_ok
             then Inl (api_unprocessable ''invalid_url''
                    (if https_only then ''The public URL must start with https://.''
                     else ''The URL must start with http:// or https://.''))
             else if rest = [] \<or> list_ex (\<lambda>c. c \<in> set (''/?#@ '' @ [CHR 0x5C])) rest \<or> length rest > 253
             then Inl (api_unprocessable ''invalid_url'' ''Give only the scheme, host and optional port (no path).'')
             else if has_control rest
             then Inl (api_unprocessable ''invalid_url'' ''Invalid characters in the URL.'')
             else Inr (scheme @ ''://'' @ rest))"

text \<open>The loop of \<open>create_code\<close> that makes room: as long as too many codes are unused, the oldest of them
  goes.\<close>

definition unused :: "code \<Rightarrow> bool" where
  "unused c \<longleftrightarrow> cd_used c = None"

function evict_codes :: "code list \<Rightarrow> code list" where
  "evict_codes cs =
     (if length (filter unused cs) < MAX_ACTIVE_CODES then cs
      else evict_codes (remove_first unused cs))"
  by pat_completeness auto
termination
proof (relation "measure (\<lambda>cs. length (filter unused cs))", simp_all only: wf_measure in_measure)
  fix cs assume "\<not> length (filter unused cs) < MAX_ACTIVE_CODES"
  then have "filter unused cs \<noteq> []" by (cases "filter unused cs") (auto simp: MAX_ACTIVE_CODES_def)
  then have "\<exists>c \<in> set cs. unused c" by (simp add: filter_empty_conv)
  then show "length (filter unused (remove_first unused cs)) < length (filter unused cs)"
    using length_filter_remove_first [of unused unused cs] by simp
qed

declare evict_codes.simps [simp del]

definition may_create :: "principal \<Rightarrow> code_target \<Rightarrow> bool" where
  "may_create p target \<longleftrightarrow>
     (case target of TargetSelf \<Rightarrow> (case p of Device _ _ \<Rightarrow> True | _ \<Rightarrow> False) | _ \<Rightarrow> p = Desktop)"

end
