(* ===== verification/Hub.thy ===== *)
theory Hub
  imports Prelude
begin

text \<open>
  \<open>server/ws.rs\<close>, the registry of connected sockets (\<open>Hub\<close>), what they subscribe to, and which devices
  have the app on screen (\<open>Presence\<close>). A close signal sent to a socket is recorded in the state. The
  atomic counters are naturals; instants are arguments.
\<close>

definition MAX_SOCKETS_PER_DEVICE :: nat where "MAX_SOCKETS_PER_DEVICE = 8"
definition CLOSE_UNAUTHORIZED :: nat where "CLOSE_UNAUTHORIZED = 4401"
definition CLOSE_REPLACED :: nat where "CLOSE_REPLACED = 4409"

record client_entry =
  ce_device_id :: "str option"
  ce_desktop :: bool
  ce_opened :: nat

type_synonym sub_key = "str \<times> str option"

record hub =
  hu_next_id :: nat
  hu_clients :: "(nat, client_entry) hmap"
  hu_sub_counts :: "(sub_key, nat) hmap"
  hu_fleet_subs :: nat
  hu_inbox_subs :: nat
  hu_closed :: "(nat \<times> nat) list"

definition hub_new :: hub where
  "hub_new = \<lparr>hu_next_id = 0, hu_clients = [], hu_sub_counts = [], hu_fleet_subs = 0,
     hu_inbox_subs = 0, hu_closed = []\<rparr>"

definition sockets_of :: "str \<Rightarrow> hub \<Rightarrow> (nat \<times> client_entry) list" where
  "sockets_of dev h = filter (\<lambda>(_, c). ce_device_id c = Some dev) (hu_clients h)"

definition close_socket :: "nat \<Rightarrow> nat \<Rightarrow> hub \<Rightarrow> hub" where
  "close_socket code i h =
     (if hm_has (hu_clients h) i
      then h\<lparr>hu_clients := hm_del i (hu_clients h), hu_closed := hu_closed h @ [(i, code)]\<rparr> else h)"

text \<open>\<open>register\<close>: the oldest sockets of the device go until there is room for one more.\<close>

definition hub_register :: "nat \<Rightarrow> str option \<Rightarrow> bool \<Rightarrow> hub \<Rightarrow> hub \<times> nat" where
  "hub_register now device_id desktop h =
     (let i = hu_next_id h + 1;
          h = h\<lparr>hu_next_id := i\<rparr>;
          h = (case device_id of
                 None \<Rightarrow> h
               | Some dev \<Rightarrow>
                   let same = map fst (sort_key (\<lambda>(_, c). ce_opened c) (sockets_of dev h))
                   in fold (close_socket CLOSE_REPLACED)
                        (take (length same + 1 - MAX_SOCKETS_PER_DEVICE) same) h)
      in (h\<lparr>hu_clients := hm_put i \<lparr>ce_device_id = device_id, ce_desktop = desktop, ce_opened = now\<rparr>
               (hu_clients h)\<rparr>, i))"

definition hub_unregister :: "nat \<Rightarrow> hub \<Rightarrow> hub" where
  "hub_unregister i h = h\<lparr>hu_clients := hm_del i (hu_clients h)\<rparr>"

definition hub_close_device :: "str \<Rightarrow> nat \<Rightarrow> hub \<Rightarrow> hub \<times> nat" where
  "hub_close_device dev code h =
     (let ids = map fst (sockets_of dev h)
      in (fold (close_socket code) ids h, length ids))"

definition client_count :: "hub \<Rightarrow> nat" where
  "client_count h = length (hu_clients h)"

definition desktop_count :: "hub \<Rightarrow> nat" where
  "desktop_count h = length (filter (\<lambda>(_, c). ce_desktop c) (hu_clients h))"

definition device_sockets :: "str \<Rightarrow> hub \<Rightarrow> nat" where
  "device_sockets dev h = length (sockets_of dev h)"

definition add_sub :: "sub_key \<Rightarrow> hub \<Rightarrow> hub" where
  "add_sub k h =
     h\<lparr>hu_sub_counts := hm_put k ((case hm_get (hu_sub_counts h) k of Some n \<Rightarrow> n | None \<Rightarrow> 0) + 1)
         (hu_sub_counts h)\<rparr>"

definition remove_sub :: "sub_key \<Rightarrow> hub \<Rightarrow> hub" where
  "remove_sub k h =
     (case hm_get (hu_sub_counts h) k of
        None \<Rightarrow> h
      | Some n \<Rightarrow>
          if n - 1 = 0 then h\<lparr>hu_sub_counts := hm_del k (hu_sub_counts h)\<rparr>
          else h\<lparr>hu_sub_counts := hm_put k (n - 1) (hu_sub_counts h)\<rparr>)"

definition subscriptions :: "hub \<Rightarrow> sub_key list" where
  "subscriptions h = map fst (hu_sub_counts h)"

definition is_subscribed :: "str \<Rightarrow> str option \<Rightarrow> hub \<Rightarrow> bool" where
  "is_subscribed session agent h \<longleftrightarrow> hm_has (hu_sub_counts h) (session, agent)"

section \<open>Presence\<close>

record device_presence =
  dp_sockets :: "(nat, bool) hmap"
  dp_last_seen :: int

definition presence_default :: device_presence where
  "presence_default = \<lparr>dp_sockets = [], dp_last_seen = 0\<rparr>"

definition presence_visible :: "device_presence \<Rightarrow> bool" where
  "presence_visible d \<longleftrightarrow> list_ex snd (dp_sockets d)"

type_synonym presence = "(str, device_presence) hmap"

definition presence_connect :: "int \<Rightarrow> str \<Rightarrow> nat \<Rightarrow> presence \<Rightarrow> presence" where
  "presence_connect now dev socket m =
     (let d = (case hm_get m dev of Some d \<Rightarrow> d | None \<Rightarrow> presence_default)
      in hm_put dev (d\<lparr>dp_sockets := hm_put socket True (dp_sockets d), dp_last_seen := now\<rparr>) m)"

definition presence_disconnect :: "str \<Rightarrow> nat \<Rightarrow> presence \<Rightarrow> presence" where
  "presence_disconnect dev socket m =
     (case hm_get m dev of
        Some d \<Rightarrow> hm_put dev (d\<lparr>dp_sockets := hm_del socket (dp_sockets d)\<rparr>) m
      | None \<Rightarrow> m)"

definition presence_set_visible :: "int \<Rightarrow> str \<Rightarrow> nat \<Rightarrow> bool \<Rightarrow> presence \<Rightarrow> presence" where
  "presence_set_visible now dev socket visible m =
     (let d = (case hm_get m dev of Some d \<Rightarrow> d | None \<Rightarrow> presence_default)
      in hm_put dev (d\<lparr>dp_sockets := hm_put socket visible (dp_sockets d), dp_last_seen := now\<rparr>) m)"

definition presence_touch :: "int \<Rightarrow> str \<Rightarrow> presence \<Rightarrow> presence" where
  "presence_touch now dev m =
     (case hm_get m dev of Some d \<Rightarrow> hm_put dev (d\<lparr>dp_last_seen := now\<rparr>) m | None \<Rightarrow> m)"

definition presence_get :: "str \<Rightarrow> presence \<Rightarrow> device_presence option" where
  "presence_get dev m = hm_get m dev"

definition CLIENT_TIMEOUT_MS :: int where "CLIENT_TIMEOUT_MS = 60 * 1000"

definition is_foreground :: "int \<Rightarrow> str \<Rightarrow> presence \<Rightarrow> bool" where
  "is_foreground now dev m \<longleftrightarrow>
     (case presence_get dev m of
        Some d \<Rightarrow> presence_visible d \<and> now - dp_last_seen d < CLIENT_TIMEOUT_MS
      | None \<Rightarrow> False)"

section \<open>Lemmas\<close>

lemma close_socket_clients:
  "hu_clients (close_socket code i h) = hm_del i (hu_clients h)"
  by (auto simp: close_socket_def AList.delete_eq filter_id_conv intro!: filter_True [symmetric]
    dest: weak_map_of_SomeI)

lemma fold_close_clients:
  "hu_clients (fold (close_socket code) ids h) = fold hm_del ids (hu_clients h)"
  by (induction ids arbitrary: h) (simp_all add: close_socket_clients)

lemma fold_close_fields [simp]:
  "hu_next_id (fold (close_socket code) ids h) = hu_next_id h"
  "hu_sub_counts (fold (close_socket code) ids h) = hu_sub_counts h"
  by (induction ids arbitrary: h) (simp_all add: close_socket_def)

lemma fold_del_filter: "fold hm_del ids m = filter (\<lambda>e. fst e \<notin> set ids) m"
  by (induction ids arbitrary: m) (auto simp: AList.delete_eq intro: filter_cong)

text \<open>After a device was closed none of its sockets is connected, and every other one still is.\<close>

lemma close_device_exact:
  assumes "hm_wf (hu_clients h)"
  shows "hu_clients (fst (hub_close_device dev code h))
    = filter (\<lambda>(_, c). ce_device_id c \<noteq> Some dev) (hu_clients h)"
proof -
  have "fst e \<in> fst ` set (sockets_of dev h) \<longleftrightarrow> ce_device_id (snd e) = Some dev"
    if "e \<in> set (hu_clients h)" for e
    using that assms by (force simp: sockets_of_def distinct_map inj_on_def)
  then show ?thesis
    by (auto simp: hub_close_device_def fold_close_clients fold_del_filter split_def intro!: filter_cong)
qed

end
