(* ===== verification/Auth.thy ===== *)
theory Auth
  imports PairModel Hub
begin

text \<open>
  \<open>server/auth.rs\<close>, second part, with the server state it works on: what a token makes of a caller, the
  rate limit on rejected credentials, the guards of the routes, and the context middleware
  (\<open>server/context.rs\<close>). The handler a request is passed on to is a function on the state. Frames
  broadcast to the clients and calls into the push module are recorded in the state.
\<close>

datatype notice_level = NoticeInfo | NoticeSuccess | NoticeWarning | NoticeError

datatype frame = FrDevices | FrDesktopNotice notice_level str | FrPairRequest json

record server =
  sv_devices :: device_store
  sv_limits :: auth_limiter
  sv_pairing :: pairing_state
  sv_hub :: hub
  sv_frames :: "frame list"
  sv_push_forgotten :: "str list"

definition broadcast :: "frame \<Rightarrow> server \<Rightarrow> server" where
  "broadcast f sv = sv\<lparr>sv_frames := sv_frames sv @ [f]\<rparr>"

definition publish_devices :: "server \<Rightarrow> server" where
  "publish_devices sv = broadcast FrDevices sv"

definition publish_desktop_notice :: "notice_level \<Rightarrow> str \<Rightarrow> server \<Rightarrow> server" where
  "publish_desktop_notice level t sv = broadcast (FrDesktopNotice level t) sv"

definition publish_pair_request :: "json \<Rightarrow> server \<Rightarrow> server" where
  "publish_pair_request v sv = broadcast (FrPairRequest v) sv"

definition sv_record :: "audit_entry \<Rightarrow> server \<Rightarrow> server" where
  "sv_record e sv = sv\<lparr>sv_devices := ds_record e (sv_devices sv)\<rparr>"

section \<open>Revocation (server/devices.rs)\<close>

definition revoke :: "int \<Rightarrow> nat \<Rightarrow> str \<Rightarrow> str \<Rightarrow> server \<Rightarrow> server \<times> bool" where
  "revoke now inst i reason sv =
     (let name = map_option di_name (ds_get i (sv_devices sv))
      in case ds_revoke_record now inst i reason (sv_devices sv) of
           (ds, False) \<Rightarrow> (sv\<lparr>sv_devices := ds\<rparr>, False)
         | (ds, True) \<Rightarrow>
             let sv = sv\<lparr>sv_devices := ds\<rparr>;
                 (hub, closed) = hub_close_device i CLOSE_UNAUTHORIZED (sv_hub sv);
                 sv = sv\<lparr>sv_hub := hub, sv_push_forgotten := sv_push_forgotten sv @ [i]\<rparr>;
                 sv = publish_devices sv
             in (sv_record ((audit_now now)\<lparr>ad_action := ''device.'' @ reason, ad_device_id := Some i,
                    ad_device_name := name,
                    ad_detail := Some (obj [(''socketsClosed'', JNum (int closed))])\<rparr>) sv, True))"

text \<open>\<open>sweep_expired\<close>\<close>

fun expire_each :: "int \<Rightarrow> nat \<Rightarrow> str list \<Rightarrow> server \<Rightarrow> server" where
  "expire_each now inst [] sv = sv"
| "expire_each now inst (i # ids) sv =
     (let name = (case ds_get i (sv_devices sv) of Some d \<Rightarrow> di_name d | None \<Rightarrow> []);
          (sv, gone) = revoke now inst i ''expired'' sv;
          sv = (if gone then publish_desktop_notice NoticeInfo
                     (''\"'' @ name @ ''\" was unpaired after being idle too long.'') sv else sv)
      in expire_each now inst ids sv)"

definition sweep_expired :: "int \<Rightarrow> nat \<Rightarrow> server \<Rightarrow> server" where
  "sweep_expired now inst sv =
     (let sv = expire_each now inst (ds_expired_ids now (sv_devices sv)) sv
      in sv\<lparr>sv_devices := ds_flush inst (sv_devices sv)\<rparr>)"

section \<open>The credentials of a launch\<close>

record auth =
  au_token :: str
  au_script_token :: str
  au_hook_token :: str
  au_sidecar_token :: str
  au_allow_remote_dangerous :: bool

text \<open>\<open>load_or_create_secret\<close>: \<open>file\<close> is the file's content, \<open>fresh\<close> what \<open>make\<close> would return.\<close>

definition load_or_create_secret :: "str option \<Rightarrow> str \<Rightarrow> str" where
  "load_or_create_secret file fresh =
     (case file of Some s \<Rightarrow> let s = trim s in if s \<noteq> [] then s else fresh | None \<Rightarrow> fresh)"

definition load_script_token :: "str option \<Rightarrow> str option \<Rightarrow> str \<Rightarrow> str \<Rightarrow> str" where
  "load_script_token legacy file fresh fresh2 =
     (let retired = map_option trim legacy;
          token = load_or_create_secret file fresh
      in if retired = Some token then fresh2 else token)"

text \<open>\<open>Auth::load_or_create\<close>: \<open>draws\<close> are the fresh desktop tokens the loop may try, in order.\<close>

definition load_or_create :: "bool \<Rightarrow> str option \<Rightarrow> str option \<Rightarrow> str \<Rightarrow> str \<Rightarrow> str list \<Rightarrow> str \<Rightarrow> str \<Rightarrow> str option
    \<Rightarrow> auth option" where
  "load_or_create has_dir legacy file fresh fresh2 draws hook_enc side_enc env =
     (let script = (if has_dir then load_script_token legacy file fresh fresh2 else fresh)
      in map_option (\<lambda>token.
           \<lparr>au_token = token, au_script_token = script, au_hook_token = random_token HOOK_PREFIX hook_enc,
            au_sidecar_token = random_token SIDECAR_PREFIX side_enc,
            au_allow_remote_dangerous = (case env of Some v \<Rightarrow> v = ''1'' \<or> eq_ignore_ascii_case v ''true''
                                                   | None \<Rightarrow> False)\<rparr>)
         (find (\<lambda>t. t \<noteq> script) draws))"

section \<open>Principals\<close>

definition allowlisted_bridge_page :: "str list \<Rightarrow> client_context \<Rightarrow> bool" where
  "allowlisted_bridge_page origins ctx \<longleftrightarrow>
     cc_ingress ctx = IngBridgeLoopback \<and> cc_on_machine ctx
     \<and> (case cc_origin ctx of Some w \<Rightarrow> w \<in> set origins | None \<Rightarrow> False)"

definition then_some :: "bool \<Rightarrow> 'a \<Rightarrow> 'a option" where
  "then_some b x = (if b then Some x else None)"

definition principal_for_token :: "(str \<Rightarrow> str) \<Rightarrow> auth \<Rightarrow> str list \<Rightarrow> int \<Rightarrow> nat \<Rightarrow> client_context \<Rightarrow> str
    \<Rightarrow> server \<Rightarrow> server \<times> principal option" where
  "principal_for_token sha au origins now inst ctx token sv =
     (if starts_with token DEVICE_PREFIX
      then let (ds, r) = ds_authenticate sha now inst token (cc_client_ip ctx) (cc_effective_ingress ctx)
                           (sv_devices sv)
           in (sv\<lparr>sv_devices := ds\<rparr>, map_option (\<lambda>d. Device (da_id d) (da_allow_dangerous d)) r)
      else if \<not> cc_local ctx
      then (sv, then_some (allowlisted_bridge_page origins ctx \<and> token_matches (au_script_token au) token) LocalScript)
      else if starts_with token HOOK_PREFIX
      then (sv, then_some (token_matches (au_hook_token au) token) HookPlugin)
      else if starts_with token SIDECAR_PREFIX
      then (sv, then_some (token_matches (au_sidecar_token au) token) Sidecar)
      else if token_matches (au_token au) token then (sv, Some Desktop)
      else (sv, then_some (token_matches (au_script_token au) token) LocalScript))"

definition reject_credential :: "nat \<Rightarrow> client_context \<Rightarrow> server \<Rightarrow> server \<times> client_context \<times> (api_error + unit)" where
  "reject_credential inst ctx sv =
     (if cc_on_machine ctx then (sv, ctx, Inr ())
      else let ctx = ctx\<lparr>cc_credential_rejected := True\<rparr>;
               (l, blocked) = al_blocked inst (sv_limits sv) (cc_rate_key ctx);
               sv = sv\<lparr>sv_limits := l\<rparr>
           in case blocked of
                Some retry \<Rightarrow> (sv, ctx, Inl (api_too_many_requests retry
                    ''Too many failed authentication attempts. Try again later.''))
              | None \<Rightarrow> (sv\<lparr>sv_limits := al_record_failure inst (sv_limits sv) (cc_rate_key ctx)\<rparr>, ctx, Inr ()))"

definition authenticate :: "(str \<Rightarrow> str) \<Rightarrow> auth \<Rightarrow> str list \<Rightarrow> int \<Rightarrow> nat \<Rightarrow> header_map \<Rightarrow> uri \<Rightarrow> client_context
    \<Rightarrow> server \<Rightarrow> server \<times> client_context \<times> (api_error + unit)" where
  "authenticate sha au origins now inst hs uri ctx sv =
     (let allow_query = (cc_local ctx \<or> allowlisted_bridge_page origins ctx)
      in case presented_token hs uri allow_query of
           None \<Rightarrow> (sv, ctx, Inr ())
         | Some token \<Rightarrow>
             (case principal_for_token sha au origins now inst ctx token sv of
                (sv, Some p) \<Rightarrow> (sv, ctx\<lparr>cc_principal := p\<rparr>, Inr ())
              | (sv, None) \<Rightarrow> reject_credential inst ctx sv))"

definition authenticate_token :: "(str \<Rightarrow> str) \<Rightarrow> auth \<Rightarrow> str list \<Rightarrow> int \<Rightarrow> nat \<Rightarrow> str \<Rightarrow> client_context
    \<Rightarrow> server \<Rightarrow> server \<times> client_context \<times> (api_error + unit)" where
  "authenticate_token sha au origins now inst token ctx sv =
     (case principal_for_token sha au origins now inst ctx token sv of
        (sv, Some p) \<Rightarrow> (sv, ctx\<lparr>cc_principal := p\<rparr>, Inr ())
      | (sv, None) \<Rightarrow>
          (case reject_credential inst ctx sv of
             (sv, ctx, Inl e) \<Rightarrow> (sv, ctx, Inl e)
           | (sv, ctx, Inr _) \<Rightarrow> (sv, ctx, Inl (api_unauthorized ''Invalid or revoked token.''))))"

section \<open>Guards\<close>

definition unauthorized :: "client_context \<Rightarrow> api_error" where
  "unauthorized ctx =
     (if is_tunneled ctx
      then api_unauthorized (''This request came through a proxy or tunnel: pair this device (scan the QR code ''
             @ ''on the desktop) and send its token as `Authorization: Bearer <token>`.'')
      else api_unauthorized (''Authentication required: send `Authorization: Bearer <token>`. Pair this device ''
             @ ''from the desktop to get one.''))"

definition authed :: "client_context \<Rightarrow> api_error + client_context" where
  "authed ctx =
     (case cc_principal ctx of
        Desktop \<Rightarrow> Inr ctx
      | Device _ _ \<Rightarrow> Inr ctx
      | LocalScript \<Rightarrow> Inr ctx
      | Anonymous \<Rightarrow> Inl (unauthorized ctx)
      | HookPlugin \<Rightarrow> Inl (api_forbidden ''wrong_credential'' ''This credential is only valid for its own endpoint.'')
      | Sidecar \<Rightarrow> Inl (api_forbidden ''wrong_credential'' ''This credential is only valid for its own endpoint.''))"

definition desktop_only :: "client_context \<Rightarrow> api_error + client_context" where
  "desktop_only ctx =
     (case cc_principal ctx of
        Desktop \<Rightarrow> Inr ctx
      | Anonymous \<Rightarrow> Inl (unauthorized ctx)
      | _ \<Rightarrow> Inl (api_forbidden ''desktop_only'' ''This action is only available on the Mother Claude desktop app.''))"

definition manage_data :: "client_context \<Rightarrow> api_error + client_context" where
  "manage_data ctx =
     (case cc_principal ctx of
        Desktop \<Rightarrow> Inr ctx
      | Device _ _ \<Rightarrow> Inr ctx
      | Anonymous \<Rightarrow> Inl (unauthorized ctx)
      | _ \<Rightarrow> Inl (api_forbidden ''desktop_only''
               ''This action is only available on the Mother Claude desktop app or a paired device.''))"

definition hook_only :: "client_context \<Rightarrow> api_error + client_context" where
  "hook_only ctx =
     (case cc_principal ctx of
        HookPlugin \<Rightarrow> Inr ctx
      | Anonymous \<Rightarrow> Inl (api_unauthorized ''Hook endpoints need the hook token from a local client.'')
      | _ \<Rightarrow> Inl (api_forbidden ''hook_only'' ''Only the Mother Claude hook plugin may call this endpoint.''))"

definition sidecar_only :: "client_context \<Rightarrow> api_error + client_context" where
  "sidecar_only ctx =
     (case cc_principal ctx of
        Sidecar \<Rightarrow> Inr ctx
      | Anonymous \<Rightarrow> Inl (api_unauthorized ''This endpoint needs the sidecar token from a local client.'')
      | _ \<Rightarrow> Inl (api_forbidden ''sidecar_only'' (''Only Mother Claude'' @ [CHR 0x27] @ ''s own sidecar may call this endpoint.'')))"

definition DANGEROUS_BLOCKED_TEXT :: str where
  "DANGEROUS_BLOCKED_TEXT = ''This action is restricted to the Mother Claude ''
     @ ''desktop app, or to a device you granted dangerous actions in Remote > Devices.''"

definition dangerous_ok :: "str \<Rightarrow> client_context \<Rightarrow> api_error + client_context" where
  "dangerous_ok path ctx =
     (case authed ctx of
        Inl e \<Rightarrow> Inl e
      | Inr ctx \<Rightarrow>
          if may_dangerous ctx then Inr (note_dangerous path ctx)
          else Inl (api_dangerous_blocked DANGEROUS_BLOCKED_TEXT))"

definition require_dangerous :: "str \<Rightarrow> client_context \<Rightarrow> client_context \<times> (api_error + unit)" where
  "require_dangerous what ctx =
     (if may_dangerous ctx then (note_dangerous what ctx, Inr ())
      else (ctx, Inl (api_dangerous_blocked (what
              @ '' is restricted to the Mother Claude desktop app, or to a device you ''
              @ ''granted dangerous actions in Remote > Devices.''))))"

definition require_dangerous_unless_dry :: "str \<Rightarrow> bool \<Rightarrow> client_context \<Rightarrow> client_context \<times> (api_error + unit)" where
  "require_dangerous_unless_dry what dry_run ctx =
     (if dry_run \<and> may_dangerous ctx then (ctx, Inr ()) else require_dangerous what ctx)"

definition require_desktop :: "str \<Rightarrow> client_context \<Rightarrow> api_error + unit" where
  "require_desktop what ctx =
     (if is_desktop ctx then Inr ()
      else Inl (api_forbidden ''desktop_only'' (what @ '' is only available on the Mother Claude desktop app.'')))"

text \<open>\<open>require_api_principal\<close>: \<open>Inr\<close> passes the request on.\<close>

definition require_api_principal :: "str \<Rightarrow> client_context \<Rightarrow> api_error + unit" where
  "require_api_principal path ctx =
     (case cc_principal ctx of
        Desktop \<Rightarrow> Inr ()
      | Device _ _ \<Rightarrow> Inr ()
      | LocalScript \<Rightarrow> Inr ()
      | Anonymous \<Rightarrow> Inl (unauthorized ctx)
      | _ \<Rightarrow> if cc_principal ctx = Sidecar \<and> ends_with path ''/permission-request'' then Inr ()
             else Inl (api_forbidden ''wrong_credential'' ''This credential is only valid for its own endpoint.''))"

definition note_device_action :: "str \<Rightarrow> client_context \<Rightarrow> server \<Rightarrow> server" where
  "note_device_action what ctx sv =
     (case context_device_id ctx of
        None \<Rightarrow> sv
      | Some i \<Rightarrow>
          let name = (case ds_get i (sv_devices sv) of Some d \<Rightarrow> di_name d | None \<Rightarrow> ''A paired device'')
          in publish_desktop_notice NoticeInfo
               (''\"'' @ name @ ''\" '' @ what @ '' from '' @ show_ip (cc_client_ip ctx) @ '' (''
                @ ingress_as_str (cc_effective_ingress ctx) @ '')'') sv)"

record me_view =
  me_principal :: str
  me_device_id :: "str option"
  me_name :: "str option"
  me_ingress :: str
  me_local :: bool
  me_allow_dangerous :: bool
  me_effective_ingress :: "str option"
  me_platform :: "str option"
  me_paired_at :: "int option"
  me_allow_dangerous_lan :: "bool option"
  me_allow_dangerous_internet :: "bool option"
  me_client_ip :: "str option"

definition me :: "client_context \<Rightarrow> server \<Rightarrow> me_view" where
  "me ctx sv =
     (let device = Option.bind (context_device_id ctx) (\<lambda>i. ds_get i (sv_devices sv))
      in \<lparr>me_principal = principal_label (cc_principal ctx), me_device_id = context_device_id ctx,
          me_name = map_option di_name device, me_ingress = ingress_as_str (cc_ingress ctx),
          me_local = cc_local ctx, me_allow_dangerous = may_dangerous ctx,
          me_effective_ingress = Some (ingress_as_str (cc_effective_ingress ctx)),
          me_platform = opt_filter (\<lambda>p. p \<noteq> []) (map_option di_platform device),
          me_paired_at = map_option di_created_at device,
          me_allow_dangerous_lan = map_option di_allow_dangerous device,
          me_allow_dangerous_internet = map_option di_allow_dangerous_internet device,
          me_client_ip = (if \<not> cc_local ctx then Some (show_ip (cc_client_ip ctx)) else None)\<rparr>)"

section \<open>The context middleware (server/context.rs)\<close>

text \<open>\<open>nested\<close> is a context already attached to the request, \<open>ingress\<close> and \<open>peer\<close> what the listener attached;
  \<open>run\<close> is the rest of the router, which answers with a status. \<open>inst2\<close> is the time when it has answered.\<close>

definition middleware :: "(str \<Rightarrow> str) \<Rightarrow> auth \<Rightarrow> str list \<Rightarrow> int \<Rightarrow> nat \<Rightarrow> nat \<Rightarrow> client_context option
    \<Rightarrow> ingress option \<Rightarrow> socket_addr option \<Rightarrow> header_map \<Rightarrow> uri
    \<Rightarrow> (client_context \<Rightarrow> server \<Rightarrow> server \<times> nat) \<Rightarrow> server \<Rightarrow> server \<times> (api_error + nat)" where
  "middleware sha au origins now inst inst2 nested ing peer hs uri run sv =
     (case nested of
        Some ctx \<Rightarrow> (let (sv, status) = run ctx sv in (sv, Inr status))
      | None \<Rightarrow>
          let ing = (case ing of Some i \<Rightarrow> i | None \<Rightarrow> IngLan);
              peer = (case peer of Some p \<Rightarrow> p | None \<Rightarrow> \<lparr>sa_ip = V4 0, sa_port = 0\<rparr>);
              ctx = context_new ing peer hs (au_allow_remote_dangerous au)
          in case authenticate sha au origins now inst hs uri ctx sv of
               (sv, ctx, Inl e) \<Rightarrow> (sv, Inl e)
             | (sv, ctx, Inr _) \<Rightarrow>
                 let limited = (cc_principal ctx = Anonymous \<and> \<not> cc_on_machine ctx);
                     (l, blocked) = (if limited \<and> is_auth_path (ur_path uri)
                                     then al_blocked inst (sv_limits sv) (cc_rate_key ctx)
                                     else (sv_limits sv, None));
                     sv = sv\<lparr>sv_limits := l\<rparr>
                 in case blocked of
                      Some retry \<Rightarrow> (sv, Inl (api_too_many_requests retry
                          ''Too many failed authentication attempts. Try again later.''))
                    | None \<Rightarrow>
                        let (sv, status) = run ctx sv;
                            counted = cc_credential_rejected ctx
                        in (if limited \<and> \<not> counted \<and> status = 401
                            then sv\<lparr>sv_limits := al_record_failure inst2 (sv_limits sv) (cc_rate_key ctx)\<rparr>
                            else sv, Inr status))"

end
