(* ===== verification/Pairing.thy ===== *)
theory Pairing
  imports Auth
begin

text \<open>
  \<open>server/pairing.rs\<close>, second part: creating and redeeming codes, polling, approving and denying. Each
  function that holds the lock of the pairing state to its end is one step. \<open>exchange\<close> decides under the
  lock and works on the device store after it: \<open>meanwhile\<close> is what other requests do in between. The
  randomness of a call is a record.
\<close>

record fresh =
  fr_enc :: str
  fr_uuid :: str
  fr_bytes :: "nat list"

section \<open>Codes\<close>

record code_request =
  cr_target :: code_target
  cr_base_url :: "str option"

text \<open>The base URL of a code: \<open>lan\<close> and \<open>public\<close> are what the remote-access state knows.\<close>

definition code_base_url :: "str option \<Rightarrow> str option \<Rightarrow> code_request \<Rightarrow> api_error + str" where
  "code_base_url lan public req =
     (case (cr_base_url req, cr_target req) of
        (Some b, TargetInternet) \<Rightarrow> validate_base_url b True
      | (Some b, _) \<Rightarrow> validate_base_url b False
      | (None, TargetLan) \<Rightarrow>
          (case lan of Some u \<Rightarrow> Inr u
           | None \<Rightarrow> Inl (api_conflict ''lan_unavailable''
                (''Mother Claude is not listening on your local network (it is bound ''
                 @ ''to 127.0.0.1, or no private network address was found).'')))
      | (None, _) \<Rightarrow>
          (case public of Some u \<Rightarrow> Inr u
           | None \<Rightarrow> Inl (api_conflict ''no_public_url''
                (''No public URL yet: start a tunnel (see Remote access) or enter the ''
                 @ ''public URL by hand.''))))"

definition code_owner :: "str option \<Rightarrow> str option \<Rightarrow> client_context \<Rightarrow> code_request
    \<Rightarrow> api_error + str option \<times> str option" where
  "code_owner lan public ctx req =
     (if cr_target req = TargetSelf
      then case context_device_id ctx of
             None \<Rightarrow> Inl (api_forbidden ''device_only'' ''Only a paired device can create a code for itself.'')
           | Some i \<Rightarrow> Inr (None, Some i)
      else case require_desktop ''Creating a pairing code'' ctx of
             Inl e \<Rightarrow> Inl e
           | Inr _ \<Rightarrow> map_sum id (\<lambda>base. (Some base, None)) (code_base_url lan public req))"

definition add_code :: "int \<Rightarrow> str \<Rightarrow> code_target \<Rightarrow> str option \<Rightarrow> pairing_state \<Rightarrow> pairing_state" where
  "add_code now code target device_id g =
     (let g = fst (pair_prune now g)
      in g\<lparr>ps_codes := evict_codes (ps_codes g) @
             [\<lparr>cd_code = code, cd_target = target, cd_device_id = device_id,
               cd_expires_at = now + CODE_TTL_MS, cd_used = None\<rparr>]\<rparr>)"

definition create_code :: "str option \<Rightarrow> str option \<Rightarrow> (str \<Rightarrow> str) \<Rightarrow> int \<Rightarrow> fresh \<Rightarrow> client_context \<Rightarrow> code_request
    \<Rightarrow> server \<Rightarrow> server \<times> (api_error + json)" where
  "create_code lan public qr now fr ctx req sv =
     (case code_owner lan public ctx req of
        Inl e \<Rightarrow> (sv, Inl e)
      | Inr (base_url, device_id) \<Rightarrow>
          let code = new_code (fr_bytes fr);
              sv = sv\<lparr>sv_pairing := add_code now code (cr_target req) device_id (sv_pairing sv)\<rparr>;
              url = (case base_url of Some b \<Rightarrow> b @ ''/#/pair?c='' @ code | None \<Rightarrow> ''/#/pair?c='' @ code);
              sv = (if \<not> is_desktop ctx then sv_record (audit_from_ctx now ctx ''pair.code.self'') sv else sv)
          in (sv, Inr (obj [(''code'', JStr code), (''display'', JStr (display_code code)), (''url'', JStr url),
                 (''svg'', JStr (qr url)), (''expiresAt'', JNum (now + CODE_TTL_MS)),
                 (''ttlSec'', JNum (CODE_TTL_MS div 1000)), (''target'', JStr (target_as_str (cr_target req))),
                 (''baseUrl'', opt_str base_url)])))"

section \<open>Redeeming a code\<close>

record exchange_request =
  er_code :: str
  er_device_name :: str
  er_platform :: str

text \<open>\<open>provider_hint\<close>: \<open>detected\<close> are the tunnels found, each with its target and provider.\<close>

definition provider_hint :: "(str \<times> str) list \<Rightarrow> client_context \<Rightarrow> str" where
  "provider_hint detected ctx =
     (if cc_effective_ingress ctx \<noteq> IngTunnel then ingress_as_str (cc_effective_ingress ctx)
      else if cc_ingress ctx = IngLan then ''port-forward''
      else let target = (case cc_ingress ctx of IngTunnel \<Rightarrow> ''tunnel'' | IngLoopback \<Rightarrow> ''main''
                         | _ \<Rightarrow> ''bridge'');
               providers = remdups_adj (sort (map snd (filter (\<lambda>(t, _). t = target \<or> t = ''unknown'') detected)))
           in if providers = [] then (if target = ''tunnel'' then ''tunnel'' else ''proxy'')
              else join '' or '' providers)"

definition pair_failure :: "nat \<Rightarrow> client_context \<Rightarrow> server \<Rightarrow> server" where
  "pair_failure inst ctx sv = sv\<lparr>sv_limits := al_record_pair_failure inst (sv_limits sv) (cc_rate_key ctx)\<rparr>"

definition invalid_code :: api_error where
  "invalid_code = api_not_found ''invalid_code''
     ''This pairing code is invalid or has expired. Ask for a new one on your Mac.''"

definition check_pair_limit :: "nat \<Rightarrow> client_context \<Rightarrow> server \<Rightarrow> server \<times> (api_error + unit)" where
  "check_pair_limit inst ctx sv =
     (let (l, blocked) = al_pair_blocked inst (sv_limits sv) (cc_rate_key ctx);
          sv = sv\<lparr>sv_limits := l\<rparr>
      in case blocked of
           Some retry \<Rightarrow> (sv, Inl (api_too_many_requests retry
               ''Too many pairing attempts from this address. Try again later.''))
         | None \<Rightarrow> (sv, Inr ()))"

definition lan_auto :: "client_context \<Rightarrow> bool" where
  "lan_auto ctx \<longleftrightarrow> cc_effective_ingress ctx = IngLan \<and> cc_ingress ctx = IngLan \<and> \<not> cc_proxied ctx
     \<and> is_private_ip (sa_ip (cc_peer ctx))"

datatype plan = PlanSelfToken str | PlanAuto | PlanPending pending_pair

text \<open>Replay within the life of a code: the waiting pair made from it becomes contested.\<close>

definition contest :: "str option \<Rightarrow> pending_pair list \<Rightarrow> pending_pair list \<times> bool" where
  "contest pid ps =
     (case Option.bind pid (\<lambda>i. find (\<lambda>p. pp_id p = i) ps) of
        None \<Rightarrow> (ps, False)
      | Some p \<Rightarrow>
          if pp_status p = PairPending
          then (update_first (\<lambda>x. pp_id x = pp_id p) (\<lambda>x. x\<lparr>pp_contested := True\<rparr>) ps, True)
          else (ps, False))"

definition new_pair :: "(str \<Rightarrow> str) \<Rightarrow> int \<Rightarrow> fresh \<Rightarrow> client_context \<Rightarrow> str \<Rightarrow> str \<Rightarrow> str option \<Rightarrow> str
    \<Rightarrow> pending_pair" where
  "new_pair sha now fr ctx name platform user_agent provider =
     (let poll_secret = random_token POLL_SECRET_PREFIX (fr_enc fr)
      in \<lparr>pp_id = ''pp_'' @ fr_uuid fr, pp_poll_secret_sha = sha256_hex sha poll_secret,
          pp_fingerprint = new_fingerprint (fr_bytes fr),
          pp_device_name = (if name = [] then ''Unnamed device'' else name), pp_platform = platform,
          pp_user_agent = opt_filter (\<lambda>u. u \<noteq> []) user_agent, pp_client_ip = show_ip (cc_client_ip ctx),
          pp_ingress = cc_effective_ingress ctx, pp_provider = Some provider,
          pp_code_target = TargetInternet, pp_created_at = now, pp_expires_at = now + PENDING_TTL_MS,
          pp_status = PairPending, pp_contested = False, pp_fingerprint_attempts = 0,
          pp_decided_at = None, pp_device_id = None, pp_token = Some poll_secret\<rparr>)"

definition mark_used :: "nat \<Rightarrow> str option \<Rightarrow> str option \<Rightarrow> pairing_state \<Rightarrow> pairing_state" where
  "mark_used k pid dev g =
     g\<lparr>ps_codes := (ps_codes g)[k := (ps_codes g ! k)\<lparr>cd_used := Some \<lparr>cu_pending_id = pid, cu_device_id = dev\<rparr>\<rparr>]\<rparr>"

definition CONTESTED_TEXT :: str where
  "CONTESTED_TEXT = ''A pairing code was used by two devices. That request can no longer be ''
     @ ''approved; create a new code.''"

definition REPLAY_TEXT :: str where
  "REPLAY_TEXT = ''A pairing code that was already used was presented again by another device. ''
     @ ''Check Remote > Devices.''"

text \<open>What is left to do after the lock: the replay is reported, or the plan carried out.\<close>

datatype verdict_of_code =
    Refused api_error bool
  | Replayed code_use bool
  | Planned plan

text \<open>The part of \<open>exchange\<close> under the lock. \<open>Refused e counted\<close>: the error, and whether it counts as a
  failed attempt.\<close>

definition exchange_decide :: "(str \<Rightarrow> str) \<Rightarrow> int \<Rightarrow> fresh \<Rightarrow> client_context \<Rightarrow> str \<Rightarrow> str \<Rightarrow> str \<Rightarrow> str option \<Rightarrow> str
    \<Rightarrow> pairing_state \<Rightarrow> pairing_state \<times> verdict_of_code" where
  "exchange_decide sha now fr ctx code name platform user_agent provider g =
     (let g = fst (pair_prune now g)
      in case position (\<lambda>c. length (cd_code c) = length code \<and> token_matches (cd_code c) code) (ps_codes g) of
           None \<Rightarrow> (g, Refused invalid_code True)
         | Some k \<Rightarrow>
             let c = ps_codes g ! k
             in case cd_used c of
                  Some used \<Rightarrow>
                    let (ps, hit) = contest (cu_pending_id used) (ps_pending g)
                    in (g\<lparr>ps_pending := ps\<rparr>, Replayed used hit)
                | None \<Rightarrow>
                    (case cd_target c of
                       TargetLan \<Rightarrow>
                         if \<not> lan_auto ctx
                         then (g, Refused (api_forbidden ''wrong_network''
                                (''This code is for your home network and cannot be used through a ''
                                 @ ''tunnel or proxy. On your Mac, create an Internet code instead.'')) True)
                         else (mark_used k None None g, Planned PlanAuto)
                     | TargetSelf \<Rightarrow>
                         (case cd_device_id c of
                            None \<Rightarrow> (g, Refused invalid_code True)
                          | Some dev \<Rightarrow> (mark_used k None (Some dev) g, Planned (PlanSelfToken dev)))
                     | TargetInternet \<Rightarrow>
                         if pending_count now g \<ge> MAX_PENDING
                         then (g, Refused (api_too_many_requests 60
                                (''Too many pairing requests are waiting for approval. Try again in a ''
                                 @ ''minute.'')) False)
                         else let p = new_pair sha now fr ctx name platform user_agent provider;
                                  g = mark_used k (Some (pp_id p)) None g
                              in (g\<lparr>ps_pending := update_first (\<lambda>x. pp_id x = pp_id p)
                                       (\<lambda>x. x\<lparr>pp_token := None\<rparr>) (ps_pending g @ [p])\<rparr>,
                                  Planned (PlanPending p))))"

definition announce_new_device :: "device_info \<Rightarrow> client_context \<Rightarrow> server \<Rightarrow> server" where
  "announce_new_device info ctx sv =
     publish_desktop_notice NoticeInfo
       (''New device paired: \"'' @ di_name info @ ''\" from '' @ show_ip (cc_client_ip ctx) @ '' (''
        @ ingress_as_str (cc_effective_ingress ctx) @ '').'') (publish_devices sv)"

definition device_reply :: "str \<Rightarrow> str \<Rightarrow> str \<Rightarrow> json" where
  "device_reply dev token name = obj [(''deviceId'', JStr dev), (''token'', JStr token), (''name'', JStr name)]"

definition report_replay :: "int \<Rightarrow> nat \<Rightarrow> client_context \<Rightarrow> str \<Rightarrow> code_use \<Rightarrow> bool \<Rightarrow> server \<Rightarrow> server \<times> api_error" where
  "report_replay now inst ctx provider used hit sv =
     (let sv = publish_desktop_notice NoticeWarning (if hit then CONTESTED_TEXT else REPLAY_TEXT) sv;
          sv = publish_devices sv;
          sv = sv_record ((audit_from_ctx now ctx ''pair.contested'')\<lparr>ad_detail := Some (obj
                 [(''pendingId'', opt_str (cu_pending_id used)), (''deviceId'', opt_str (cu_device_id used)),
                  (''provider'', JStr provider)])\<rparr>) sv
      in (pair_failure inst ctx sv, api_conflict ''code_already_used''
            (''This code was already used by another device. Ask for a new code on ''
             @ ''your Mac.'')))"

definition note_used_by :: "str \<Rightarrow> str \<Rightarrow> pairing_state \<Rightarrow> pairing_state" where
  "note_used_by code dev g =
     g\<lparr>ps_codes := update_first (\<lambda>c. cd_code c = code)
         (\<lambda>c. c\<lparr>cd_used := Some \<lparr>cu_pending_id = None, cu_device_id = Some dev\<rparr>\<rparr>) (ps_codes g)\<rparr>"

definition carry_out :: "(str \<Rightarrow> str) \<Rightarrow> int \<Rightarrow> nat \<Rightarrow> fresh \<Rightarrow> client_context \<Rightarrow> str \<Rightarrow> str \<Rightarrow> str \<Rightarrow> str option \<Rightarrow> str
    \<Rightarrow> plan \<Rightarrow> server \<Rightarrow> server \<times> (api_error + nat \<times> json)" where
  "carry_out sha now inst fr ctx code name platform user_agent provider plan sv =
     (case plan of
        PlanSelfToken dev \<Rightarrow>
          (case ds_add_token sha (fr_enc fr) now inst dev (sv_devices sv) of
             (ds, None) \<Rightarrow> (sv\<lparr>sv_devices := ds\<rparr>, Inl invalid_code)
           | (ds, Some token) \<Rightarrow>
               let sv = sv\<lparr>sv_devices := ds\<rparr>;
                   name = (case ds_get dev ds of Some info \<Rightarrow> di_name info | None \<Rightarrow> []);
                   sv = sv\<lparr>sv_limits := al_clear_pair_failures (sv_limits sv) (cc_rate_key ctx)\<rparr>;
                   sv = publish_devices sv;
                   sv = sv_record ((audit_from_ctx now ctx ''pair.self'')
                          \<lparr>ad_device_id := Some dev, ad_device_name := Some name\<rparr>) sv
               in (sv, Inr (201, device_reply dev token name)))
      | PlanAuto \<Rightarrow>
          let (ds, info, token) = ds_issue sha (fr_enc fr) (fr_uuid fr) now inst
                (if name = [] then ''Unnamed device'' else name) platform user_agent
                (cc_effective_ingress ctx) (cc_client_ip ctx) (sv_devices sv);
              sv = sv\<lparr>sv_devices := ds\<rparr>;
              sv = sv\<lparr>sv_pairing := note_used_by code (di_id info) (sv_pairing sv)\<rparr>;
              sv = sv\<lparr>sv_limits := al_clear_pair_failures (sv_limits sv) (cc_rate_key ctx)\<rparr>;
              sv = announce_new_device info ctx sv;
              sv = sv_record ((audit_from_ctx now ctx ''pair.exchange'')
                     \<lparr>ad_device_id := Some (di_id info), ad_device_name := Some (di_name info),
                      ad_detail := Some (obj [(''approval'', JStr ''automatic''), (''provider'', JStr provider)])\<rparr>) sv
          in (sv, Inr (201, device_reply (di_id info) token (di_name info)))
      | PlanPending p \<Rightarrow>
          let poll_secret = (case pp_token p of Some t \<Rightarrow> t | None \<Rightarrow> []);
              sv = publish_pair_request (pp_view p) sv;
              sv = publish_devices sv;
              sv = sv_record ((audit_from_ctx now ctx ''pair.pending'')
                     \<lparr>ad_device_name := Some (pp_device_name p),
                      ad_detail := Some (obj [(''pendingId'', JStr (pp_id p)), (''provider'', JStr provider)])\<rparr>) sv
          in (sv, Inr (202, obj [(''pendingId'', JStr (pp_id p)), (''pollSecret'', JStr poll_secret),
                 (''fingerprint'', JStr (pp_fingerprint p)), (''expiresAt'', JNum (pp_expires_at p))])))"

definition exchange :: "(str \<Rightarrow> str) \<Rightarrow> (str \<times> str) list \<Rightarrow> (server \<Rightarrow> server) \<Rightarrow> int \<Rightarrow> nat \<Rightarrow> fresh \<Rightarrow> client_context
    \<Rightarrow> header_map \<Rightarrow> exchange_request \<Rightarrow> server \<Rightarrow> server \<times> (api_error + nat \<times> json)" where
  "exchange sha detected meanwhile now inst fr ctx hs req sv =
     (case check_pair_limit inst ctx sv of
        (sv, Inl e) \<Rightarrow> (sv, Inl e)
      | (sv, Inr _) \<Rightarrow>
          (case normalize_code (er_code req) of
             None \<Rightarrow> (pair_failure inst ctx sv, Inl invalid_code)
           | Some code \<Rightarrow>
               let user_agent = (case get_all hs ''user-agent'' of
                                   [] \<Rightarrow> None | v # _ \<Rightarrow> map_option (\<lambda>u. sanitize_label u 200) (to_str v));
                   name = sanitize_label (er_device_name req) MAX_NAME_CHARS;
                   platform = sanitize_label (er_platform req) 32;
                   provider = provider_hint detected ctx;
                   (g, v) = exchange_decide sha now fr ctx code name platform user_agent provider (sv_pairing sv);
                   sv = meanwhile (sv\<lparr>sv_pairing := g\<rparr>)
               in case v of
                    Refused e counted \<Rightarrow> (if counted then pair_failure inst ctx sv else sv, Inl e)
                  | Replayed used hit \<Rightarrow>
                      map_prod id Inl (report_replay now inst ctx provider used hit sv)
                  | Planned plan \<Rightarrow> carry_out sha now inst fr ctx code name platform user_agent provider plan sv))"

section \<open>Polling\<close>

definition poll_reply :: "str \<Rightarrow> (str \<times> json) list \<Rightarrow> json" where
  "poll_reply status kvs = obj ((''status'', JStr status) # kvs)"

definition poll_matches :: "str \<Rightarrow> str \<Rightarrow> pending_pair \<Rightarrow> bool" where
  "poll_matches i secret_sha p \<longleftrightarrow> pp_id p = i \<and> secret_sha \<noteq> [] \<and> token_matches (pp_poll_secret_sha p) secret_sha"

definition poll :: "(str \<Rightarrow> str) \<Rightarrow> int \<Rightarrow> nat \<Rightarrow> client_context \<Rightarrow> str \<Rightarrow> str option \<Rightarrow> server
    \<Rightarrow> server \<times> (api_error + json)" where
  "poll sha now inst ctx i secret sv =
     (case check_pair_limit inst ctx sv of
        (sv, Inl e) \<Rightarrow> (sv, Inl e)
      | (sv, Inr _) \<Rightarrow>
          let secret_sha = (case secret of Some s \<Rightarrow> sha256_hex sha s | None \<Rightarrow> []);
              g = fst (pair_prune now (sv_pairing sv));
              sv = sv\<lparr>sv_pairing := g\<rparr>
          in case find (poll_matches i secret_sha) (ps_pending g) of
               None \<Rightarrow> (pair_failure inst ctx sv, Inl (api_not_found ''not_found''
                          ''No such pairing request (it may have expired).''))
             | Some p \<Rightarrow>
                 if pp_contested p
                 then (sv, Inr (poll_reply ''contested'' [(''message'',
                        JStr ''This code was already used by another device. Ask for a new code on your Mac.'')]))
                 else case pp_status p of
                   PairApproved \<Rightarrow>
                     (case pp_token p of
                        Some token \<Rightarrow>
                          let sv = sv\<lparr>sv_pairing := g\<lparr>ps_pending := update_first (poll_matches i secret_sha)
                                       (\<lambda>x. x\<lparr>pp_token := None\<rparr>) (ps_pending g)\<rparr>\<rparr>;
                              sv = sv\<lparr>sv_limits := al_clear_pair_failures (sv_limits sv) (cc_rate_key ctx)\<rparr>
                          in (sv, Inr (poll_reply ''approved'' [(''token'', JStr token),
                                (''deviceId'', opt_str (pp_device_id p)), (''name'', JStr (pp_device_name p))]))
                      | None \<Rightarrow> (sv, Inr (poll_reply ''approved'' [(''deviceId'', opt_str (pp_device_id p))])))
                 | PairPending \<Rightarrow> (sv, Inr (poll_reply ''pending'' [(''expiresAt'', JNum (pp_expires_at p))]))
                 | PairDenied \<Rightarrow> (sv, Inr (poll_reply ''denied'' []))
                 | PairExpired \<Rightarrow> (sv, Inr (poll_reply ''expired'' [])))"

section \<open>Approving and denying\<close>

definition digits_of :: "str \<Rightarrow> str" where
  "digits_of s = filter is_ascii_digit s"

definition not_pending_error :: "pending_status \<Rightarrow> api_error" where
  "not_pending_error s =
     (if s = PairExpired then api_new 410 ''expired'' ''This pairing request expired. Ask for a new code.''
      else api_conflict ''already_decided'' ''This pairing request was already answered.'')"

definition no_such_pair :: api_error where
  "no_such_pair = api_not_found ''not_found'' ''No such pairing request (it may have expired).''"

text \<open>A wrong fingerprint: the count goes up, and the last attempt denies the request.\<close>

definition wrong_digits :: "int \<Rightarrow> pending_pair \<Rightarrow> pending_pair" where
  "wrong_digits now p =
     (let p = p\<lparr>pp_fingerprint_attempts := pp_fingerprint_attempts p + 1\<rparr>
      in if MAX_FINGERPRINT_ATTEMPTS - pp_fingerprint_attempts p = 0
         then p\<lparr>pp_status := PairDenied, pp_decided_at := Some now\<rparr> else p)"

definition approved_pair :: "int \<Rightarrow> str \<Rightarrow> str \<Rightarrow> pending_pair \<Rightarrow> pending_pair" where
  "approved_pair now dev token p =
     p\<lparr>pp_status := PairApproved, pp_decided_at := Some now, pp_device_id := Some dev, pp_token := Some token\<rparr>"

definition update_pair :: "str \<Rightarrow> (pending_pair \<Rightarrow> pending_pair) \<Rightarrow> server \<Rightarrow> server" where
  "update_pair i f sv = sv\<lparr>sv_pairing := (sv_pairing sv)
     \<lparr>ps_pending := update_first (\<lambda>p. pp_id p = i) f (ps_pending (sv_pairing sv))\<rparr>\<rparr>"

definition refuse_digits :: "int \<Rightarrow> client_context \<Rightarrow> str \<Rightarrow> pending_pair \<Rightarrow> server \<Rightarrow> server \<times> api_error" where
  "refuse_digits now ctx i p sv =
     (let left = MAX_FINGERPRINT_ATTEMPTS - (pp_fingerprint_attempts p + 1);
          sv = update_pair i (wrong_digits now) sv;
          sv = publish_devices sv;
          sv = (if left = 0
                then sv_record ((audit_from_ctx now ctx ''pair.deny'')\<lparr>ad_detail := Some (obj
                       [(''pendingId'', JStr i), (''reason'', JStr ''fingerprint'')])\<rparr>) sv
                else sv)
      in (sv, api_with (api_unprocessable ''fingerprint_mismatch''
            (if left = 0 then ''Those digits do not match the phone. The request was denied.''
             else ''Those digits do not match the ones on the phone. '' @ show_nat left @ '' attempt(s) left.''))
            ''attemptsLeft'' (JNum (int left))))"

definition approve :: "(str \<Rightarrow> str) \<Rightarrow> int \<Rightarrow> nat \<Rightarrow> fresh \<Rightarrow> client_context \<Rightarrow> str \<Rightarrow> str \<Rightarrow> server
    \<Rightarrow> server \<times> (api_error + device_info)" where
  "approve sha now inst fr ctx i fp sv =
     (case require_desktop ''Approving a pairing'' ctx of
        Inl e \<Rightarrow> (sv, Inl e)
      | Inr _ \<Rightarrow>
          let typed = digits_of fp;
              sv = sv\<lparr>sv_pairing := fst (pair_prune now (sv_pairing sv))\<rparr>
          in case find (\<lambda>p. pp_id p = i) (ps_pending (sv_pairing sv)) of
               None \<Rightarrow> (sv, Inl no_such_pair)
             | Some p \<Rightarrow>
                 if pp_status p \<noteq> PairPending then (sv, Inl (not_pending_error (pp_status p)))
                 else if pp_contested p
                 then (sv, Inl (api_conflict ''contested''
                        (''This code was used by two devices, so this request cannot be approved. Create ''
                         @ ''a new code.'')))
                 else if length typed \<noteq> 4 \<or> \<not> token_matches (pp_fingerprint p) typed
                 then map_prod id Inl (refuse_digits now ctx i p sv)
                 else let (ds, info, token) = ds_issue sha (fr_enc fr) (fr_uuid fr) now inst
                            (pp_device_name p) (pp_platform p) (pp_user_agent p) (pp_ingress p)
                            (case parse_ip (pp_client_ip p) of Some ip \<Rightarrow> ip | None \<Rightarrow> V4 0) (sv_devices sv);
                          sv = update_pair i (approved_pair now (di_id info) token) (sv\<lparr>sv_devices := ds\<rparr>);
                          sv = publish_devices sv;
                          sv = publish_desktop_notice NoticeInfo
                                 (''New device paired: \"'' @ di_name info @ ''\" from '' @ pp_client_ip p @ '' (''
                                  @ ingress_as_str (pp_ingress p) @ '').'') sv;
                          sv = sv_record ((audit_from_ctx now ctx ''pair.approve'')
                                 \<lparr>ad_device_id := Some (di_id info), ad_device_name := Some (di_name info),
                                  ad_detail := Some (obj [(''pendingId'', JStr i),
                                    (''clientIp'', JStr (pp_client_ip p)),
                                    (''ingress'', JStr (ingress_as_str (pp_ingress p))),
                                    (''provider'', opt_str (pp_provider p))])\<rparr>) sv
                      in (sv, Inr info))"

definition denied_pair :: "int \<Rightarrow> pending_pair \<Rightarrow> pending_pair" where
  "denied_pair now p = p\<lparr>pp_status := PairDenied, pp_decided_at := Some now, pp_token := None\<rparr>"

definition deny :: "int \<Rightarrow> client_context \<Rightarrow> str \<Rightarrow> server \<Rightarrow> server \<times> (api_error + unit)" where
  "deny now ctx i sv =
     (case require_desktop ''Denying a pairing'' ctx of
        Inl e \<Rightarrow> (sv, Inl e)
      | Inr _ \<Rightarrow>
          let sv = sv\<lparr>sv_pairing := fst (pair_prune now (sv_pairing sv))\<rparr>
          in case find (\<lambda>p. pp_id p = i) (ps_pending (sv_pairing sv)) of
               None \<Rightarrow> (sv, Inl no_such_pair)
             | Some p \<Rightarrow>
                 if pp_status p \<noteq> PairPending
                 then (sv, Inl (api_conflict ''already_decided'' ''This pairing request was already answered.''))
                 else let sv = publish_devices (update_pair i (denied_pair now) sv);
                          sv = sv_record ((audit_from_ctx now ctx ''pair.deny'')
                                 \<lparr>ad_detail := Some (obj [(''pendingId'', JStr i)])\<rparr>) sv
                      in (sv, Inr ()))"

definition sweep :: "int \<Rightarrow> server \<Rightarrow> server" where
  "sweep now sv =
     (let (g, changed) = pair_sweep now (sv_pairing sv);
          sv = sv\<lparr>sv_pairing := g\<rparr>
      in if changed then publish_devices sv else sv)"

end
