(* ===== verification/DeviceProofs.thy ===== *)
theory DeviceProofs
  imports Auth
begin

text \<open>
  The theorems on devices and credentials: what a token makes of its caller, that a revoked device stays
  out whatever else happens to the store, and who reaches a handler through a tunnel.
\<close>

section \<open>The device store\<close>

lemma record_matches_iff: "record_matches d h \<longleftrightarrow> h \<noteq> [] \<and> h \<in> set (hashes d)"
proof -
  have "foldl (\<lambda>hit x. hit \<or> (x \<noteq> [] \<and> token_matches x h)) b xs \<longleftrightarrow> b \<or> (h \<noteq> [] \<and> h \<in> set xs)" for b xs
    by (induction xs arbitrary: b) auto
  then show ?thesis by (simp add: record_matches_def)
qed

lemma position_None [simp]: "position P xs = None \<longleftrightarrow> (\<forall>x \<in> set xs. \<not> P x)"
  by (induction xs) auto

lemma position_Some: "position P xs = Some k \<Longrightarrow> k < length xs \<and> P (xs ! k) \<and> (\<forall>j < k. \<not> P (xs ! j))"
proof (induction xs arbitrary: k)
  case (Cons x xs)
  then show ?case by (cases "P x") (auto simp: nth_Cons split: nat.splits)
qed simp

lemma persist_locked_fields [simp]:
  "ds_devices (persist_locked inst s) = ds_devices s"
  "ds_idle_days (persist_locked inst s) = ds_idle_days s"
  "ds_recent (persist_locked inst s) = ds_recent s"
  "ds_audit (persist_locked inst s) = ds_audit s"
  "ds_revocations (persist_locked inst s) = ds_revocations s"
  "ds_has_path (persist_locked inst s) = ds_has_path s"
  by (simp_all add: persist_locked_def Let_def)

lemma ds_flush_devices [simp]: "ds_devices (ds_flush inst s) = ds_devices s"
  by (simp add: ds_flush_def)

lemma ds_record_fields [simp]: "ds_devices (ds_record e s) = ds_devices s"
  "ds_idle_days (ds_record e s) = ds_idle_days s"
  by (simp_all add: ds_record_def)

text \<open>The operations of the store, as one step function; the randomness of an issue is in the operation.\<close>

datatype device_op =
    DAuthenticate int nat str ip_addr ingress
  | DIssue str str int nat str str "str option" ingress ip_addr
  | DAddToken str int nat str
  | DRename nat str str
  | DSetGrants nat str "bool option" "bool option"
  | DRevoke int nat str str
  | DForget nat str
  | DSetIdleDays nat
  | DNoteAction str recent_action
  | DRecord audit_entry
  | DFlush nat

fun device_step :: "(str \<Rightarrow> str) \<Rightarrow> device_store \<Rightarrow> device_op \<Rightarrow> device_store" where
  "device_step sha s (DAuthenticate now inst token ip ing) = fst (ds_authenticate sha now inst token ip ing s)"
| "device_step sha s (DIssue enc uuid now inst name platform ua via ip) =
     fst (ds_issue sha enc uuid now inst name platform ua via ip s)"
| "device_step sha s (DAddToken enc now inst i) = fst (ds_add_token sha enc now inst i s)"
| "device_step sha s (DRename inst i name) = fst (ds_rename inst i name s)"
| "device_step sha s (DSetGrants inst i lan internet) = fst (ds_set_grants inst i lan internet s)"
| "device_step sha s (DRevoke now inst i reason) = fst (ds_revoke_record now inst i reason s)"
| "device_step sha s (DForget inst i) = fst (ds_forget inst i s)"
| "device_step sha s (DSetIdleDays n) = ds_set_idle_days n s"
| "device_step sha s (DNoteAction i a) = ds_note_action i a s"
| "device_step sha s (DRecord e) = ds_record e s"
| "device_step sha s (DFlush inst) = ds_flush inst s"

fun issues :: "str \<Rightarrow> device_op \<Rightarrow> bool" where
  "issues i (DIssue _ uuid _ _ _ _ _ _ _) \<longleftrightarrow> i = ''dev_'' @ uuid"
| "issues i _ \<longleftrightarrow> False"

text \<open>A device that is out: every record of its id is revoked and holds no hash and no grant.\<close>

definition dead_record :: "device_record \<Rightarrow> bool" where
  "dead_record d \<longleftrightarrow> dr_revoked d \<and> hashes d = [[]] \<and> \<not> dr_allow_dangerous d \<and> \<not> dr_allow_dangerous_internet d"

definition device_out :: "str \<Rightarrow> device_store \<Rightarrow> bool" where
  "device_out i s \<longleftrightarrow> (\<forall>d \<in> set (ds_devices s). dr_id d = i \<longrightarrow> dead_record d)"

lemma ds_update_cases:
  assumes "ds_update i f s = Some (s', d')"
  obtains k where "k < length (ds_devices s)" "dr_id (ds_devices s ! k) = i" "\<not> dr_revoked (ds_devices s ! k)"
    "d' = f (ds_devices s ! k)" "s' = s\<lparr>ds_devices := (ds_devices s)[k := d']\<rparr>"
  using assms by (auto simp: ds_update_def Let_def dest!: position_Some)

lemma ds_update_None: "ds_update i f s = None \<longleftrightarrow> (\<forall>d \<in> set (ds_devices s). dr_id d = i \<longrightarrow> dr_revoked d)"
  by (auto simp: ds_update_def)

lemma device_out_update:
  assumes out: "device_out i s" and k: "k < length (ds_devices s)" "\<not> dr_revoked (ds_devices s ! k)"
    and d: "dr_id d = dr_id (ds_devices s ! k)"
  shows "device_out i (s\<lparr>ds_devices := (ds_devices s)[k := d]\<rparr>)"
proof -
  have "dr_id (ds_devices s ! k) \<noteq> i"
    using out k by (auto simp: device_out_def dead_record_def)
  with out d show ?thesis by (auto simp: device_out_def dest!: set_update_subset_insert [THEN subsetD])
qed

lemma device_out_cong: "ds_devices s' = ds_devices s \<Longrightarrow> device_out i s' = device_out i s"
  by (simp add: device_out_def)

lemma device_out_persist [simp]: "device_out i (persist_locked inst s) = device_out i s"
  "device_out i (s\<lparr>ds_revocations := n\<rparr>) = device_out i s"
  by (simp_all add: device_out_def)

lemma device_out_ds_update:
  assumes "device_out i s" "ds_update j f s = Some (s', d')" "\<And>d. dr_id (f d) = dr_id d"
  shows "device_out i s'"
  using assms(2)
proof (cases rule: ds_update_cases)
  case (1 k)
  then show ?thesis using device_out_update [OF assms(1), of k d'] assms(3) by simp
qed

lemma authenticate_cases:
  assumes "ds_authenticate sha now inst token ip ing s = (s', r)"
  shows "(r = None \<and> s' = s) \<or> (\<exists>k d. k < length (ds_devices s) \<and> d = ds_devices s ! k
      \<and> record_matches d (sha256_hex sha token) \<and> \<not> dr_revoked d \<and> now - idle_since d \<le> idle_ms s
      \<and> starts_with token DEVICE_PREFIX
      \<and> (\<forall>j < k. \<not> record_matches (ds_devices s ! j) (sha256_hex sha token))
      \<and> r = Some \<lparr>da_id = dr_id d, da_name = dr_name d,
             da_allow_dangerous = (if ing = IngLan then dr_allow_dangerous d else dr_allow_dangerous_internet d)\<rparr>
      \<and> ds_devices s' = (ds_devices s)[k := d\<lparr>dr_last_seen_at := Some now, dr_last_ip := Some (show_ip ip),
                            dr_ingress := Some (ingress_as_str ing)\<rparr>])"
  using assms
  by (auto simp: ds_authenticate_def Let_def not_less dest!: position_Some split: if_splits option.splits)

lemma device_step_out:
  assumes out: "device_out i s" and op: "\<not> issues i opn"
  shows "device_out i (device_step sha s opn)"
proof (cases opn)
  case (DAuthenticate now inst token ip ing)
  obtain s' r where a: "ds_authenticate sha now inst token ip ing s = (s', r)" by fastforce
  from authenticate_cases [OF a] show ?thesis
  proof (elim disjE conjE exE)
    fix k d
    assume k: "k < length (ds_devices s)" "d = ds_devices s ! k" "\<not> dr_revoked d"
      and s': "ds_devices s' = (ds_devices s)[k := d\<lparr>dr_last_seen_at := Some now, dr_last_ip := Some (show_ip ip),
                            dr_ingress := Some (ingress_as_str ing)\<rparr>]"
    let ?d = "d\<lparr>dr_last_seen_at := Some now, dr_last_ip := Some (show_ip ip),
                            dr_ingress := Some (ingress_as_str ing)\<rparr>"
    have "device_out i (s\<lparr>ds_devices := (ds_devices s)[k := ?d]\<rparr>)"
      using k by (intro device_out_update [OF out]) auto
    with s' show ?thesis by (simp add: DAuthenticate a device_out_def)
  qed (use out a DAuthenticate in auto)
next
  case (DIssue enc uuid now inst name platform ua via ip)
  then show ?thesis using out op by (auto simp: ds_issue_def Let_def device_out_def device_record_default_def)
next
  case (DAddToken enc now inst j)
  then show ?thesis using out
    by (auto simp: ds_add_token_def Let_def split: option.splits dest!: device_out_ds_update [OF out])
next
  case (DRename inst j name)
  then show ?thesis using out
    by (auto simp: ds_rename_def Let_def split: option.splits dest!: device_out_ds_update [OF out])
next
  case (DSetGrants inst j lan internet)
  then show ?thesis using out
    by (auto simp: ds_set_grants_def Let_def split: option.splits dest!: device_out_ds_update [OF out])
next
  case (DRevoke now inst j reason)
  then show ?thesis using out
    by (auto simp: ds_revoke_record_def Let_def split: option.splits dest!: device_out_ds_update [OF out])
next
  case (DForget inst j)
  then show ?thesis using out by (auto simp: ds_forget_def Let_def device_out_def)
next
  case (DSetIdleDays n)
  then show ?thesis using out by (simp add: ds_set_idle_days_def device_out_def)
next
  case (DNoteAction j a)
  then show ?thesis using out by (simp add: ds_note_action_def Let_def device_out_def)
qed (use out in \<open>simp_all add: device_out_def\<close>)

lemma device_run_out:
  assumes "device_out i s" "\<forall>x \<in> set ops. \<not> issues i x"
  shows "device_out i (foldl (device_step sha) s ops)"
  using assms by (induction ops arbitrary: s) (auto intro: device_step_out)

lemma out_not_authenticated:
  assumes "device_out i s" "ds_authenticate sha now inst token ip ing s = (s', Some a)"
  shows "da_id a \<noteq> i"
  using authenticate_cases [OF assms(2)] assms(1) by (auto simp: device_out_def dead_record_def)

lemma out_no_token:
  assumes "device_out i s"
  shows "snd (ds_add_token sha enc now inst i s) = None" "\<not> ds_is_active i s"
proof -
  have "\<forall>d \<in> set (ds_devices s). dr_id d = i \<longrightarrow> dr_revoked d"
    using assms by (simp add: device_out_def dead_record_def)
  then have "ds_update i f s = None" for f by (simp add: ds_update_None)
  then show "snd (ds_add_token sha enc now inst i s) = None" by (simp add: ds_add_token_def Let_def)
  show "\<not> ds_is_active i s"
    using assms by (auto simp: ds_is_active_def list_ex_iff device_out_def dead_record_def)
qed

lemma revoke_record_out:
  assumes d: "distinct (map dr_id (ds_devices s))" and r: "ds_revoke_record now inst i reason s = (s', True)"
  shows "device_out i s'"
proof -
  from r obtain s1 d' where u: "ds_update i (\<lambda>d. d\<lparr>dr_revoked := True, dr_revoked_at := Some now,
             dr_revoke_reason := Some reason, dr_token_sha256 := [], dr_extra_token_sha256 := [],
             dr_allow_dangerous := False, dr_allow_dangerous_internet := False\<rparr>) s = Some (s1, d')"
    and s': "ds_devices s' = ds_devices s1"
    by (auto simp: ds_revoke_record_def Let_def split: option.splits)
  from u show ?thesis
  proof (cases rule: ds_update_cases)
    case (1 k)
    have unique: "j = k" if "j < length (ds_devices s)" "dr_id (ds_devices s ! j) = i" for j
      using that 1(1,2) d by (simp add: distinct_conv_nth) metis
    have dead: "dead_record d'" unfolding 1(4) by (simp add: dead_record_def hashes_def)
    show ?thesis
      unfolding device_out_def s' 1(5)
    proof (intro ballI impI)
      fix x assume x: "x \<in> set (ds_devices (s\<lparr>ds_devices := (ds_devices s)[k := d']\<rparr>))" "dr_id x = i"
      from x(1) obtain j where j: "j < length (ds_devices s)" "x = (ds_devices s)[k := d'] ! j"
        by (auto simp: in_set_conv_nth)
      show "dead_record x"
      proof (cases "j = k")
        case True
        then show ?thesis using j dead by simp
      next
        case False
        then show ?thesis using j x(2) unique [of j] by simp
      qed
    qed
  qed
qed

section \<open>Revocation\<close>

lemma sv_record_fields [simp]:
  "ds_devices (sv_devices (sv_record e sv)) = ds_devices (sv_devices sv)"
  "sv_pairing (sv_record e sv) = sv_pairing sv" "sv_hub (sv_record e sv) = sv_hub sv"
  "sv_limits (sv_record e sv) = sv_limits sv" "sv_frames (sv_record e sv) = sv_frames sv"
  "sv_push_forgotten (sv_record e sv) = sv_push_forgotten sv"
  by (simp_all add: sv_record_def)

lemma publish_fields [simp]:
  "sv_devices (broadcast f sv) = sv_devices sv" "sv_pairing (broadcast f sv) = sv_pairing sv"
  "sv_hub (broadcast f sv) = sv_hub sv" "sv_limits (broadcast f sv) = sv_limits sv"
  "sv_frames (broadcast f sv) = sv_frames sv @ [f]"
  "sv_push_forgotten (broadcast f sv) = sv_push_forgotten sv"
  by (simp_all add: broadcast_def)

lemmas publish_defs = publish_devices_def publish_desktop_notice_def publish_pair_request_def

lemma revoke_record_active:
  "ds_is_active i s \<longleftrightarrow> snd (ds_revoke_record now inst i reason s)"
  by (auto simp: ds_revoke_record_def Let_def ds_is_active_def list_ex_iff ds_update_None
      split: option.splits) (metis ds_update_None option.distinct(1))

lemma sockets_closed:
  "hm_wf (hu_clients h) \<Longrightarrow> sockets_of dev (fst (hub_close_device dev code h)) = []"
  by (auto simp: sockets_of_def close_device_exact filter_empty_conv)

text \<open>C9: A revoked device stays out. Revoking an active device closes all of its sockets, drops its push
  subscriptions and tells the desktop; from then on, whatever else happens to the store (other devices
  are issued, given tokens, renamed, granted rights, revoked, forgotten, this one too), no token at all
  is accepted as that device, it gets no new token, and it is not active. (Ids of records are unique, and
  no later device is issued under the same random id.)\<close>

theorem revoked_device_stays_out:
  fixes now inst reason sha
  assumes "distinct (map dr_id (ds_devices (sv_devices sv)))" and "hm_wf (hu_clients (sv_hub sv))"
    and "ds_is_active i (sv_devices sv)" and "\<forall>x \<in> set ops. \<not> issues i x"
  defines "sv' \<equiv> fst (revoke now inst i reason sv)"
  defines "s \<equiv> foldl (device_step sha) (sv_devices sv') ops"
  shows "snd (revoke now inst i reason sv)
    \<and> sockets_of i (sv_hub sv') = [] \<and> i \<in> set (sv_push_forgotten sv') \<and> FrDevices \<in> set (sv_frames sv')
    \<and> (\<forall>now2 inst2 token ip ing. case snd (ds_authenticate sha now2 inst2 token ip ing s) of
          Some a \<Rightarrow> da_id a \<noteq> i | None \<Rightarrow> True)
    \<and> (\<forall>enc now2 inst2. snd (ds_add_token sha enc now2 inst2 i s) = None) \<and> \<not> ds_is_active i s"
proof -
  obtain ds where r: "ds_revoke_record now inst i reason (sv_devices sv) = (ds, True)"
    using assms(3) revoke_record_active [of i "sv_devices sv" now inst reason] by (metis prod.collapse)
  obtain hub closed where h: "hub_close_device i CLOSE_UNAUTHORIZED (sv_hub sv) = (hub, closed)" by fastforce
  have sv': "sv_hub sv' = hub" "ds_devices (sv_devices sv') = ds_devices ds"
    "i \<in> set (sv_push_forgotten sv')" "FrDevices \<in> set (sv_frames sv')"
    "snd (revoke now inst i reason sv)"
    by (simp_all add: sv'_def revoke_def r h Let_def publish_defs)
  have "device_out i (sv_devices sv')"
    using revoke_record_out [OF assms(1) r] by (simp add: device_out_def sv'(2))
  then have out: "device_out i s" unfolding s_def using assms(4) by (rule device_run_out)
  have "sockets_of i (sv_hub sv') = []" using sockets_closed [OF assms(2)] h sv'(1) by (metis fst_conv)
  moreover have "case snd (ds_authenticate sha now2 inst2 token ip ing s) of Some a \<Rightarrow> da_id a \<noteq> i | None \<Rightarrow> True"
    for now2 inst2 token ip ing
  proof -
    obtain s2 r where a: "ds_authenticate sha now2 inst2 token ip ing s = (s2, r)" by fastforce
    show ?thesis using out_not_authenticated [OF out] a by (cases r) auto
  qed
  ultimately show ?thesis using sv' out_no_token [OF out] by blast
qed


definition example_device :: device_record where
  "example_device = device_record_default\<lparr>dr_id := ''dev_1'', dr_name := ''Phone'', dr_token_sha256 := ''61'',
     dr_created_at := 5\<rparr>"

definition example_server :: server where
  "example_server = \<lparr>sv_devices = (store_load False None None 0)\<lparr>ds_devices := [example_device]\<rparr>,
     sv_limits = auth_limiter_new, sv_pairing = pairing_new,
     sv_hub = hub_new\<lparr>hu_clients := [(1, \<lparr>ce_device_id = Some ''dev_1'', ce_desktop = False, ce_opened = 0\<rparr>)]\<rparr>,
     sv_frames = [], sv_push_forgotten = []\<rparr>"

lemmas example_defs = example_server_def example_device_def store_load_def device_record_default_def hub_new_def

theorem revoked_device_stays_out_witness:
  "\<not> ds_is_active ''dev_1'' (foldl (device_step (\<lambda>s. s))
      (sv_devices (fst (revoke 7 0 ''dev_1'' ''revoked'' example_server)))
      [DIssue ''xyz'' ''2'' 8 0 ''Tablet'' ''iOS'' None IngLan (V4 0), DAddToken ''abc'' 9 0 ''dev_1''])"
proof -
  have "ds_is_active ''dev_1'' (sv_devices example_server)"
    by (simp add: example_defs ds_is_active_def)
  moreover have "distinct (map dr_id (ds_devices (sv_devices example_server)))"
    and "hm_wf (hu_clients (sv_hub example_server))"
    by (simp_all add: example_defs)
  ultimately show ?thesis
    using revoked_device_stays_out [of example_server "''dev_1''"
        "[DIssue ''xyz'' ''2'' 8 0 ''Tablet'' ''iOS'' None IngLan (V4 0), DAddToken ''abc'' 9 0 ''dev_1'']"
        7 0 "''revoked''" "\<lambda>s. s"]
    by simp
qed

section \<open>Credentials\<close>

lemma then_some_iff [simp]: "then_some b x = Some y \<longleftrightarrow> b \<and> y = x"
  by (auto simp: then_some_def)

text \<open>What a credential must be to make its bearer a principal.\<close>

definition earned :: "(str \<Rightarrow> str) \<Rightarrow> auth \<Rightarrow> str list \<Rightarrow> int \<Rightarrow> ingress \<Rightarrow> socket_addr \<Rightarrow> header_map \<Rightarrow> str
    \<Rightarrow> device_store \<Rightarrow> principal \<Rightarrow> bool" where
  "earned sha au origins now ing peer hs token s p \<longleftrightarrow>
     (case p of
        Anonymous \<Rightarrow> False
      | Desktop \<Rightarrow> is_local ing peer hs \<and> token = au_token au
      | HookPlugin \<Rightarrow> is_local ing peer hs \<and> token = au_hook_token au
      | Sidecar \<Rightarrow> is_local ing peer hs \<and> token = au_sidecar_token au
      | LocalScript \<Rightarrow> token = au_script_token au
          \<and> (is_local ing peer hs
             \<or> (ing = IngBridgeLoopback \<and> is_machine_local ing peer hs
                \<and> (\<exists>w \<in> set origins. single_origin hs = Some w)))
      | Device i g \<Rightarrow> \<exists>d \<in> set (ds_devices s). dr_id d = i \<and> \<not> dr_revoked d \<and> now - idle_since d \<le> idle_ms s
          \<and> sha256_hex sha token \<in> set (hashes d) \<and> sha256_hex sha token \<noteq> []
          \<and> g = (if effective_ingress ing peer hs = IngLan then dr_allow_dangerous d
                 else dr_allow_dangerous_internet d))"

lemma token_earns:
  assumes "principal_for_token sha au origins now inst (context_new ing peer hs allow) token sv = (sv', Some p)"
  shows "earned sha au origins now ing peer hs token (sv_devices sv) p"
proof (cases "starts_with token DEVICE_PREFIX")
  case True
  obtain ds r where a: "ds_authenticate sha now inst token (client_ip ing peer hs) (effective_ingress ing peer hs)
      (sv_devices sv) = (ds, r)" by fastforce
  with assms True obtain d where "r = Some d" "p = Device (da_id d) (da_allow_dangerous d)"
    by (auto simp: principal_for_token_def context_new_def)
  with authenticate_cases [OF a] show ?thesis
    by (auto simp: earned_def record_matches_iff)
next
  case False
  with assms show ?thesis
    by (auto simp: principal_for_token_def context_new_def earned_def allowlisted_bridge_page_def
        split: if_splits option.splits)
qed


definition may_query :: "str list \<Rightarrow> ingress \<Rightarrow> socket_addr \<Rightarrow> header_map \<Rightarrow> bool" where
  "may_query origins ing peer hs \<longleftrightarrow>
     is_local ing peer hs \<or> allowlisted_bridge_page origins (context_new ing peer hs False)"

lemma context_new_fields [simp]:
  "cc_local (context_new ing peer hs allow) = is_local ing peer hs"
  "cc_on_machine (context_new ing peer hs allow) = is_machine_local ing peer hs"
  "cc_principal (context_new ing peer hs allow) = Anonymous"
  "cc_credential_rejected (context_new ing peer hs allow) = False"
  "cc_rate_key (context_new ing peer hs allow) = ctx_rate_key ing peer hs"
  "cc_effective_ingress (context_new ing peer hs allow) = effective_ingress ing peer hs"
  "cc_ingress (context_new ing peer hs allow) = ing"
  "cc_proxied (context_new ing peer hs allow) = has_proxy_headers hs"
  "cc_peer (context_new ing peer hs allow) = peer"
  by (simp_all add: context_new_def)

lemma context_new_plain [simp]:
  "(context_new ing peer hs allow)\<lparr>cc_credential_rejected := False\<rparr> = context_new ing peer hs allow"
  "(context_new ing peer hs allow)\<lparr>cc_principal := Anonymous\<rparr> = context_new ing peer hs allow"
  by (simp_all add: context_new_def)

lemma may_query_allow [simp]:
  "is_local ing peer hs \<or> allowlisted_bridge_page origins (context_new ing peer hs allow) \<longleftrightarrow> may_query origins ing peer hs"
  by (simp add: may_query_def allowlisted_bridge_page_def context_new_def)

lemma authenticate_result:
  assumes "authenticate sha au origins now inst hs uri (context_new ing peer hs allow) sv = (sv1, ctx, Inr u)"
  shows "\<exists>p rej. ctx = (context_new ing peer hs allow)\<lparr>cc_principal := p, cc_credential_rejected := rej\<rparr>
    \<and> (case presented_token hs uri (may_query origins ing peer hs) of
         None \<Rightarrow> p = Anonymous \<and> \<not> rej
       | Some token \<Rightarrow> (earned sha au origins now ing peer hs token (sv_devices sv) p \<and> \<not> rej)
           \<or> (p = Anonymous \<and> (rej \<longleftrightarrow> \<not> is_machine_local ing peer hs)))"
proof (cases "presented_token hs uri (may_query origins ing peer hs)")
  case None
  with assms have "ctx = context_new ing peer hs allow"
    by (simp add: authenticate_def Let_def)
  then show ?thesis using None
    by (intro exI [of _ Anonymous] exI [of _ False]) simp
next
  case (Some token)
  obtain sv2 r where p: "principal_for_token sha au origins now inst (context_new ing peer hs allow) token sv = (sv2, r)"
    by fastforce
  show ?thesis
  proof (cases r)
    case None
    with assms Some p have "reject_credential inst (context_new ing peer hs allow) sv2 = (sv1, ctx, Inr u)"
      by (simp add: authenticate_def Let_def)
    then have "ctx = (context_new ing peer hs allow)\<lparr>cc_credential_rejected := \<not> is_machine_local ing peer hs\<rparr>"
      by (cases "is_machine_local ing peer hs")
        (auto simp: reject_credential_def Let_def split_def split: option.splits)
    then show ?thesis using Some
      by (intro exI [of _ Anonymous] exI [of _ "\<not> is_machine_local ing peer hs"]) simp
  next
    case (Some q)
    with assms \<open>presented_token _ _ _ = _\<close> p have "ctx = (context_new ing peer hs allow)\<lparr>cc_principal := q\<rparr>"
      by (simp add: authenticate_def Let_def)
    then show ?thesis using Some \<open>presented_token _ _ _ = _\<close> p token_earns [of sha au origins now inst ing peer hs allow token sv sv2 q]
      by (intro exI [of _ q] exI [of _ False]) (simp add: context_new_def)
  qed
qed

lemma middleware_ran:
  assumes "middleware sha au origins now inst inst2 None (Some ing) (Some peer) hs uri run sv = (sv', Inr status)"
  shows "\<exists>sv1 ctx u sv2. authenticate sha au origins now inst hs uri
      (context_new ing peer hs (au_allow_remote_dangerous au)) sv = (sv1, ctx, Inr u) \<and> snd (run ctx sv2) = status
      \<and> (let limited = (cc_principal ctx = Anonymous \<and> \<not> cc_on_machine ctx);
             auth = (limited \<and> is_auth_path (ur_path uri));
             blocked = snd (al_blocked inst (sv_limits sv1) (cc_rate_key ctx))
         in sv2 = (if auth then sv1\<lparr>sv_limits := fst (al_blocked inst (sv_limits sv1) (cc_rate_key ctx))\<rparr> else sv1)
            \<and> (auth \<longrightarrow> blocked = None)
            \<and> sv' = (let sv3 = fst (run ctx sv2) in
                if limited \<and> \<not> cc_credential_rejected ctx \<and> status = 401
                then sv3\<lparr>sv_limits := al_record_failure inst2 (sv_limits sv3) (cc_rate_key ctx)\<rparr> else sv3))"
proof -
  obtain sv1 ctx r where a: "authenticate sha au origins now inst hs uri
      (context_new ing peer hs (au_allow_remote_dangerous au)) sv = (sv1, ctx, r)"
    by (metis prod_cases3)
  from assms a obtain u where r: "r = Inr u" by (cases r) (auto simp: middleware_def)
  define auth where "auth \<longleftrightarrow> cc_principal ctx = Anonymous \<and> \<not> cc_on_machine ctx \<and> is_auth_path (ur_path uri)"
  define sv2 where "sv2 = (if auth then sv1\<lparr>sv_limits := fst (al_blocked inst (sv_limits sv1) (cc_rate_key ctx))\<rparr> else sv1)"
  obtain l b where l: "(if auth then al_blocked inst (sv_limits sv1) (cc_rate_key ctx) else (sv_limits sv1, None)) = (l, b)"
    by fastforce
  then have sv2: "sv1\<lparr>sv_limits := l\<rparr> = sv2" "b = None \<Longrightarrow> auth \<Longrightarrow> snd (al_blocked inst (sv_limits sv1) (cc_rate_key ctx)) = None"
    by (auto simp: sv2_def split: if_splits)
  obtain sv3 st where run: "run ctx sv2 = (sv3, st)" by fastforce
  from assms have res: "b = None \<and> st = status \<and> sv' = (if (cc_principal ctx = Anonymous \<and> \<not> cc_on_machine ctx)
          \<and> \<not> cc_credential_rejected ctx \<and> status = 401
        then sv3\<lparr>sv_limits := al_record_failure inst2 (sv_limits sv3) (cc_rate_key ctx)\<rparr> else sv3)"
    by (cases b) (auto simp: middleware_def a r Let_def auth_def [symmetric] l sv2 run)
  show ?thesis
    using res sv2(2) run
    by (intro exI [of _ sv1] exI [of _ ctx] exI [of _ u] exI [of _ sv2])
      (simp add: a r Let_def auth_def [symmetric] sv2_def)
qed


text \<open>C5: Nobody is anybody without the credential for it. Whatever request reaches a handler through the
  context middleware, its principal was earned: the desktop's, the hook plugin's and the sidecar's token
  count only from a page or program of this machine, the local-script token there or from an allowlisted
  page on the bridge's own port, and a device only by a token whose hash an unrevoked device that is not
  idle too long holds, with the grant for the ingress the request really came through. Behind a proxy or
  tunnel only a device's own token counts, and only as a bearer token; everybody else is anonymous.\<close>

theorem principal_is_earned:
  assumes "middleware sha au origins now inst inst2 None (Some ing) (Some peer) hs uri run sv = (sv', Inr status)"
  shows "\<exists>p rej sv1.
      snd (run ((context_new ing peer hs (au_allow_remote_dangerous au))
                 \<lparr>cc_principal := p, cc_credential_rejected := rej\<rparr>) sv1) = status
    \<and> (case presented_token hs uri (may_query origins ing peer hs) of
         None \<Rightarrow> p = Anonymous \<and> \<not> rej
       | Some token \<Rightarrow> (earned sha au origins now ing peer hs token (sv_devices sv) p \<and> \<not> rej)
           \<or> (p = Anonymous \<and> (rej \<longleftrightarrow> \<not> is_machine_local ing peer hs)))
    \<and> (effective_ingress ing peer hs = IngTunnel \<longrightarrow>
         (p = Anonymous \<or> (\<exists>i g. p = Device i g))
         \<and> presented_token hs uri (may_query origins ing peer hs) = bearer_token hs)"
proof -
  from middleware_ran [OF assms] obtain sv1 ctx u sv2
    where a: "authenticate sha au origins now inst hs uri
      (context_new ing peer hs (au_allow_remote_dangerous au)) sv = (sv1, ctx, Inr u)"
      and run: "snd (run ctx sv2) = status" by blast
  from authenticate_result [OF a] obtain p rej
    where ctx: "ctx = (context_new ing peer hs (au_allow_remote_dangerous au))
        \<lparr>cc_principal := p, cc_credential_rejected := rej\<rparr>"
      and p: "case presented_token hs uri (may_query origins ing peer hs) of
         None \<Rightarrow> p = Anonymous \<and> \<not> rej
       | Some token \<Rightarrow> (earned sha au origins now ing peer hs token (sv_devices sv) p \<and> \<not> rej)
           \<or> (p = Anonymous \<and> (rej \<longleftrightarrow> \<not> is_machine_local ing peer hs))" by blast
  have "(p = Anonymous \<or> (\<exists>i g. p = Device i g))
      \<and> presented_token hs uri (may_query origins ing peer hs) = bearer_token hs"
    if tunnel: "effective_ingress ing peer hs = IngTunnel"
  proof -
    from tunnel_not_local [OF tunnel] have loc: "\<not> is_machine_local ing peer hs" "\<not> is_local ing peer hs" by auto
    then have "\<not> may_query origins ing peer hs"
      by (simp add: may_query_def allowlisted_bridge_page_def)
    moreover have "p = Anonymous \<or> (\<exists>i g. p = Device i g)"
      using p loc by (cases p) (auto simp: earned_def split: option.splits)
    ultimately show ?thesis by (simp add: presented_token_def split: option.splits)
  qed
  with ctx run p show ?thesis by blast
qed

text \<open>Two requests that reach a handler: a device in the home network, and the desktop's token through a
  tunnel, which is worth nothing there.\<close>

definition example_auth :: auth where
  "example_auth = \<lparr>au_token = ''aa'', au_script_token = ''bb'', au_hook_token = ''mch_c'',
     au_sidecar_token = ''mcs_d'', au_allow_remote_dangerous = False\<rparr>"


definition lan_request :: "header_map" where
  "lan_request = [(''authorization'', ''Bearer mcd_x'')]"

definition lan_peer :: socket_addr where
  "lan_peer = \<lparr>sa_ip = V4 0xC0A80105, sa_port = 5000\<rparr>"

definition answer :: "client_context \<Rightarrow> server \<Rightarrow> server \<times> nat" where
  "answer ctx sv = (sv, if cc_principal ctx = Device ''dev_1'' False then 200 else 401)"

lemma lan_request_facts:
  "has_proxy_headers lan_request = False" "is_private_ip (sa_ip lan_peer)"
  "bearer_token lan_request = Some ''mcd_x''"
  "sha256_hex (\<lambda>_. ''a'') ''mcd_x'' = ''61''" "starts_with ''mcd_x'' DEVICE_PREFIX"
  by code_simp+

lemma lan_ingress: "effective_ingress IngLan lan_peer lan_request = IngLan"
  by (simp add: effective_ingress_def lan_request_facts)

lemma lan_device:
  "snd (ds_authenticate (\<lambda>_. ''a'') 10 0 ''mcd_x'' ip IngLan (sv_devices example_server))
     = Some \<lparr>da_id = ''dev_1'', da_name = ''Phone'', da_allow_dangerous = False\<rparr>"
  by (simp add: ds_authenticate_def Let_def lan_request_facts example_defs record_matches_iff hashes_def
      idle_since_def idle_ms_def DAY_MS_def DEFAULT_IDLE_DAYS_def opt_filter_def)

lemma lan_request_answered:
  "\<exists>sv'. middleware (\<lambda>_. ''a'') example_auth [] 10 0 0 None (Some IngLan) (Some lan_peer) lan_request
     \<lparr>ur_path = ''/api/me'', ur_query = None\<rparr> answer example_server = (sv', Inr 200)"
proof -
  let ?ctx = "context_new IngLan lan_peer lan_request False"
  obtain ds where "ds_authenticate (\<lambda>_. ''a'') 10 0 ''mcd_x'' (cc_client_ip ?ctx) IngLan (sv_devices example_server)
      = (ds, Some \<lparr>da_id = ''dev_1'', da_name = ''Phone'', da_allow_dangerous = False\<rparr>)"
    using lan_device by (metis prod.collapse)
  then show ?thesis
    by (simp add: middleware_def authenticate_def presented_token_def principal_for_token_def lan_request_facts
        lan_ingress example_auth_def answer_def Let_def)
qed

theorem principal_is_earned_witness:
  "\<exists>p rej sv1. snd (answer ((context_new IngLan lan_peer lan_request False)
     \<lparr>cc_principal := p, cc_credential_rejected := rej\<rparr>) sv1) = 200"
proof -
  from lan_request_answered obtain sv' where "middleware (\<lambda>_. ''a'') example_auth [] 10 0 0 None (Some IngLan)
     (Some lan_peer) lan_request \<lparr>ur_path = ''/api/me'', ur_query = None\<rparr> answer example_server = (sv', Inr 200)"
    by blast
  from principal_is_earned [OF this] show ?thesis by (auto simp: example_auth_def)
qed

end
