(* ===== verification/PairingProofs.thy ===== *)
theory PairingProofs
  imports Pairing DeviceProofs
begin

text \<open>
  The theorems on pairing. Every way the program touches the pairing state is a labelled step
  (\<open>pair_step\<close>); each request, seen by its id, moves along a small life cycle (\<open>life\<close>), and what can be
  said of a request over a run is read off that life cycle.
\<close>

section \<open>Requests by id\<close>

definition lookup_pair :: "str \<Rightarrow> pairing_state \<Rightarrow> pending_pair option" where
  "lookup_pair i g = find (\<lambda>p. pp_id p = i) (ps_pending g)"

definition pair_ids :: "pairing_state \<Rightarrow> str list" where
  "pair_ids g = map pp_id (ps_pending g)"

lemma find_append: "find P (xs @ ys) = (case find P xs of Some x \<Rightarrow> Some x | None \<Rightarrow> find P ys)"
  by (induction xs) auto

lemma find_id_None: "find (\<lambda>p. pp_id p = i) ps = None \<longleftrightarrow> i \<notin> pp_id ` set ps"
  by (induction ps) auto

lemma find_id_Some: "find (\<lambda>p. pp_id p = i) ps = Some p \<Longrightarrow> p \<in> set ps \<and> pp_id p = i"
  by (auto simp: find_Some_iff)

lemma map_id_update_first [simp]:
  "(\<And>x. pp_id (f x) = pp_id x) \<Longrightarrow> map pp_id (update_first P f ps) = map pp_id ps"
  by (induction ps) auto

lemma find_update_first:
  assumes "distinct (map pp_id ps)" "\<And>x. P x \<Longrightarrow> pp_id x = i" "\<And>x. pp_id (f x) = pp_id x"
  shows "find (\<lambda>p. pp_id p = j) (update_first P f ps)
    = (if j = i then map_option (\<lambda>p. if P p then f p else p) (find (\<lambda>p. pp_id p = j) ps)
       else find (\<lambda>p. pp_id p = j) ps)"
  using assms
proof (induction ps)
  case (Cons x ps)
  show ?case
  proof (cases "pp_id x = j")
    case True
    then show ?thesis using Cons.prems(2,3) by auto
  next
    case False
    then have "find (\<lambda>p. pp_id p = j) (update_first P f (x # ps)) = find (\<lambda>p. pp_id p = j) (update_first P f ps) \<or> P x"
      using Cons.prems(3) by auto
    moreover have "find (\<lambda>p. pp_id p = j) (update_first P f (x # ps)) = find (\<lambda>p. pp_id p = j) ps" if "P x"
      using that False Cons.prems(3) by simp
    moreover have "j \<noteq> i" if "P x" using that False Cons.prems(2) by blast
    ultimately show ?thesis using False Cons by auto
  qed
qed simp

lemma find_map_filter:
  assumes "distinct (map pp_id ps)" "\<And>x. pp_id (f x) = pp_id x"
  shows "find (\<lambda>p. pp_id p = j) (filter K (map f ps))
    = Option.bind (find (\<lambda>p. pp_id p = j) ps) (\<lambda>p. if K (f p) then Some (f p) else None)"
  using assms
proof (induction ps)
  case (Cons x ps)
  have "find (\<lambda>p. pp_id p = j) (filter K (map f ps)) = None" if "j \<notin> pp_id ` set ps"
    using that assms(2) by (auto simp: find_id_None)
  with Cons show ?case by auto
qed simp

lemma expire_pair_id [simp]: "pp_id (expire_pair now p) = pp_id p"
  by (simp add: expire_pair_def)

lemma prune_pending: "ps_pending (fst (pair_prune now g)) = filter (keep_pair now) (map (expire_pair now) (ps_pending g))"
  by (simp add: pair_prune_def Let_def)

lemma prune_codes: "ps_codes (fst (pair_prune now g)) = filter (\<lambda>c. now < cd_expires_at c) (ps_codes g)"
  by (simp add: pair_prune_def Let_def)

lemma lookup_prune:
  assumes "distinct (pair_ids g)"
  shows "lookup_pair i (fst (pair_prune now g))
    = Option.bind (lookup_pair i g) (\<lambda>p. if keep_pair now (expire_pair now p) then Some (expire_pair now p) else None)"
  using find_map_filter [of "ps_pending g" "expire_pair now" i "keep_pair now"] assms
  by (simp add: lookup_pair_def prune_pending pair_ids_def)

lemma distinct_filter_map:
  "distinct (map pp_id ps) \<Longrightarrow> distinct (map pp_id (filter K (map (expire_pair now) ps)))"
  by (induction ps) auto

lemma prune_ids: "distinct (pair_ids g) \<Longrightarrow> distinct (pair_ids (fst (pair_prune now g)))
    \<and> set (pair_ids (fst (pair_prune now g))) \<subseteq> set (pair_ids g)"
  using distinct_filter_map [of "ps_pending g" "keep_pair now" now]
  by (auto simp: pair_ids_def prune_pending)

section \<open>The life of a request\<close>

datatype request =
    Unborn
  | Waiting str str nat bool
  | Ready str
  | Collected
  | Denied
  | Expired
  | Gone

text \<open>A waiting request has a fingerprint, the hash of its poll secret, the wrong attempts so far and whether
  it is contested; an approved one whose token was not collected has the hash.\<close>

definition stage :: "pending_pair \<Rightarrow> request" where
  "stage p =
     (case pp_status p of
        PairPending \<Rightarrow> Waiting (pp_fingerprint p) (pp_poll_secret_sha p) (pp_fingerprint_attempts p) (pp_contested p)
      | PairApproved \<Rightarrow> if pp_token p = None then Collected else Ready (pp_poll_secret_sha p)
      | PairDenied \<Rightarrow> Denied
      | PairExpired \<Rightarrow> Expired)"

text \<open>A configuration: the server, and the ids of all requests so far.\<close>

type_synonym config = "server \<times> str set"

definition request_in :: "str \<Rightarrow> pending_pair list \<Rightarrow> str set \<Rightarrow> request" where
  "request_in i ps u =
     (case find (\<lambda>p. pp_id p = i) ps of Some p \<Rightarrow> stage p | None \<Rightarrow> if i \<in> u then Gone else Unborn)"

definition request_of :: "str \<Rightarrow> config \<Rightarrow> request" where
  "request_of i c = request_in i (ps_pending (sv_pairing (fst c))) (snd c)"

datatype pair_event =
    EvCreate str
  | EvExchange str
  | EvPoll str "str option" "api_error + json"
  | EvApprove client_context str str
  | EvDeny client_context str
  | EvOther

text \<open>Every step of the program on the pairing state. The ids of new requests are fresh. The last rule
  stands for all the rest of the program: the state is private to its module.\<close>

inductive pair_step :: "(str \<Rightarrow> str) \<Rightarrow> pair_event \<Rightarrow> config \<Rightarrow> config \<Rightarrow> bool" for sha where
  step_create: "create_code lan public qr now fr ctx req sv = (sv', r)
    \<Longrightarrow> pair_step sha (EvCreate (new_code (fr_bytes fr))) (sv, u) (sv', u)"
| step_decide: "exchange_decide sha now fr ctx code name platform ua provider (sv_pairing sv) = (g, v)
    \<Longrightarrow> ''pp_'' @ fr_uuid fr \<notin> u
    \<Longrightarrow> pair_step sha (EvExchange (''pp_'' @ fr_uuid fr)) (sv, u)
          (sv\<lparr>sv_pairing := g\<rparr>, insert (''pp_'' @ fr_uuid fr) u)"
| step_carry_out: "carry_out sha now inst fr ctx code name platform ua provider pl sv = (sv', r)
    \<Longrightarrow> pair_step sha EvOther (sv, u) (sv', u)"
| step_poll: "poll sha now inst ctx i secret sv = (sv', r) \<Longrightarrow> pair_step sha (EvPoll i secret r) (sv, u) (sv', u)"
| step_approve: "approve sha now inst fr ctx i fp sv = (sv', r)
    \<Longrightarrow> pair_step sha (EvApprove ctx i fp) (sv, u) (sv', u)"
| step_deny: "deny now ctx i sv = (sv', r) \<Longrightarrow> pair_step sha (EvDeny ctx i) (sv, u) (sv', u)"
| step_sweep: "pair_step sha EvOther (sv, u) (sweep now sv, u)"
| step_views: "pair_step sha EvOther (sv, u) (sv\<lparr>sv_pairing := fst (pending_views now (sv_pairing sv))\<rparr>, u)"
| step_other: "sv_pairing sv' = sv_pairing sv \<Longrightarrow> pair_step sha EvOther (sv, u) (sv', u)"

inductive life :: "(str \<Rightarrow> str) \<Rightarrow> str \<Rightarrow> pair_event \<Rightarrow> request \<Rightarrow> request \<Rightarrow> bool" for sha i where
  life_born: "life sha i (EvExchange i) Unborn (Waiting f s 0 False)"
| life_void: "life sha i (EvExchange i) Unborn Gone"
| life_contest: "life sha i (EvExchange j) (Waiting f s n c) (Waiting f s n True)"
| life_typo: "is_desktop ctx \<Longrightarrow> \<not> (digits_of fp = f \<and> length (digits_of fp) = 4) \<Longrightarrow> n + 1 < MAX_FINGERPRINT_ATTEMPTS
    \<Longrightarrow> life sha i (EvApprove ctx i fp) (Waiting f s n False) (Waiting f s (n + 1) False)"
| life_lockout: "is_desktop ctx \<Longrightarrow> \<not> (digits_of fp = f \<and> length (digits_of fp) = 4) \<Longrightarrow> n + 1 = MAX_FINGERPRINT_ATTEMPTS
    \<Longrightarrow> life sha i (EvApprove ctx i fp) (Waiting f s n False) Denied"
| life_approve: "is_desktop ctx \<Longrightarrow> digits_of fp = f \<Longrightarrow> length (digits_of fp) = 4 \<Longrightarrow> n < MAX_FINGERPRINT_ATTEMPTS
    \<Longrightarrow> life sha i (EvApprove ctx i fp) (Waiting f s n False) (Ready s)"
| life_deny: "is_desktop ctx \<Longrightarrow> life sha i (EvDeny ctx i) (Waiting f s n c) Denied"
| life_collect: "sha256_hex sha secret = s
    \<Longrightarrow> life sha i (EvPoll i (Some secret) (Inr body)) (Ready s) Collected"
| life_expire: "life sha i e (Waiting f s n c) Expired"
| life_forget: "r \<in> {Collected, Denied, Expired} \<or> (\<exists>s. r = Ready s) \<Longrightarrow> life sha i e r Gone"

section \<open>The invariant\<close>

definition pair_ok :: "pending_pair \<Rightarrow> bool" where
  "pair_ok p \<longleftrightarrow>
     (pp_status p = PairPending \<longrightarrow> pp_fingerprint_attempts p < MAX_FINGERPRINT_ATTEMPTS \<and> pp_decided_at p = None)
     \<and> pp_fingerprint_attempts p \<le> MAX_FINGERPRINT_ATTEMPTS
     \<and> (pp_status p \<noteq> PairPending \<longrightarrow> pp_decided_at p \<noteq> None)
     \<and> (pp_token p \<noteq> None \<longrightarrow> pp_status p = PairApproved)
     \<and> (pp_status p = PairApproved \<longrightarrow> \<not> pp_contested p)"

definition waiting :: "pairing_state \<Rightarrow> nat" where
  "waiting g = length (filter (\<lambda>p. pp_status p = PairPending) (ps_pending g))"

definition state_ok :: "pairing_state \<Rightarrow> bool" where
  "state_ok g \<longleftrightarrow> distinct (pair_ids g) \<and> (\<forall>p \<in> set (ps_pending g). pair_ok p)
     \<and> waiting g \<le> MAX_PENDING \<and> length (filter unused (ps_codes g)) \<le> MAX_ACTIVE_CODES"

definition config_ok :: "config \<Rightarrow> bool" where
  "config_ok c \<longleftrightarrow> state_ok (sv_pairing (fst c)) \<and> set (pair_ids (sv_pairing (fst c))) \<subseteq> snd c"

lemma pair_ok_expire: "pair_ok p \<Longrightarrow> pair_ok (expire_pair now p)"
  by (auto simp: pair_ok_def expire_pair_def)

lemma waiting_filter_le:
  "length (filter (\<lambda>p. pp_status p = PairPending) (filter K (map (expire_pair now) ps)))
     \<le> length (filter (\<lambda>p. pp_status p = PairPending) ps)"
  by (induction ps) (auto simp: expire_pair_def)

lemma unused_filter_le: "length (filter unused (filter K cs)) \<le> length (filter unused cs)"
  by (induction cs) auto

lemma prune_ok: "state_ok g \<Longrightarrow> state_ok (fst (pair_prune now g))"
  using prune_ids [of g now] waiting_filter_le [of "keep_pair now" now "ps_pending g"]
    unused_filter_le [of "\<lambda>c. now < cd_expires_at c" "ps_codes g"]
  by (auto simp: state_ok_def prune_pending prune_codes waiting_def pair_ok_expire)

section \<open>The steps\<close>

text \<open>Pruning moves a request to \<open>Expired\<close> or \<open>Gone\<close> or leaves it.\<close>

lemma prune_life:
  fixes i :: str and now :: int
  assumes ok: "state_ok g" and u: "set (pair_ids g) \<subseteq> u"
  defines "r \<equiv> request_in i (ps_pending g) u" and "r' \<equiv> request_in i (ps_pending (fst (pair_prune now g))) u"
  shows "r' = r \<or> (r' \<in> {Expired, Gone} \<and> life sha i e r r')"
proof (cases "lookup_pair i g")
  case None
  then have "lookup_pair i (fst (pair_prune now g)) = None"
    using ok by (simp add: state_ok_def lookup_prune)
  with None show ?thesis by (simp add: r_def r'_def request_in_def lookup_pair_def)
next
  case (Some p)
  then have p: "p \<in> set (ps_pending g)" "pp_id p = i" unfolding lookup_pair_def by (auto dest: find_id_Some)
  with u have i: "i \<in> u" by (auto simp: pair_ids_def)
  have r: "r = stage p" using Some by (simp add: r_def request_in_def lookup_pair_def)
  have r': "r' = (if keep_pair now (expire_pair now p) then stage (expire_pair now p) else Gone)"
    using ok Some i lookup_prune [of g i now] by (simp add: r'_def request_in_def state_ok_def lookup_pair_def)
  have kept: "keep_pair now (expire_pair now p)" if "pp_status p = PairPending"
    using that by (auto simp: keep_pair_def expire_pair_def DECIDED_KEEP_MS_def)
  show ?thesis
  proof (cases "pp_status p = PairPending")
    case True
    then show ?thesis using r r' kept
      by (cases "now \<ge> pp_expires_at p") (auto simp: stage_def expire_pair_def intro: life_expire)
  next
    case False
    then have "expire_pair now p = p" by (simp add: expire_pair_def)
    moreover have "life sha i e (stage p) Gone"
      using False by (intro life_forget) (auto simp: stage_def split: pending_status.splits)
    ultimately show ?thesis using r r' by auto
  qed
qed

text \<open>A step that prunes first: what it does to the pruned state is what it does.\<close>

lemma after_prune:
  assumes "state_ok g" "set (pair_ids g) \<subseteq> u"
    and "request_in i ps' u' = request_in i (ps_pending (fst (pair_prune now g))) u
      \<or> (request_in i (ps_pending (fst (pair_prune now g))) u \<notin> {Expired, Gone}
         \<and> life sha i e (request_in i (ps_pending (fst (pair_prune now g))) u) (request_in i ps' u'))"
  shows "stutter (life sha i) e (request_in i (ps_pending g) u) (request_in i ps' u')"
  using prune_life [OF assms(1,2), of i now sha e] assms(3) by (auto simp: stutter_def)

lemma request_update_first:
  assumes "distinct (map pp_id ps)" "\<And>x. P x \<Longrightarrow> pp_id x = j" "\<And>x. pp_id (f x) = pp_id x"
  shows "request_in i (update_first P f ps) u
    = (if i = j then case find (\<lambda>p. pp_id p = i) ps of
                       Some p \<Rightarrow> stage (if P p then f p else p) | None \<Rightarrow> request_in i ps u
       else request_in i ps u)"
  using find_update_first [OF assms, where j = i] by (auto simp: request_in_def split: option.splits)


text \<open>What a step leaves alone or does to a single request.\<close>

definition keeps :: "config \<Rightarrow> int option \<Rightarrow> pending_pair list \<Rightarrow> bool" where
  "keeps c now ps \<longleftrightarrow> ps = (case now of None \<Rightarrow> ps_pending (sv_pairing (fst c))
                               | Some t \<Rightarrow> ps_pending (fst (pair_prune t (sv_pairing (fst c)))))"

lemma keeps_life:
  assumes ok: "config_ok (sv, u)" and k: "keeps (sv, u) now (ps_pending (sv_pairing sv'))"
  shows "stutter (life sha i) e (request_of i (sv, u)) (request_of i (sv', u))"
proof (cases now)
  case None
  with k show ?thesis by (simp add: keeps_def request_of_def stutter_def)
next
  case (Some t)
  have "stutter (life sha i) e (request_in i (ps_pending (sv_pairing sv)) u) (request_in i (ps_pending (sv_pairing sv')) u)"
    using ok k Some by (intro after_prune [where now = t]) (auto simp: config_ok_def keeps_def)
  then show ?thesis by (simp add: request_of_def)
qed

lemma update_life:
  assumes ok: "config_ok (sv, u)"
    and ps: "ps_pending (sv_pairing sv') = update_first P f (ps_pending (fst (pair_prune now (sv_pairing sv))))"
    and P: "\<And>x. P x \<Longrightarrow> pp_id x = j" "\<And>x. pp_id (f x) = pp_id x"
    and find: "\<And>p. find (\<lambda>x. pp_id x = j) (ps_pending (fst (pair_prune now (sv_pairing sv)))) = Some p \<Longrightarrow> P p
        \<Longrightarrow> i = j \<Longrightarrow> stage p \<notin> {Expired, Gone} \<and> life sha i e (stage p) (stage (f p))"
  shows "stutter (life sha i) e (request_of i (sv, u)) (request_of i (sv', u))"
proof -
  let ?g = "fst (pair_prune now (sv_pairing sv))"
  have d: "distinct (map pp_id (ps_pending ?g))"
    using ok prune_ids [of "sv_pairing sv" now] by (simp add: config_ok_def state_ok_def pair_ids_def)
  have "stutter (life sha i) e (request_in i (ps_pending (sv_pairing sv)) u) (request_in i (ps_pending (sv_pairing sv')) u)"
  proof (rule after_prune [where now = now])
    show "state_ok (sv_pairing sv)" "set (pair_ids (sv_pairing sv)) \<subseteq> u" using ok by (auto simp: config_ok_def)
    show "request_in i (ps_pending (sv_pairing sv')) u = request_in i (ps_pending ?g) u
      \<or> (request_in i (ps_pending ?g) u \<notin> {Expired, Gone}
         \<and> life sha i e (request_in i (ps_pending ?g) u) (request_in i (ps_pending (sv_pairing sv')) u))"
      unfolding ps using request_update_first [OF d P, where i = i and u = u] find
      by (cases "find (\<lambda>x. pp_id x = j) (ps_pending ?g)") (auto simp: request_in_def)
  qed
  then show ?thesis by (simp add: request_of_def)
qed

lemma update_life_at:
  assumes "config_ok (sv, u)"
    and "ps_pending (sv_pairing sv') = update_first (\<lambda>x. pp_id x = j) f (ps_pending (fst (pair_prune now (sv_pairing sv))))"
    and p: "find (\<lambda>x. pp_id x = j) (ps_pending (fst (pair_prune now (sv_pairing sv)))) = Some p"
    and "\<And>x. pp_id (f x) = pp_id x" "stage p \<notin> {Expired, Gone}"
    and "life sha j e (stage p) (stage (f p))"
  shows "stutter (life sha i) e (request_of i (sv, u)) (request_of i (sv', u))"
proof (rule update_life [OF assms(1,2)])
  fix q assume "find (\<lambda>x. pp_id x = j) (ps_pending (fst (pair_prune now (sv_pairing sv)))) = Some q" "i = j"
  then have "q = p" using p by (metis option.inject)
  then show "stage q \<notin> {Expired, Gone} \<and> life sha i e (stage q) (stage (f q))" using assms(5,6) \<open>i = j\<close> by blast
qed (use assms(4) in auto)

lemma create_keeps: "create_code lan public qr now fr ctx req sv = (sv', r)
    \<Longrightarrow> ps_pending (sv_pairing sv') \<in> {ps_pending (sv_pairing sv), ps_pending (fst (pair_prune now (sv_pairing sv)))}"
  by (auto simp: create_code_def add_code_def Let_def split: sum.splits prod.splits)

lemma carry_out_keeps: "carry_out sha now inst fr ctx code name platform ua provider pl sv = (sv', r)
    \<Longrightarrow> ps_pending (sv_pairing sv') = ps_pending (sv_pairing sv)"
  by (cases pl) (auto simp: carry_out_def Let_def publish_defs announce_new_device_def note_used_by_def
      split: prod.splits option.splits)

lemma pair_limit_fields: "check_pair_limit inst ctx sv = (sv', r) \<Longrightarrow> sv_pairing sv' = sv_pairing sv"
  by (auto simp: check_pair_limit_def Let_def split: prod.splits option.splits)

lemma find_poll:
  assumes "distinct (map pp_id ps)" "find (poll_matches i h) ps = Some p"
  shows "find (\<lambda>x. pp_id x = i) ps = Some p" "poll_matches i h p"
proof -
  from assms(2) show "poll_matches i h p" by (auto simp: find_Some_iff)
  then have i: "p \<in> set ps" "pp_id p = i" using assms(2) by (auto simp: poll_matches_def find_Some_iff)
  then obtain q where q: "find (\<lambda>x. pp_id x = i) ps = Some q"
    by (cases "find (\<lambda>x. pp_id x = i) ps") (auto simp: find_id_None)
  then have "q \<in> set ps" "pp_id q = i" by (auto dest: find_id_Some)
  with i assms(1) have "q = p" by (auto simp: distinct_map inj_on_def)
  with q show "find (\<lambda>x. pp_id x = i) ps = Some p" by simp
qed

lemma poll_shape:
  assumes "poll sha now inst ctx i secret sv = (sv', r)"
  shows "ps_pending (sv_pairing sv') = ps_pending (sv_pairing sv)
    \<or> ps_pending (sv_pairing sv') = ps_pending (fst (pair_prune now (sv_pairing sv)))
    \<or> (\<exists>w p t. secret = Some w \<and> find (poll_matches i (sha256_hex sha w)) (ps_pending (fst (pair_prune now (sv_pairing sv)))) = Some p
        \<and> pp_status p = PairApproved \<and> \<not> pp_contested p \<and> pp_token p = Some t
        \<and> r = Inr (poll_reply ''approved'' [(''token'', JStr t), (''deviceId'', opt_str (pp_device_id p)),
                     (''name'', JStr (pp_device_name p))])
        \<and> ps_pending (sv_pairing sv') = update_first (poll_matches i (sha256_hex sha w))
            (\<lambda>x. x\<lparr>pp_token := None\<rparr>) (ps_pending (fst (pair_prune now (sv_pairing sv)))))"
proof -
  obtain sv1 lr where l: "check_pair_limit inst ctx sv = (sv1, lr)" by fastforce
  note p1 = pair_limit_fields [OF l]
  let ?g = "fst (pair_prune now (sv_pairing sv))"
  let ?h = "case secret of Some s \<Rightarrow> sha256_hex sha s | None \<Rightarrow> []"
  show ?thesis
  proof (cases lr)
    case (Inl e)
    with assms l p1 show ?thesis by (auto simp: poll_def)
  next
    case (Inr a)
    show ?thesis
    proof (cases "find (poll_matches i ?h) (ps_pending ?g)")
      case None
      with assms l p1 Inr show ?thesis by (auto simp: poll_def Let_def pair_failure_def)
    next
      case (Some p)
      then have m: "poll_matches i ?h p" by (auto simp: find_Some_iff)
      then obtain w where w: "secret = Some w" by (cases secret) (auto simp: poll_matches_def)
      show ?thesis
        using assms l p1 Inr Some w
        by (cases "pp_contested p"; cases "pp_status p"; cases "pp_token p")
          (auto simp: poll_def Let_def)
    qed
  qed
qed


lemma approve_shape:
  assumes "approve sha now inst fr ctx i fp sv = (sv', r)"
  shows "ps_pending (sv_pairing sv') = ps_pending (sv_pairing sv)
    \<or> ps_pending (sv_pairing sv') = ps_pending (fst (pair_prune now (sv_pairing sv)))
    \<or> (\<exists>p f. is_desktop ctx \<and> find (\<lambda>x. pp_id x = i) (ps_pending (fst (pair_prune now (sv_pairing sv)))) = Some p
        \<and> pp_status p = PairPending \<and> \<not> pp_contested p
        \<and> ps_pending (sv_pairing sv') = update_first (\<lambda>x. pp_id x = i) f (ps_pending (fst (pair_prune now (sv_pairing sv))))
        \<and> ((f = wrong_digits now \<and> \<not> (digits_of fp = pp_fingerprint p \<and> length (digits_of fp) = 4) \<and> isl r)
           \<or> (\<exists>dev token. f = approved_pair now dev token \<and> digits_of fp = pp_fingerprint p
                \<and> length (digits_of fp) = 4 \<and> \<not> isl r)))"
proof (cases "is_desktop ctx")
  case False
  with assms show ?thesis by (simp add: approve_def require_desktop_def)
next
  case True
  let ?ps = "ps_pending (fst (pair_prune now (sv_pairing sv)))"
  show ?thesis
  proof (cases "find (\<lambda>x. pp_id x = i) ?ps")
    case None
    with assms True show ?thesis by (auto simp: approve_def require_desktop_def Let_def)
  next
    case (Some p)
    consider "pp_status p \<noteq> PairPending" | "pp_status p = PairPending" "pp_contested p"
      | "pp_status p = PairPending" "\<not> pp_contested p" "length (digits_of fp) \<noteq> 4 \<or> pp_fingerprint p \<noteq> digits_of fp"
      | "pp_status p = PairPending" "\<not> pp_contested p" "length (digits_of fp) = 4" "pp_fingerprint p = digits_of fp"
      by blast
    then show ?thesis
    proof cases
      case 1
      with assms True Some show ?thesis by (auto simp: approve_def require_desktop_def Let_def)
    next
      case 2
      with assms True Some show ?thesis by (auto simp: approve_def require_desktop_def Let_def)
    next
      case 3
      with assms True Some have "sv' = fst (refuse_digits now ctx i p (sv\<lparr>sv_pairing := fst (pair_prune now (sv_pairing sv))\<rparr>))"
        and "isl r"
        by (auto simp: approve_def require_desktop_def Let_def map_prod_def split_def)
      then show ?thesis using 3 True Some
        by (auto simp: refuse_digits_def Let_def publish_defs update_pair_def)
    next
      case 4
      obtain ds info token where "ds_issue sha (fr_enc fr) (fr_uuid fr) now inst (pp_device_name p) (pp_platform p)
          (pp_user_agent p) (pp_ingress p)
          (case parse_ip (pp_client_ip p) of Some ip \<Rightarrow> ip | None \<Rightarrow> V4 0) (sv_devices sv) = (ds, info, token)"
        by (metis prod_cases3)
      with assms True Some 4 have "ps_pending (sv_pairing sv')
            = update_first (\<lambda>x. pp_id x = i) (approved_pair now (di_id info) token) ?ps" and "\<not> isl r"
        by (auto simp: approve_def require_desktop_def Let_def publish_defs update_pair_def)
      then show ?thesis using 4 True Some by auto
    qed
  qed
qed

lemma deny_shape:
  assumes "deny now ctx i sv = (sv', r)"
  shows "ps_pending (sv_pairing sv') = ps_pending (sv_pairing sv)
    \<or> ps_pending (sv_pairing sv') = ps_pending (fst (pair_prune now (sv_pairing sv)))
    \<or> (is_desktop ctx \<and> (\<exists>p. find (\<lambda>x. pp_id x = i) (ps_pending (fst (pair_prune now (sv_pairing sv)))) = Some p
        \<and> pp_status p = PairPending)
        \<and> ps_pending (sv_pairing sv')
          = update_first (\<lambda>x. pp_id x = i) (denied_pair now) (ps_pending (fst (pair_prune now (sv_pairing sv)))))"
  using assms
  by (auto simp: deny_def require_desktop_def Let_def publish_defs update_pair_def split: option.splits if_splits)

lemma contest_cases:
  "contest pid ps = (ps', hit) \<Longrightarrow> ps' = ps \<or> (\<exists>i p. pid = Some i \<and> find (\<lambda>x. pp_id x = i) ps = Some p
     \<and> pp_status p = PairPending \<and> ps' = update_first (\<lambda>x. pp_id x = i) (\<lambda>x. x\<lparr>pp_contested := True\<rparr>) ps)"
  by (auto simp: contest_def split: option.splits bind_splits if_splits dest: find_id_Some)

lemma update_first_last:
  "(\<And>x. x \<in> set ps \<Longrightarrow> \<not> P x) \<Longrightarrow> update_first P f (ps @ [p]) = ps @ [if P p then f p else p]"
  by (induction ps) auto

lemma decide_shape:
  assumes "exchange_decide sha now fr ctx code name platform ua provider g = (g', v)"
    and fresh: "''pp_'' @ fr_uuid fr \<notin> set (pair_ids g)"
  shows "ps_pending g' = ps_pending (fst (pair_prune now g))
    \<or> (\<exists>i p. find (\<lambda>x. pp_id x = i) (ps_pending (fst (pair_prune now g))) = Some p \<and> pp_status p = PairPending
        \<and> ps_pending g' = update_first (\<lambda>x. pp_id x = i) (\<lambda>x. x\<lparr>pp_contested := True\<rparr>) (ps_pending (fst (pair_prune now g))))
    \<or> (pending_count now (fst (pair_prune now g)) < MAX_PENDING
       \<and> ps_pending g' = ps_pending (fst (pair_prune now g))
            @ [(new_pair sha now fr ctx name platform ua provider)\<lparr>pp_token := None\<rparr>])"
proof -
  let ?g = "fst (pair_prune now g)" and ?p = "new_pair sha now fr ctx name platform ua provider"
  have id: "pp_id ?p = ''pp_'' @ fr_uuid fr" by (simp add: new_pair_def Let_def)
  have "\<not> pp_id x = pp_id ?p" if x: "x \<in> set (ps_pending ?g)" for x
  proof -
    have "pp_id x \<in> pp_id ` set (ps_pending g)" using x by (auto simp: prune_pending)
    with fresh show ?thesis unfolding id pair_ids_def by auto
  qed
  then have new: "update_first (\<lambda>x. pp_id x = pp_id ?p) (\<lambda>x. x\<lparr>pp_token := None\<rparr>) (ps_pending ?g @ [?p])
      = ps_pending ?g @ [?p\<lparr>pp_token := None\<rparr>]" by (subst update_first_last) auto
  show ?thesis
  proof (cases "position (\<lambda>c. length (cd_code c) = length code \<and> token_matches (cd_code c) code) (ps_codes ?g)")
    case None
    with assms(1) show ?thesis by (simp add: exchange_decide_def Let_def del: position_None)
  next
    case (Some k)
    show ?thesis
    proof (cases "cd_used (ps_codes ?g ! k)")
      case None
      with Some assms(1) new show ?thesis
        by (cases "cd_target (ps_codes ?g ! k)")
          (auto simp: exchange_decide_def Let_def mark_used_def not_le split: if_splits option.splits)
    next
      case (Some used)
      obtain ps hit where c: "contest (cu_pending_id used) (ps_pending ?g) = (ps, hit)" by fastforce
      with \<open>position _ _ = _\<close> Some assms(1) have "ps_pending g' = ps"
        by (auto simp: exchange_decide_def Let_def)
      with contest_cases [OF c] show ?thesis by blast
    qed
  qed
qed


section \<open>The invariant is kept\<close>

lemma evict_codes_room: "length (filter unused (evict_codes cs)) < MAX_ACTIVE_CODES"
proof (induction cs rule: evict_codes.induct)
  case (1 cs)
  then show ?case by (cases "length (filter unused cs) < MAX_ACTIVE_CODES") (simp_all add: evict_codes.simps [of cs])
qed

definition codes_ok :: "pairing_state \<Rightarrow> bool" where
  "codes_ok g \<longleftrightarrow> length (filter unused (ps_codes g)) \<le> MAX_ACTIVE_CODES"

definition pairs_ok :: "pending_pair list \<Rightarrow> bool" where
  "pairs_ok ps \<longleftrightarrow> distinct (map pp_id ps) \<and> (\<forall>p \<in> set ps. pair_ok p)
     \<and> length (filter (\<lambda>p. pp_status p = PairPending) ps) \<le> MAX_PENDING"

lemma state_ok_iff: "state_ok g \<longleftrightarrow> codes_ok g \<and> pairs_ok (ps_pending g)"
  by (auto simp: state_ok_def codes_ok_def pairs_ok_def pair_ids_def waiting_def)

lemma prune_codes_ok: "codes_ok g \<Longrightarrow> codes_ok (fst (pair_prune now g))"
  using unused_filter_le [of "\<lambda>c. now < cd_expires_at c" "ps_codes g"] by (simp add: codes_ok_def prune_codes)

lemma unused_update_first_le:
  "(\<And>x. \<not> unused (f x)) \<Longrightarrow> length (filter unused (update_first P f cs)) \<le> length (filter unused cs)"
  by (induction cs) auto

lemma unused_list_update_le:
  "\<not> unused c \<Longrightarrow> length (filter unused (cs[k := c])) \<le> length (filter unused cs)"
  by (induction cs arbitrary: k) (auto split: nat.splits)

lemma mark_used_codes_ok: "codes_ok g \<Longrightarrow> codes_ok (mark_used k pid dev g)"
  using unused_list_update_le [of "(ps_codes g ! k)\<lparr>cd_used := Some \<lparr>cu_pending_id = pid, cu_device_id = dev\<rparr>\<rparr>" "ps_codes g" k]
  by (simp add: codes_ok_def mark_used_def unused_def)

lemma note_used_codes_ok: "codes_ok g \<Longrightarrow> codes_ok (note_used_by code dev g)"
  using unused_update_first_le [of "\<lambda>c. c\<lparr>cd_used := Some \<lparr>cu_pending_id = None, cu_device_id = Some dev\<rparr>\<rparr>"
      "\<lambda>c. cd_code c = code" "ps_codes g"]
  by (simp add: codes_ok_def note_used_by_def unused_def)

lemma codes_ok_cong: "ps_codes g' = ps_codes g \<Longrightarrow> codes_ok g' = codes_ok g"
  by (simp add: codes_ok_def)

lemma create_codes_ok:
  assumes "create_code lan public qr now fr ctx req sv = (sv', r)" "codes_ok (sv_pairing sv)"
  shows "codes_ok (sv_pairing sv')"
  using assms evict_codes_room [of "ps_codes (fst (pair_prune now (sv_pairing sv)))"]
  by (auto simp: create_code_def add_code_def Let_def codes_ok_def unused_def split: sum.splits prod.splits)

lemma decide_codes_ok:
  assumes "exchange_decide sha now fr ctx code name platform ua provider g = (g', v)" "codes_ok g"
  shows "codes_ok g'"
proof -
  let ?g = "fst (pair_prune now g)"
  have ok: "codes_ok ?g" using assms(2) by (rule prune_codes_ok)
  have "ps_codes g' = ps_codes ?g \<or> (\<exists>k pid dev. ps_codes g' = ps_codes (mark_used k pid dev ?g))"
    using assms(1)
    by (auto simp: exchange_decide_def Let_def split: option.splits prod.splits code_target.splits if_splits; blast)
  with ok show ?thesis by (metis codes_ok_cong mark_used_codes_ok)
qed

lemma carry_out_codes_ok:
  assumes "carry_out sha now inst fr ctx code name platform ua provider pl sv = (sv', r)" "codes_ok (sv_pairing sv)"
  shows "codes_ok (sv_pairing sv')"
proof -
  have "sv_pairing sv' = sv_pairing sv \<or> (\<exists>dev. sv_pairing sv' = note_used_by code dev (sv_pairing sv))"
    using assms(1) by (cases pl) (auto simp: carry_out_def Let_def publish_defs announce_new_device_def
        split: prod.splits option.splits)
  with assms(2) show ?thesis by (metis note_used_codes_ok)
qed

lemma poll_codes: "poll sha now inst ctx i secret sv = (sv', r)
    \<Longrightarrow> ps_codes (sv_pairing sv') \<in> {ps_codes (sv_pairing sv), ps_codes (fst (pair_prune now (sv_pairing sv)))}"
proof -
  assume a: "poll sha now inst ctx i secret sv = (sv', r)"
  obtain sv1 lr where l: "check_pair_limit inst ctx sv = (sv1, lr)" by fastforce
  from pair_limit_fields [OF l] a l show ?thesis
    by (cases lr) (auto simp: poll_def Let_def pair_failure_def
        split: option.splits if_splits pending_status.splits)
qed

lemma approve_codes: "approve sha now inst fr ctx i fp sv = (sv', r)
    \<Longrightarrow> ps_codes (sv_pairing sv') \<in> {ps_codes (sv_pairing sv), ps_codes (fst (pair_prune now (sv_pairing sv)))}"
  by (auto simp: approve_def require_desktop_def Let_def refuse_digits_def publish_defs update_pair_def
      split: option.splits if_splits prod.splits)

lemma deny_codes: "deny now ctx i sv = (sv', r)
    \<Longrightarrow> ps_codes (sv_pairing sv') \<in> {ps_codes (sv_pairing sv), ps_codes (fst (pair_prune now (sv_pairing sv)))}"
  by (auto simp: deny_def require_desktop_def Let_def publish_defs update_pair_def split: option.splits if_splits)

lemma pairs_ok_prune: "pairs_ok (ps_pending g) \<Longrightarrow> pairs_ok (ps_pending (fst (pair_prune now g)))"
  using distinct_filter_map [of "ps_pending g" "keep_pair now" now] waiting_filter_le [of "keep_pair now" now "ps_pending g"]
  by (auto simp: pairs_ok_def prune_pending pair_ok_expire)

lemma set_update_first: "x \<in> set (update_first P f xs) \<Longrightarrow> x \<in> set xs \<or> (\<exists>y \<in> set xs. P y \<and> x = f y)"
  by (induction xs) (auto split: if_splits)

lemma pairs_ok_update:
  assumes "pairs_ok ps" "\<And>x. pp_id (f x) = pp_id x" "\<And>x. x \<in> set ps \<Longrightarrow> P x \<Longrightarrow> pair_ok x \<Longrightarrow> pair_ok (f x)"
    "\<And>x. x \<in> set ps \<Longrightarrow> P x \<Longrightarrow> pp_status (f x) = PairPending \<Longrightarrow> pp_status x = PairPending"
  shows "pairs_ok (update_first P f ps)"
proof -
  have "length (filter (\<lambda>p. pp_status p = PairPending) (update_first P f ps)) \<le> length (filter (\<lambda>p. pp_status p = PairPending) ps)"
    using assms(4) by (induction ps) auto
  moreover have "\<forall>x \<in> set (update_first P f ps). pair_ok x"
    using assms(1,3) by (auto simp: pairs_ok_def dest!: set_update_first)
  ultimately show ?thesis using assms(1,2) by (auto simp: pairs_ok_def)
qed


lemma same_pair:
  "pairs_ok ps \<Longrightarrow> find (\<lambda>x. pp_id x = i) ps = Some p \<Longrightarrow> x \<in> set ps \<Longrightarrow> pp_id x = i \<Longrightarrow> x = p"
  using find_id_Some [of i ps p] by (auto simp: pairs_ok_def distinct_map inj_on_def)

lemma wrong_digits_simps [simp]: "pp_id (wrong_digits now p) = pp_id p"
  by (simp add: wrong_digits_def Let_def)

lemma approved_pair_simps [simp]: "pp_id (approved_pair now dev token p) = pp_id p"
  by (simp add: approved_pair_def)

lemma denied_pair_simps [simp]: "pp_id (denied_pair now p) = pp_id p"
  by (simp add: denied_pair_def)

lemma pair_ok_changes:
  assumes "pair_ok p"
  shows "pp_status p = PairPending \<Longrightarrow> pair_ok (wrong_digits now p)"
    and "pp_status p = PairPending \<Longrightarrow> \<not> pp_contested p \<Longrightarrow> pair_ok (approved_pair now dev token p)"
    and "pp_status p = PairPending \<Longrightarrow> pair_ok (denied_pair now p)"
    and "pp_status p = PairPending \<Longrightarrow> pair_ok (p\<lparr>pp_contested := True\<rparr>)"
    and "pair_ok (p\<lparr>pp_token := None\<rparr>)"
  using assms by (auto simp: pair_ok_def wrong_digits_def approved_pair_def denied_pair_def Let_def MAX_FINGERPRINT_ATTEMPTS_def)

lemma update_one_ok:
  assumes ok: "pairs_ok ps" and p: "find (\<lambda>x. pp_id x = i) ps = Some p" and "\<And>x. P x \<Longrightarrow> pp_id x = i"
    and f: "\<And>x. pp_id (f x) = pp_id x" and fp: "pair_ok p \<Longrightarrow> P p \<Longrightarrow> pair_ok (f p)"
    and st: "P p \<Longrightarrow> pp_status (f p) = PairPending \<Longrightarrow> pp_status p = PairPending"
  shows "pairs_ok (update_first P f ps)"
  using same_pair [OF ok p] assms by (intro pairs_ok_update [OF ok f]) blast+

lemma pending_live_count:
  "length (filter (\<lambda>p. pp_status p = PairPending) (ps_pending (fst (pair_prune now g)))) = pending_count now (fst (pair_prune now g))"
proof -
  have "pp_status p = PairPending \<longleftrightarrow> pp_live now p" if "p \<in> set (ps_pending (fst (pair_prune now g)))" for p
    using that by (auto simp: prune_pending pp_live_def expire_pair_def split: if_splits)
  then have "filter (\<lambda>p. pp_status p = PairPending) (ps_pending (fst (pair_prune now g)))
      = filter (pp_live now) (ps_pending (fst (pair_prune now g)))" by (intro filter_cong refl) auto
  then show ?thesis by (simp add: pending_count_def)
qed

lemma new_pair_ok: "pair_ok ((new_pair sha now fr ctx name platform ua provider)\<lparr>pp_token := None\<rparr>)"
  "pp_id (new_pair sha now fr ctx name platform ua provider) = ''pp_'' @ fr_uuid fr"
  by (simp_all add: pair_ok_def new_pair_def Let_def MAX_FINGERPRINT_ATTEMPTS_def)

lemma decide_pairs_ok:
  assumes d: "exchange_decide sha now fr ctx code name platform ua provider g = (g', v)"
    and ok: "pairs_ok (ps_pending g)" and u: "set (pair_ids g) \<subseteq> u" "''pp_'' @ fr_uuid fr \<notin> u"
  shows "pairs_ok (ps_pending g') \<and> set (pair_ids g') \<subseteq> insert (''pp_'' @ fr_uuid fr) u"
proof -
  let ?g = "fst (pair_prune now g)" and ?p = "(new_pair sha now fr ctx name platform ua provider)\<lparr>pp_token := None\<rparr>"
  have ok': "pairs_ok (ps_pending ?g)" using ok by (rule pairs_ok_prune)
  have u': "set (pair_ids ?g) \<subseteq> u"
  proof -
    have "set (pair_ids ?g) \<subseteq> set (pair_ids g)" using prune_ids [of g now] ok by (simp add: pairs_ok_def pair_ids_def)
    with u(1) show ?thesis by blast
  qed
  from u have fresh: "''pp_'' @ fr_uuid fr \<notin> set (pair_ids g)" by blast
  from decide_shape [OF d fresh] show ?thesis
  proof (elim disjE exE conjE)
    assume "ps_pending g' = ps_pending ?g"
    with ok' u' show ?thesis by (auto simp: pair_ids_def)
  next
    fix i p assume p: "find (\<lambda>x. pp_id x = i) (ps_pending ?g) = Some p" "pp_status p = PairPending"
      and g': "ps_pending g' = update_first (\<lambda>x. pp_id x = i) (\<lambda>x. x\<lparr>pp_contested := True\<rparr>) (ps_pending ?g)"
    have "pairs_ok (ps_pending g')" unfolding g'
      using p(2) by (intro update_one_ok [OF ok' p(1)]) (auto intro: pair_ok_changes)
    then show ?thesis using u' by (auto simp: pair_ids_def g')
  next
    assume c: "pending_count now ?g < MAX_PENDING" and g': "ps_pending g' = ps_pending ?g @ [?p]"
    have "pp_id ?p \<notin> set (pair_ids ?g)" using u' u(2) by (auto simp: new_pair_ok)
    then have "pairs_ok (ps_pending g')"
      using ok' c pending_live_count [of now g] new_pair_ok(1) [of sha now fr ctx name platform ua provider]
      by (auto simp: g' pairs_ok_def pair_ids_def)
    then show ?thesis using u' by (auto simp: pair_ids_def g' new_pair_ok)
  qed
qed

lemma step_keeps_ok:
  assumes ok: "config_ok c" and st: "pair_step sha e c c'"
  shows "config_ok c'"
proof -
  have stay: "config_ok (sv', u)"
    if "config_ok (sv, u)" "codes_ok (sv_pairing sv')" "pairs_ok (ps_pending (sv_pairing sv'))"
      "set (pair_ids (sv_pairing sv')) \<subseteq> set (pair_ids (sv_pairing sv))" for sv sv' u
    using that by (auto simp: config_ok_def state_ok_iff)
  have keep: "config_ok (sv', u)"
    if ok: "config_ok (sv, u)" and c: "codes_ok (sv_pairing sv')"
      and p: "ps_pending (sv_pairing sv') \<in> {ps_pending (sv_pairing sv), ps_pending (fst (pair_prune now (sv_pairing sv)))}"
    for sv sv' u now
    using p prune_ids [of "sv_pairing sv" now] ok c
    by (intro stay [OF ok c]) (auto simp: config_ok_def state_ok_iff pairs_ok_prune pair_ids_def pairs_ok_def [of "ps_pending (sv_pairing sv)"])
  have upd: "config_ok (sv', u)"
    if ok: "config_ok (sv, u)" and c: "codes_ok (sv_pairing sv')"
      and ps: "ps_pending (sv_pairing sv') = update_first P f (ps_pending (fst (pair_prune now (sv_pairing sv))))"
      and p: "find (\<lambda>x. pp_id x = i) (ps_pending (fst (pair_prune now (sv_pairing sv)))) = Some p"
      and P: "\<And>x. P x \<Longrightarrow> pp_id x = i" and f: "\<And>x. pp_id (f x) = pp_id x"
      and fp: "pair_ok p \<Longrightarrow> P p \<Longrightarrow> pair_ok (f p)"
      and st: "P p \<Longrightarrow> pp_status (f p) = PairPending \<Longrightarrow> pp_status p = PairPending"
    for sv sv' u now P f i p
  proof -
    have "pairs_ok (ps_pending (sv_pairing sv))" using ok by (simp add: config_ok_def state_ok_iff)
    then have "pairs_ok (ps_pending (sv_pairing sv'))" unfolding ps
      by (intro update_one_ok [OF pairs_ok_prune p P f fp st])
    then show ?thesis
      using prune_ids [of "sv_pairing sv" now] ok f
      by (intro stay [OF ok c]) (auto simp: config_ok_def state_ok_def pair_ids_def ps)
  qed
  have codes: "codes_ok (sv_pairing sv')"
    if "config_ok (sv, u)" "ps_codes (sv_pairing sv') \<in> {ps_codes (sv_pairing sv), ps_codes (fst (pair_prune now (sv_pairing sv)))}"
    for sv sv' u now
    using that prune_codes_ok [of "sv_pairing sv" now] by (auto simp: config_ok_def state_ok_iff codes_ok_def)
  from st show ?thesis
  proof (cases rule: pair_step.cases)
    case (step_create lan public qr now fr ctx req sv sv' r u)
    note o = ok [unfolded step_create]
    have "codes_ok (sv_pairing sv')" using o create_codes_ok [OF step_create(4)] by (simp add: config_ok_def state_ok_iff)
    from keep [OF o this create_keeps [OF step_create(4)]] show ?thesis unfolding step_create(3) .
  next
    case (step_decide now fr ctx code name platform ua provider sv g v u)
    note o = ok [unfolded step_decide]
    then have "pairs_ok (ps_pending (sv_pairing sv))" "set (pair_ids (sv_pairing sv)) \<subseteq> u" "codes_ok (sv_pairing sv)"
      by (simp_all add: config_ok_def state_ok_iff)
    with decide_pairs_ok [OF step_decide(4) this(1,2) step_decide(5)] decide_codes_ok [OF step_decide(4)]
    show ?thesis unfolding step_decide by (simp add: config_ok_def state_ok_iff)
  next
    case (step_carry_out now inst fr ctx code name platform ua provider pl sv sv' r u)
    note o = ok [unfolded step_carry_out]
    have "codes_ok (sv_pairing sv')" using o carry_out_codes_ok [OF step_carry_out(4)] by (simp add: config_ok_def state_ok_iff)
    from keep [OF o this] carry_out_keeps [OF step_carry_out(4)] show ?thesis unfolding step_carry_out(3) by blast
  next
    case (step_poll now inst ctx i secret sv sv' r u)
    note o = ok [unfolded step_poll]
    have c: "codes_ok (sv_pairing sv')" using codes [OF o] poll_codes [OF step_poll(4)] by blast
    from poll_shape [OF step_poll(4)] show ?thesis unfolding step_poll(3)
    proof (elim disjE exE conjE)
      fix w p t
      let ?ps = "ps_pending (fst (pair_prune now (sv_pairing sv)))"
      assume f: "find (poll_matches i (sha256_hex sha w)) ?ps = Some p"
        and ps: "ps_pending (sv_pairing sv') = update_first (poll_matches i (sha256_hex sha w)) (\<lambda>x. x\<lparr>pp_token := None\<rparr>) ?ps"
      have "distinct (map pp_id ?ps)"
        using o prune_ids [of "sv_pairing sv" now] by (simp add: config_ok_def state_ok_def pair_ids_def)
      from find_poll(1) [OF this f] show "config_ok (sv', u)"
        by (intro upd [OF o c ps]) (auto simp: poll_matches_def intro: pair_ok_changes)
    qed (use keep [OF o c] in blast)+
  next
    case (step_approve now inst fr ctx i fp sv sv' r u)
    note o = ok [unfolded step_approve]
    have c: "codes_ok (sv_pairing sv')" using codes [OF o] approve_codes [OF step_approve(4)] by blast
    from approve_shape [OF step_approve(4)] show ?thesis unfolding step_approve(3)
    proof (elim disjE exE conjE)
      fix p f assume p: "find (\<lambda>x. pp_id x = i) (ps_pending (fst (pair_prune now (sv_pairing sv)))) = Some p"
      and st: "pp_status p = PairPending" "\<not> pp_contested p" "f = wrong_digits now"
      and ps: "ps_pending (sv_pairing sv') = update_first (\<lambda>x. pp_id x = i) f (ps_pending (fst (pair_prune now (sv_pairing sv))))"
      show "config_ok (sv', u)" using st by (intro upd [OF o c ps p]) (auto intro: pair_ok_changes)
    next
      fix p f dev token assume p: "find (\<lambda>x. pp_id x = i) (ps_pending (fst (pair_prune now (sv_pairing sv)))) = Some p"
      and st: "pp_status p = PairPending" "\<not> pp_contested p" "f = approved_pair now dev token"
      and ps: "ps_pending (sv_pairing sv') = update_first (\<lambda>x. pp_id x = i) f (ps_pending (fst (pair_prune now (sv_pairing sv))))"
      show "config_ok (sv', u)" using st by (intro upd [OF o c ps p]) (auto intro: pair_ok_changes)
    qed (use keep [OF o c] in blast)+
  next
    case (step_deny now ctx i sv sv' r u)
    note o = ok [unfolded step_deny]
    have c: "codes_ok (sv_pairing sv')" using codes [OF o] deny_codes [OF step_deny(4)] by blast
    from deny_shape [OF step_deny(4)] show ?thesis unfolding step_deny(3)
    proof (elim disjE exE conjE)
      fix p assume p: "find (\<lambda>x. pp_id x = i) (ps_pending (fst (pair_prune now (sv_pairing sv)))) = Some p"
      and st: "pp_status p = PairPending"
      and ps: "ps_pending (sv_pairing sv') = update_first (\<lambda>x. pp_id x = i) (denied_pair now) (ps_pending (fst (pair_prune now (sv_pairing sv))))"
      show "config_ok (sv', u)" using st by (intro upd [OF o c ps p]) (auto intro: pair_ok_changes)
    qed (use keep [OF o c] in blast)+
  next
    case (step_sweep sv u now)
    note o = ok [unfolded step_sweep]
    have "sv_pairing (sweep now sv) = fst (pair_prune now (sv_pairing sv))"
      by (simp add: sweep_def pair_sweep_def Let_def publish_defs split: prod.splits)
    then show ?thesis unfolding step_sweep(3)
      using keep [OF o, of "sweep now sv" now] codes [OF o, of "sweep now sv" now] by simp
  next
    case (step_views sv u now)
    note o = ok [unfolded step_views]
    let ?sv = "sv\<lparr>sv_pairing := fst (pair_prune now (sv_pairing sv))\<rparr>"
    show ?thesis unfolding step_views(3)
      using keep [OF o, of ?sv now] codes [OF o, of ?sv now] by (simp add: pending_views_def Let_def)
  next
    case (step_other sv' sv u)
    then show ?thesis using ok by (simp add: config_ok_def)
  qed
qed


section \<open>The refinement\<close>

lemma stage_of_pending: "pp_status p = PairPending
    \<Longrightarrow> stage p = Waiting (pp_fingerprint p) (pp_poll_secret_sha p) (pp_fingerprint_attempts p) (pp_contested p)"
  by (simp add: stage_def)

lemma wrong_digits_life:
  assumes "pair_ok p" "pp_status p = PairPending" "\<not> pp_contested p" "is_desktop ctx"
    "\<not> (digits_of fp = pp_fingerprint p \<and> length (digits_of fp) = 4)"
  shows "life sha i (EvApprove ctx i fp) (stage p) (stage (wrong_digits now p))"
proof (cases "pp_fingerprint_attempts p + 1 < MAX_FINGERPRINT_ATTEMPTS")
  case True
  then have "stage (wrong_digits now p)
      = Waiting (pp_fingerprint p) (pp_poll_secret_sha p) (pp_fingerprint_attempts p + 1) False"
    using assms by (simp add: wrong_digits_def Let_def stage_def)
  then show ?thesis using True assms life_typo [of ctx fp "pp_fingerprint p" "pp_fingerprint_attempts p"]
    by (simp add: stage_of_pending)
next
  case False
  then have "pp_fingerprint_attempts p + 1 = MAX_FINGERPRINT_ATTEMPTS" using assms by (auto simp: pair_ok_def)
  moreover have "stage (wrong_digits now p) = Denied" using False by (simp add: wrong_digits_def Let_def stage_def)
  ultimately show ?thesis using assms life_lockout [of ctx fp "pp_fingerprint p" "pp_fingerprint_attempts p"]
    by (simp add: stage_of_pending)
qed

lemma approved_life:
  assumes "pair_ok p" "pp_status p = PairPending" "\<not> pp_contested p" "is_desktop ctx"
    "digits_of fp = pp_fingerprint p" "length (digits_of fp) = 4"
  shows "life sha i (EvApprove ctx i fp) (stage p) (stage (approved_pair now dev token p))"
  using assms life_approve [of ctx fp "pp_fingerprint p" "pp_fingerprint_attempts p" sha i "pp_poll_secret_sha p"]
  by (simp add: stage_def approved_pair_def pair_ok_def)

lemma denied_life:
  "pp_status p = PairPending \<Longrightarrow> is_desktop ctx \<Longrightarrow> life sha i (EvDeny ctx i) (stage p) (stage (denied_pair now p))"
  by (simp add: stage_of_pending) (simp add: stage_def denied_pair_def life_deny)

lemma contest_life: "pp_status p = PairPending \<Longrightarrow> life sha i (EvExchange j) (stage p) (stage (p\<lparr>pp_contested := True\<rparr>))"
  by (simp add: stage_of_pending life_contest)

lemma collect_life:
  assumes "pp_status p = PairApproved" "pp_token p = Some t" "poll_matches i (sha256_hex sha w) p"
  shows "life sha i (EvPoll i (Some w) (Inr body)) (stage p) (stage (p\<lparr>pp_token := None\<rparr>))"
  using assms by (simp add: stage_def poll_matches_def life_collect)

lemma pruned_pairs_ok: "config_ok (sv, u) \<Longrightarrow> pairs_ok (ps_pending (fst (pair_prune now (sv_pairing sv))))"
  by (intro pairs_ok_prune) (simp add: config_ok_def state_ok_iff)

lemma decide_simulates:
  assumes ok: "config_ok (sv, u)"
    and d: "exchange_decide sha now fr ctx code name platform ua provider (sv_pairing sv) = (g, v)"
    and fresh: "''pp_'' @ fr_uuid fr \<notin> u"
  shows "stutter (life sha i) (EvExchange (''pp_'' @ fr_uuid fr)) (request_of i (sv, u))
    (request_of i (sv\<lparr>sv_pairing := g\<rparr>, insert (''pp_'' @ fr_uuid fr) u))"
proof -
  let ?j = "''pp_'' @ fr_uuid fr" and ?ps = "ps_pending (fst (pair_prune now (sv_pairing sv)))"
  let ?p = "(new_pair sha now fr ctx name platform ua provider)\<lparr>pp_token := None\<rparr>"
  have ids: "set (pair_ids (sv_pairing sv)) \<subseteq> u" and st: "state_ok (sv_pairing sv)"
    using ok by (auto simp: config_ok_def)
  have pids: "pp_id ` set ?ps \<subseteq> u"
  proof -
    have "pp_id ` set ?ps \<subseteq> set (pair_ids (sv_pairing sv))"
      using prune_ids [of "sv_pairing sv" now] st by (simp add: state_ok_def pair_ids_def)
    with ids show ?thesis by blast
  qed
  note okp = pruned_pairs_ok [OF ok, of now]
  from ids fresh have "?j \<notin> set (pair_ids (sv_pairing sv))" by blast
  note shape = decide_shape [OF d this]
  show ?thesis
  proof (cases "i = ?j")
    case True
    have "find (\<lambda>x. pp_id x = i) (ps_pending (sv_pairing sv)) = None" "find (\<lambda>x. pp_id x = i) ?ps = None"
      using True fresh ids pids unfolding find_id_None pair_ids_def by auto
    note none = this
    have before: "request_of i (sv, u) = Unborn" using none True fresh by (simp add: request_of_def request_in_def)
    from shape have "request_in i (ps_pending g) (insert ?j u) \<in> {Gone, stage ?p}"
    proof (elim disjE exE conjE)
      fix k q assume "ps_pending g = update_first (\<lambda>x. pp_id x = k) (\<lambda>x. x\<lparr>pp_contested := True\<rparr>) ?ps"
      moreover have "find (\<lambda>x. pp_id x = i) (update_first (\<lambda>x. pp_id x = k) (\<lambda>x. x\<lparr>pp_contested := True\<rparr>) ?ps) = None"
        using find_update_first [of ?ps "\<lambda>x. pp_id x = k" k "\<lambda>x. x\<lparr>pp_contested := True\<rparr>" i] okp none
        by (auto simp: pairs_ok_def)
      ultimately show ?thesis using True by (simp add: request_in_def)
    next
      assume "ps_pending g = ?ps @ [?p]"
      then show ?thesis using none True by (simp add: request_in_def find_append new_pair_ok)
    qed (use none True in \<open>simp add: request_in_def\<close>)
    moreover have "stage ?p = Waiting (pp_fingerprint ?p) (pp_poll_secret_sha ?p) 0 False"
      by (simp add: stage_def new_pair_def Let_def)
    ultimately show ?thesis unfolding before using True
      by (auto simp: request_of_def stutter_def intro: life_born life_void)
  next
    case False
    then have same_u: "request_in i ps (insert ?j u) = request_in i ps u" for ps by (simp add: request_in_def)
    show ?thesis
      unfolding request_of_def fst_conv snd_conv same_u
    proof (rule after_prune [OF st ids, where now = now])
      from shape show "request_in i (ps_pending (sv_pairing (sv\<lparr>sv_pairing := g\<rparr>))) u = request_in i ?ps u
        \<or> (request_in i ?ps u \<notin> {Expired, Gone}
           \<and> life sha i (EvExchange ?j) (request_in i ?ps u) (request_in i (ps_pending (sv_pairing (sv\<lparr>sv_pairing := g\<rparr>))) u))"
      proof (elim disjE exE conjE)
        fix k q assume q: "find (\<lambda>x. pp_id x = k) ?ps = Some q" "pp_status q = PairPending"
          and g: "ps_pending g = update_first (\<lambda>x. pp_id x = k) (\<lambda>x. x\<lparr>pp_contested := True\<rparr>) ?ps"
        from okp have dist: "distinct (map pp_id ?ps)" by (simp add: pairs_ok_def)
        note r = request_update_first [OF dist, of "\<lambda>x. pp_id x = k" k "\<lambda>x. x\<lparr>pp_contested := True\<rparr>" i u]
        show ?thesis
        proof (cases "i = k")
          case True
          from q(1) have "pp_id q = k" by (auto dest: find_id_Some)
          with True q r g have "request_in i (ps_pending g) u = stage (q\<lparr>pp_contested := True\<rparr>)" by simp
          moreover have "request_in i ?ps u = stage q" using True q by (simp add: request_in_def)
          ultimately show ?thesis using contest_life [OF q(2)] q(2) by (simp add: stage_of_pending)
        next
          case False
          with r g show ?thesis by simp
        qed
      next
        assume "ps_pending g = ?ps @ [?p]"
        with False show ?thesis by (simp add: request_in_def find_append new_pair_ok split: option.splits)
      qed simp
    qed
  qed
qed

lemma step_simulates:
  assumes ok: "config_ok c" and st: "pair_step sha e c c'"
  shows "stutter (life sha i) e (request_of i c) (request_of i c')"
  using st
proof (cases rule: pair_step.cases)
  case (step_create lan public qr now fr ctx req sv sv' r u)
  from create_keeps [OF step_create(4)] have "\<exists>t. keeps (sv, u) t (ps_pending (sv_pairing sv'))"
    by (auto simp: keeps_def intro: exI [of _ None] exI [of _ "Some now"])
  with ok show ?thesis unfolding step_create(2,3) by (blast intro: keeps_life)
next
  case (step_decide now fr ctx code name platform ua provider sv g v u)
  from decide_simulates [OF ok [unfolded step_decide(2)] step_decide(4,5)] show ?thesis unfolding step_decide(1-3) .
next
  case (step_carry_out now inst fr ctx code name platform ua provider pl sv sv' r u)
  from carry_out_keeps [OF step_carry_out(4)] have "keeps (sv, u) None (ps_pending (sv_pairing sv'))"
    by (simp add: keeps_def)
  with ok show ?thesis unfolding step_carry_out(2,3) by (blast intro: keeps_life)
next
  case (step_poll now inst ctx j secret sv sv' r u)
  note o = ok [unfolded step_poll(2)]
  have k: "?thesis" if "keeps (sv, u) t (ps_pending (sv_pairing sv'))" for t
    using keeps_life [OF o that] unfolding step_poll(2,3) .
  from poll_shape [OF step_poll(4)] show ?thesis
  proof (elim disjE exE conjE)
    fix w p t
    let ?ps = "ps_pending (fst (pair_prune now (sv_pairing sv)))"
    assume w: "secret = Some w" and f: "find (poll_matches j (sha256_hex sha w)) ?ps = Some p"
      and p: "pp_status p = PairApproved" "pp_token p = Some t"
      and r: "r = Inr (poll_reply ''approved'' [(''token'', JStr t), (''deviceId'', opt_str (pp_device_id p)),
                     (''name'', JStr (pp_device_name p))])"
      and ps: "ps_pending (sv_pairing sv') = update_first (poll_matches j (sha256_hex sha w)) (\<lambda>x. x\<lparr>pp_token := None\<rparr>) ?ps"
    have "distinct (map pp_id ?ps)" using pruned_pairs_ok [OF o] by (simp add: pairs_ok_def)
    note fp = find_poll [OF this f]
    show ?thesis unfolding step_poll(1-3)
      by (rule update_life [OF o ps]) (use fp p r w in \<open>auto simp: poll_matches_def stage_def life_collect\<close>)
  qed (use k [of None] k [of "Some now"] in \<open>simp_all add: keeps_def\<close>)
next
  case (step_approve now inst fr ctx j fp sv sv' r u)
  note o = ok [unfolded step_approve(2)]
  have k: "?thesis" if "keeps (sv, u) t (ps_pending (sv_pairing sv'))" for t
    using keeps_life [OF o that] unfolding step_approve(2,3) .
  have pok: "pair_ok p" if "find (\<lambda>x. pp_id x = j) (ps_pending (fst (pair_prune now (sv_pairing sv)))) = Some p" for p
    using pruned_pairs_ok [OF o, of now] find_id_Some [OF that] by (auto simp: pairs_ok_def)
  from approve_shape [OF step_approve(4)] show ?thesis
  proof (elim disjE exE conjE)
    fix p f assume p: "find (\<lambda>x. pp_id x = j) (ps_pending (fst (pair_prune now (sv_pairing sv)))) = Some p"
      and st: "is_desktop ctx" "pp_status p = PairPending" "\<not> pp_contested p"
        "\<not> (digits_of fp = pp_fingerprint p \<and> length (digits_of fp) = 4)" "f = wrong_digits now"
      and ps: "ps_pending (sv_pairing sv') = update_first (\<lambda>x. pp_id x = j) f (ps_pending (fst (pair_prune now (sv_pairing sv))))"
    have "life sha j (EvApprove ctx j fp) (stage p) (stage (f p))"
      using wrong_digits_life [OF pok [OF p] st(2,3,1,4)] st(5) by simp
    from update_life_at [OF o ps p _ _ this] show ?thesis unfolding step_approve(1-3)
      using st(2,5) by (simp add: stage_of_pending)
  next
    fix p f dev token assume p: "find (\<lambda>x. pp_id x = j) (ps_pending (fst (pair_prune now (sv_pairing sv)))) = Some p"
      and st: "is_desktop ctx" "pp_status p = PairPending" "\<not> pp_contested p"
        "digits_of fp = pp_fingerprint p" "length (digits_of fp) = 4" "f = approved_pair now dev token"
      and ps: "ps_pending (sv_pairing sv') = update_first (\<lambda>x. pp_id x = j) f (ps_pending (fst (pair_prune now (sv_pairing sv))))"
    have "life sha j (EvApprove ctx j fp) (stage p) (stage (f p))"
      using approved_life [OF pok [OF p] st(2,3,1,4,5)] st(6) by simp
    from update_life_at [OF o ps p _ _ this] show ?thesis unfolding step_approve(1-3)
      using st(2,6) by (simp add: stage_of_pending)
  qed (use k [of None] k [of "Some now"] in \<open>simp_all add: keeps_def\<close>)
next
  case (step_deny now ctx j sv sv' r u)
  note o = ok [unfolded step_deny(2)]
  have k: "?thesis" if "keeps (sv, u) t (ps_pending (sv_pairing sv'))" for t
    using keeps_life [OF o that] unfolding step_deny(2,3) .
  from deny_shape [OF step_deny(4)] show ?thesis
  proof (elim disjE exE conjE)
    fix p assume p: "find (\<lambda>x. pp_id x = j) (ps_pending (fst (pair_prune now (sv_pairing sv)))) = Some p"
      and st: "is_desktop ctx" "pp_status p = PairPending"
      and ps: "ps_pending (sv_pairing sv') = update_first (\<lambda>x. pp_id x = j) (denied_pair now) (ps_pending (fst (pair_prune now (sv_pairing sv))))"
    from update_life_at [OF o ps p _ _ denied_life [OF st(2,1)]] st(2) show ?thesis unfolding step_deny(1-3)
      by (simp add: stage_of_pending)
  qed (use k [of None] k [of "Some now"] in \<open>simp_all add: keeps_def\<close>)
next
  case (step_sweep sv u now)
  have "keeps (sv, u) (Some now) (ps_pending (sv_pairing (sweep now sv)))"
    by (simp add: keeps_def sweep_def pair_sweep_def Let_def publish_defs split: prod.splits)
  with ok show ?thesis unfolding step_sweep(2,3) by (blast intro: keeps_life)
next
  case (step_views sv u now)
  have "keeps (sv, u) (Some now) (ps_pending (sv_pairing (sv\<lparr>sv_pairing := fst (pending_views now (sv_pairing sv))\<rparr>)))"
    by (simp add: keeps_def pending_views_def Let_def)
  with ok show ?thesis unfolding step_views(2,3) by (blast intro: keeps_life)
next
  case (step_other sv' sv u)
  then show ?thesis by (simp add: request_of_def stutter_def)
qed

interpretation pairing: simulation "pair_step sha" "life sha i" "request_of i" config_ok for sha i
  by unfold_locales (fact step_keeps_ok, fact step_simulates)

end
