(* ===== verification/PairingSafety.thy ===== *)
theory PairingSafety
  imports PairingProofs
begin

text \<open>
  What holds of pairing over a run, read off the life cycle of a request: a token is handed out once, to
  whoever holds the poll secret, after the desktop typed the digits shown on the new device; a contested
  request is never approved; the tables stay bounded; every request ends. And the gate of the exchange.
\<close>

section \<open>The refinement\<close>

text \<open>C4: Over any run of the program, every request moves along its life cycle: each step of the program is
  a step of the life of a request with the same event, or leaves the request as it is. Only events of the
  request itself (its approval, denial, collection), a replay of its code, and time move it.\<close>

theorem request_life_cycle:
  assumes "trace (pair_step sha) events c c'" and "config_ok c"
  shows "trace (stutter (life sha i)) events (request_of i c) (request_of i c')"
  using assms by (rule pairing.runs_refine)

section \<open>The life cycle\<close>

definition settled :: "request \<Rightarrow> bool" where
  "settled r \<longleftrightarrow> r \<in> {Collected, Denied, Expired, Gone}"

definition spoiled :: "request \<Rightarrow> bool" where
  "spoiled r \<longleftrightarrow> r \<in> {Denied, Expired, Gone} \<or> (\<exists>f s n. r = Waiting f s n True)"

inductive_cases life_to_Ready: "life sha i e r (Ready s)"
inductive_cases life_to_Waiting: "life sha i e r (Waiting f s n c)"
inductive_cases life_anyE: "life sha i e r r'"

lemma settled_step: "stutter (life sha i) e r r' \<Longrightarrow> settled r \<Longrightarrow> settled r'"
  by (auto simp: stutter_def settled_def elim: life_anyE)

lemma spoiled_step: "stutter (life sha i) e r r' \<Longrightarrow> spoiled r \<Longrightarrow> spoiled r'"
  by (auto simp: stutter_def spoiled_def elim: life_anyE)

lemma settled_run: "trace (stutter (life sha i)) es r r' \<Longrightarrow> settled r \<Longrightarrow> settled r'"
  by (erule trace_inv) (auto intro: settled_step)

lemma spoiled_run: "trace (stutter (life sha i)) es r r' \<Longrightarrow> spoiled r \<Longrightarrow> spoiled r'"
  by (erule trace_inv) (auto intro: spoiled_step)

text \<open>A request is ready only after the desktop approved it, with the digits shown on the new device.\<close>

lemma ready_was_approved:
  assumes "trace (pair_step sha) es c c'" "config_ok c" "request_of i c = Unborn" "request_of i c' = Ready s"
  shows "\<exists>xs ctx fp ys n c1. es = xs @ EvApprove ctx i fp # ys \<and> is_desktop ctx \<and> length (digits_of fp) = 4
    \<and> n < MAX_FINGERPRINT_ATTEMPTS \<and> trace (pair_step sha) xs c c1
    \<and> request_of i c1 = Waiting (digits_of fp) s n False"
  using assms(1,4)
proof (induction es arbitrary: c' rule: rev_induct)
  case Nil
  then show ?case using assms(3) by simp
next
  case (snoc e es)
  then obtain q where q: "trace (pair_step sha) es c q" "pair_step sha e q c'" by (auto simp: trace_snoc)
  have "config_ok q" using pairing.runs_keep_inv [OF q(1) assms(2)] .
  from step_simulates [OF this q(2)] have st: "stutter (life sha i) e (request_of i q) (Ready s)" using snoc.prems(2) by metis
  show ?case
  proof (cases "request_of i q = Ready s")
    case True
    from snoc.IH [OF q(1) this] obtain xs ctx fp ys n c1 where "es = xs @ EvApprove ctx i fp # ys" "is_desktop ctx"
      "length (digits_of fp) = 4" "n < MAX_FINGERPRINT_ATTEMPTS" "trace (pair_step sha) xs c c1"
      "request_of i c1 = Waiting (digits_of fp) s n False" by blast
    then show ?thesis
      by (intro exI [of _ xs] exI [of _ ctx] exI [of _ fp] exI [of _ "ys @ [e]"] exI [of _ n] exI [of _ c1]) simp
  next
    case False
    then have "life sha i e (request_of i q) (Ready s)" using st by (auto simp: stutter_def)
    then obtain ctx fp n where "e = EvApprove ctx i fp" "request_of i q = Waiting (digits_of fp) s n False"
      "is_desktop ctx" "length (digits_of fp) = 4" "n < MAX_FINGERPRINT_ATTEMPTS" by (rule life_to_Ready)
    with q(1) show ?thesis
      by (intro exI [of _ es] exI [of _ ctx] exI [of _ fp] exI [of _ "[]"] exI [of _ n] exI [of _ q]) simp
  qed
qed

section \<open>Tokens\<close>

text \<open>A poll whose reply holds a token.\<close>

definition hands_out_token :: "str \<Rightarrow> pair_event \<Rightarrow> bool" where
  "hands_out_token i e \<longleftrightarrow> (\<exists>secret body. e = EvPoll i secret (Inr body) \<and> jget body ''token'' \<noteq> None)"

lemma poll_token:
  assumes "poll sha now inst ctx i secret sv = (sv', Inr body)" "jget body ''token'' \<noteq> None"
  shows "\<exists>w p. secret = Some w
    \<and> find (poll_matches i (sha256_hex sha w)) (ps_pending (fst (pair_prune now (sv_pairing sv)))) = Some p
    \<and> pp_status p = PairApproved \<and> pp_token p \<noteq> None
    \<and> ps_pending (sv_pairing sv') = update_first (poll_matches i (sha256_hex sha w))
        (\<lambda>x. x\<lparr>pp_token := None\<rparr>) (ps_pending (fst (pair_prune now (sv_pairing sv))))"
proof -
  have no: "jget (poll_reply st kvs) ''token'' = None" if "''token'' \<notin> fst ` set kvs" for st kvs
  proof -
    have "map_of (foldl (\<lambda>m (k, v). obj_insert k v m) m kvs) ''token'' = map_of m ''token''"
      if "''token'' \<notin> fst ` set kvs" for m kvs
      using that by (induction kvs arbitrary: m) auto
    then show ?thesis using that by (simp add: poll_reply_def json_simps)
  qed
  obtain sv1 lr where l: "check_pair_limit inst ctx sv = (sv1, lr)" by fastforce
  from assms pair_limit_fields [OF l] l show ?thesis
    by (cases lr; cases secret)
      (auto simp: poll_def Let_def no poll_matches_def pair_failure_def find_Some_iff
        split: option.splits if_splits pending_status.splits)
qed

lemma token_step:
  assumes "pair_step sha e c c'" "config_ok c" "hands_out_token i e"
  shows "\<exists>w body. e = EvPoll i (Some w) (Inr body) \<and> request_of i c = Ready (sha256_hex sha w)
    \<and> request_of i c' = Collected"
proof -
  from assms(3) obtain secret body where e: "e = EvPoll i secret (Inr body)" "jget body ''token'' \<noteq> None"
    by (auto simp: hands_out_token_def)
  with assms(1) obtain now inst ctx sv sv' u where st: "c = (sv, u)" "c' = (sv', u)"
    "poll sha now inst ctx i secret sv = (sv', Inr body)" by (auto elim: pair_step.cases)
  let ?ps = "ps_pending (fst (pair_prune now (sv_pairing sv)))"
  from poll_token [OF st(3) e(2)] obtain w p where w: "secret = Some w"
    and f: "find (poll_matches i (sha256_hex sha w)) ?ps = Some p"
    and p: "pp_status p = PairApproved" "pp_token p \<noteq> None"
    and ps: "ps_pending (sv_pairing sv') = update_first (poll_matches i (sha256_hex sha w)) (\<lambda>x. x\<lparr>pp_token := None\<rparr>) ?ps"
    by blast
  have ok: "config_ok (sv, u)" using assms(2) st(1) by simp
  have d: "distinct (map pp_id ?ps)" using pruned_pairs_ok [OF ok] by (simp add: pairs_ok_def)
  note fp = find_poll [OF d f]
  have before: "request_in i ?ps u = Ready (sha256_hex sha w)"
    using fp p by (auto simp: request_in_def stage_def poll_matches_def)
  have "request_in i (ps_pending (sv_pairing sv)) u = Ready (sha256_hex sha w)"
    using prune_life [of "sv_pairing sv" u i now] ok before by (auto simp: config_ok_def)
  moreover have "request_in i (ps_pending (sv_pairing sv')) u = Collected"
    unfolding ps using request_update_first [OF d, of "poll_matches i (sha256_hex sha w)" i "\<lambda>x. x\<lparr>pp_token := None\<rparr>" i u] fp p
    by (auto simp: poll_matches_def stage_def)
  ultimately show ?thesis using e(1) w st by (auto simp: request_of_def)
qed

lemma new_config: "sv_pairing sv = pairing_new \<Longrightarrow> config_ok (sv, {}) \<and> request_of i (sv, {}) = Unborn"
  by (simp add: config_ok_def state_ok_def pairing_new_def pair_ids_def waiting_def request_of_def request_in_def)

text \<open>C3: A device that needs approval gets its token once, and only after the desktop typed the digits it
  shows. In any run from the start, when a poll of a request hands out a token, then no poll before did; the
  poller presented the secret whose hash the request was made with; and before, the owner at the Mac approved
  the request by typing its four digits, when it was waiting, uncontested, with fewer than three wrong
  attempts.\<close>

theorem token_needs_the_desktop:
  assumes "trace (pair_step sha) (es @ [e]) (sv, {}) c" and "sv_pairing sv = pairing_new"
    and "hands_out_token i e"
  shows "(\<forall>x \<in> set es. \<not> hands_out_token i x)
    \<and> (\<exists>secret reply xs ctx fp ys n c1. e = EvPoll i (Some secret) (Inr reply)
        \<and> es = xs @ EvApprove ctx i fp # ys \<and> is_desktop ctx \<and> length (digits_of fp) = 4
        \<and> n < MAX_FINGERPRINT_ATTEMPTS \<and> trace (pair_step sha) xs (sv, {}) c1
        \<and> request_of i c1 = Waiting (digits_of fp) (sha256_hex sha secret) n False)"
proof -
  from assms(1) obtain q where q: "trace (pair_step sha) es (sv, {}) q" "pair_step sha e q c" by (auto simp: trace_snoc)
  note new = new_config [OF assms(2), of i]
  then have ok: "config_ok q" using pairing.runs_keep_inv [OF q(1)] by blast
  from token_step [OF q(2) ok assms(3)] obtain w body where e: "e = EvPoll i (Some w) (Inr body)"
    and ready: "request_of i q = Ready (sha256_hex sha w)" by blast
  have "\<not> hands_out_token i x" if x: "x \<in> set es" for x
  proof
    assume h: "hands_out_token i x"
    from x obtain as bs where "es = as @ x # bs" by (meson split_list)
    with q(1) obtain a b where ab: "trace (pair_step sha) as (sv, {}) a" "pair_step sha x a b" "trace (pair_step sha) bs b q"
      by (auto simp: trace_append trace_Cons_iff)
    have oka: "config_ok a" using pairing.runs_keep_inv [OF ab(1)] new by blast
    then have "config_ok b" using step_keeps_ok ab(2) by blast
    moreover have "settled (request_of i b)" using token_step [OF ab(2) oka h] by (auto simp: settled_def)
    ultimately have "settled (request_of i q)" using settled_run [OF pairing.runs_refine [OF ab(3)]] by blast
    with ready show False by (simp add: settled_def)
  qed
  moreover from ready_was_approved [OF q(1) _ _ ready] new obtain xs ctx fp ys n c1 where
    "es = xs @ EvApprove ctx i fp # ys" "is_desktop ctx" "length (digits_of fp) = 4" "n < MAX_FINGERPRINT_ATTEMPTS"
    "trace (pair_step sha) xs (sv, {}) c1" "request_of i c1 = Waiting (digits_of fp) (sha256_hex sha w) n False" by blast
  ultimately show ?thesis using e by blast
qed

text \<open>A contested request is lost: once two devices used its code, the request can be denied, expire and be
  forgotten, but in no later run is it approved, and no poll of it hands out a token.\<close>

theorem contested_request_is_lost:
  assumes "trace (pair_step sha) es c c'" and "config_ok c" and "request_of i c = Waiting f s n True"
  shows "(request_of i c' \<in> {Denied, Expired, Gone} \<or> (\<exists>f s n. request_of i c' = Waiting f s n True))
    \<and> (\<forall>x \<in> set es. \<not> hands_out_token i x)"
proof
  have sp: "spoiled (request_of i c)" using assms(3) by (simp add: spoiled_def)
  then show "request_of i c' \<in> {Denied, Expired, Gone} \<or> (\<exists>f s n. request_of i c' = Waiting f s n True)"
    using spoiled_run [OF pairing.runs_refine [OF assms(1,2)]] by (simp add: spoiled_def)
  show "\<forall>x \<in> set es. \<not> hands_out_token i x"
  proof (intro ballI notI)
    fix x assume "x \<in> set es" "hands_out_token i x"
    then obtain as bs where "es = as @ x # bs" by (meson split_list)
    with assms(1) obtain a b where ab: "trace (pair_step sha) as c a" "pair_step sha x a b"
      by (auto simp: trace_append trace_Cons_iff)
    have "config_ok a" using pairing.runs_keep_inv [OF ab(1) assms(2)] .
    from token_step [OF ab(2) this \<open>hands_out_token i x\<close>] obtain w where "request_of i a = Ready w" by blast
    with spoiled_run [OF pairing.runs_refine [OF ab(1) assms(2)] sp] show False by (simp add: spoiled_def)
  qed
qed

text \<open>C28: The tables of pairing stay small. In any run from the start at most five codes are unused and at most
  five requests wait; ids are unique; no waiting request has three wrong attempts, a token is held only by an
  approved request, and no approved request is contested.\<close>

theorem pairing_stays_bounded:
  assumes "trace (pair_step sha) es (sv, {}) (sv', u)" and "sv_pairing sv = pairing_new"
  shows "length (filter (\<lambda>c. cd_used c = None) (ps_codes (sv_pairing sv'))) \<le> 5
    \<and> length (filter (\<lambda>p. pp_status p = PairPending) (ps_pending (sv_pairing sv'))) \<le> 5
    \<and> distinct (map pp_id (ps_pending (sv_pairing sv')))
    \<and> (\<forall>p \<in> set (ps_pending (sv_pairing sv')).
         (pp_status p = PairPending \<longrightarrow> pp_fingerprint_attempts p < 3)
         \<and> (pp_token p \<noteq> None \<longrightarrow> pp_status p = PairApproved)
         \<and> (pp_status p = PairApproved \<longrightarrow> \<not> pp_contested p))"
proof -
  have "config_ok (sv', u)" using pairing.runs_keep_inv [OF assms(1)] new_config [OF assms(2)] by blast
  moreover have "unused = (\<lambda>c. cd_used c = None)" by (simp add: unused_def fun_eq_iff)
  ultimately show ?thesis
    by (auto simp: config_ok_def state_ok_iff codes_ok_def pairs_ok_def pair_ok_def MAX_ACTIVE_CODES_def
        MAX_PENDING_def MAX_FINGERPRINT_ATTEMPTS_def)
qed

section \<open>The gate of the exchange\<close>

text \<open>What \<open>exchange_decide\<close> plans, and for which code.\<close>

lemma decide_plans:
  assumes "exchange_decide sha now fr ctx code name platform ua provider g = (g', Planned pl)"
  shows "\<exists>k c use. k < length (ps_codes (fst (pair_prune now g))) \<and> c = ps_codes (fst (pair_prune now g)) ! k
    \<and> c \<in> set (ps_codes g) \<and> now < cd_expires_at c \<and> cd_code c = code \<and> cd_used c = None
    \<and> ps_codes g' = (ps_codes (fst (pair_prune now g)))[k := c\<lparr>cd_used := Some use\<rparr>]
    \<and> (case cd_target c of
         TargetLan \<Rightarrow> lan_auto ctx \<and> pl = PlanAuto
       | TargetSelf \<Rightarrow> (\<exists>dev. cd_device_id c = Some dev \<and> pl = PlanSelfToken dev)
       | TargetInternet \<Rightarrow> waiting (fst (pair_prune now g)) < MAX_PENDING
           \<and> pl = PlanPending (new_pair sha now fr ctx name platform ua provider))"
proof -
  let ?g = "fst (pair_prune now g)"
  from assms obtain k where k: "position (\<lambda>c. length (cd_code c) = length code \<and> token_matches (cd_code c) code) (ps_codes ?g) = Some k"
    by (auto simp: exchange_decide_def Let_def simp del: position_None split: option.splits)
  note at = position_Some [OF k]
  then have "ps_codes ?g ! k \<in> set (ps_codes ?g)" by simp
  then have "ps_codes ?g ! k \<in> set (ps_codes g)" "now < cd_expires_at (ps_codes ?g ! k)" by (auto simp: prune_codes)
  moreover have "pending_count now ?g = waiting ?g" using pending_live_count [of now g] by (simp add: waiting_def)
  ultimately show ?thesis using assms k at
    by (intro exI [of _ k] exI [of _ "ps_codes ?g ! k"])
      (auto simp: exchange_decide_def Let_def mark_used_def split: option.splits prod.splits code_target.splits if_splits)
qed

lemma carry_out_ok:
  assumes "carry_out sha now inst fr ctx code name platform ua provider pl sv = (sv', Inr (status, body))"
  shows "(case pl of PlanAuto \<Rightarrow> status = 201 | PlanSelfToken dev \<Rightarrow> status = 201 \<and> ds_is_active dev (sv_devices sv)
    | PlanPending p \<Rightarrow> status = 202 \<and> ds_devices (sv_devices sv') = ds_devices (sv_devices sv))"
proof (cases pl)
  case (PlanSelfToken dev)
  with assms have s: "status = 201" and t: "snd (ds_add_token sha (fr_enc fr) now inst dev (sv_devices sv)) \<noteq> None"
    by (auto simp: carry_out_def Let_def split: prod.splits option.splits)
  have "ds_is_active dev (sv_devices sv)"
  proof (rule ccontr)
    assume "\<not> ?thesis"
    then have "\<forall>d \<in> set (ds_devices (sv_devices sv)). dr_id d = dev \<longrightarrow> dr_revoked d"
      by (auto simp: ds_is_active_def list_ex_iff)
    then have "ds_update dev f (sv_devices sv) = None" for f by (simp add: ds_update_None)
    with t show False by (simp add: ds_add_token_def Let_def)
  qed
  with s PlanSelfToken show ?thesis by simp
next
  case PlanAuto
  with assms show ?thesis by (auto simp: carry_out_def Let_def split: prod.splits)
next
  case (PlanPending p)
  with assms show ?thesis by (auto simp: carry_out_def Let_def publish_defs)
qed

lemma exchange_ok:
  assumes ex: "exchange sha detected meanwhile now inst fr ctx hs req sv = (sv', Inr x)"
  shows "\<exists>code name platform ua provider g pl sv0. normalize_code (er_code req) = Some code
    \<and> exchange_decide sha now fr ctx code name platform ua provider (sv_pairing sv) = (g, Planned pl)
    \<and> carry_out sha now inst fr ctx code name platform ua provider pl (meanwhile (sv0\<lparr>sv_pairing := g\<rparr>)) = (sv', Inr x)"
proof -
  obtain sv0 u where l: "check_pair_limit inst ctx sv = (sv0, Inr u)"
    using ex by (auto simp: exchange_def split: prod.splits sum.splits)
  obtain code where code: "normalize_code (er_code req) = Some code"
    using ex l by (auto simp: exchange_def split: option.splits)
  let ?ua = "case get_all hs ''user-agent'' of [] \<Rightarrow> None | v # _ \<Rightarrow> map_option (\<lambda>u. sanitize_label u 200) (to_str v)"
  let ?name = "sanitize_label (er_device_name req) MAX_NAME_CHARS" and ?platform = "sanitize_label (er_platform req) 32"
  let ?provider = "provider_hint detected ctx"
  obtain g v where d: "exchange_decide sha now fr ctx code ?name ?platform ?ua ?provider (sv_pairing sv) = (g, v)"
    by fastforce
  note rest = ex [unfolded exchange_def l code pair_limit_fields [OF l] Let_def d prod.case sum.case option.case]
  then obtain pl where pl: "v = Planned pl"
    by (cases v) (auto simp: map_prod_def split: prod.splits)
  from rest have "carry_out sha now inst fr ctx code ?name ?platform ?ua ?provider pl (meanwhile (sv0\<lparr>sv_pairing := g\<rparr>)) = (sv', Inr x)"
    by (simp only: pl verdict_of_code.case)
  with code d pl show ?thesis by blast
qed

lemma lan_auto_context:
  "lan_auto ((context_new ing peer hs allow)\<lparr>cc_principal := p\<rparr>)
     \<longleftrightarrow> ing = IngLan \<and> is_private_ip (sa_ip peer) \<and> \<not> has_proxy_headers hs"
  by (auto simp: lan_auto_def context_new_def effective_ingress_def)

text \<open>C10: What a code opens, from the raw facts of the request. An exchange succeeds only with a code that is in
  the table, live and unused. A home-network code gives a token at once (201), and only to a connection of the
  LAN listener from a private address without proxy headers; a code made by a device for itself only while
  that device is not revoked; an Internet code never gives a token: it makes a request that waits (202), with
  at most four others waiting, and no device is added.\<close>

theorem exchange_gate:
  assumes "exchange sha detected meanwhile now inst fr
      ((context_new ing peer hs allow)\<lparr>cc_principal := who\<rparr>) headers req sv = (sv', Inr (status, body))"
  shows "\<exists>c sv1. normalize_code (er_code req) = Some (cd_code c) \<and> c \<in> set (ps_codes (sv_pairing sv))
    \<and> now < cd_expires_at c \<and> cd_used c = None
    \<and> (case cd_target c of
         TargetLan \<Rightarrow> status = 201 \<and> ing = IngLan \<and> is_private_ip (sa_ip peer) \<and> \<not> has_proxy_headers hs
       | TargetSelf \<Rightarrow> status = 201
           \<and> (\<exists>dev. cd_device_id c = Some dev \<and> ds_is_active dev (sv_devices (meanwhile sv1)))
       | TargetInternet \<Rightarrow> status = 202 \<and> waiting (fst (pair_prune now (sv_pairing sv))) < 5
           \<and> ds_devices (sv_devices sv') = ds_devices (sv_devices (meanwhile sv1)))"
proof -
  let ?ctx = "(context_new ing peer hs allow)\<lparr>cc_principal := who\<rparr>"
  from exchange_ok [OF assms] obtain code name platform ua provider g pl sv0 where
    code: "normalize_code (er_code req) = Some code"
    and d: "exchange_decide sha now fr ?ctx code name platform ua provider (sv_pairing sv) = (g, Planned pl)"
    and c: "carry_out sha now inst fr ?ctx code name platform ua provider pl (meanwhile (sv0\<lparr>sv_pairing := g\<rparr>))
      = (sv', Inr (status, body))" by blast
  from decide_plans [OF d] obtain c' where c': "c' \<in> set (ps_codes (sv_pairing sv))"
    "now < cd_expires_at c'" "cd_code c' = code" "cd_used c' = None"
    and t: "case cd_target c' of TargetLan \<Rightarrow> lan_auto ?ctx \<and> pl = PlanAuto
       | TargetSelf \<Rightarrow> (\<exists>dev. cd_device_id c' = Some dev \<and> pl = PlanSelfToken dev)
       | TargetInternet \<Rightarrow> waiting (fst (pair_prune now (sv_pairing sv))) < MAX_PENDING
           \<and> pl = PlanPending (new_pair sha now fr ?ctx name platform ua provider)" by blast
  note out = carry_out_ok [OF c]
  show ?thesis
  proof (intro exI [of _ c'] exI [of _ "sv0\<lparr>sv_pairing := g\<rparr>"] conjI)
    show "normalize_code (er_code req) = Some (cd_code c')" using code c' by simp
    show "case cd_target c' of
         TargetLan \<Rightarrow> status = 201 \<and> ing = IngLan \<and> is_private_ip (sa_ip peer) \<and> \<not> has_proxy_headers hs
       | TargetSelf \<Rightarrow> status = 201
           \<and> (\<exists>dev. cd_device_id c' = Some dev \<and> ds_is_active dev (sv_devices (meanwhile (sv0\<lparr>sv_pairing := g\<rparr>))))
       | TargetInternet \<Rightarrow> status = 202 \<and> waiting (fst (pair_prune now (sv_pairing sv))) < 5
           \<and> ds_devices (sv_devices sv') = ds_devices (sv_devices (meanwhile (sv0\<lparr>sv_pairing := g\<rparr>)))"
      using t out unfolding lan_auto_context MAX_PENDING_def by (cases "cd_target c'") auto
  qed (use c' in simp_all)
qed

section \<open>A code is redeemed once\<close>

definition spent :: "str \<Rightarrow> code list \<Rightarrow> bool" where
  "spent code cs \<longleftrightarrow> (\<forall>c \<in> set cs. cd_code c = code \<longrightarrow> cd_used c \<noteq> None)"

lemma spent_filter: "spent code cs \<Longrightarrow> spent code (filter P cs)"
  by (auto simp: spent_def)

lemma spent_subset: "set cs' \<subseteq> set cs \<Longrightarrow> spent code cs \<Longrightarrow> spent code cs'"
  by (auto simp: spent_def)

lemma set_evict_codes: "set (evict_codes cs) \<subseteq> set cs"
proof (induction cs rule: evict_codes.induct)
  case (1 cs)
  have "set (remove_first unused cs) \<subseteq> set cs" by (induction cs) auto
  with 1 show ?case by (cases "length (filter unused cs) < MAX_ACTIVE_CODES") (auto simp: evict_codes.simps [of cs])
qed

lemma spent_list_update: "spent code cs \<Longrightarrow> cd_used c \<noteq> None \<Longrightarrow> spent code (cs[k := c])"
  by (auto simp: spent_def dest: set_update_subset_insert [THEN subsetD])

lemma spent_update_first: "spent code cs \<Longrightarrow> (\<And>c. cd_used (f c) \<noteq> None) \<Longrightarrow> spent code (update_first P f cs)"
  by (auto simp: spent_def dest!: set_update_first)

lemma spent_prune: "spent code (ps_codes g) \<Longrightarrow> spent code (ps_codes (fst (pair_prune now g)))"
  by (simp add: prune_codes spent_filter)

lemma spent_step:
  assumes "pair_step sha e (sv, u) (sv', u')" "spent code (ps_codes (sv_pairing sv))" "e \<noteq> EvCreate code"
  shows "spent code (ps_codes (sv_pairing sv'))"
  using assms(1)
proof (cases rule: pair_step.cases)
  case (step_create lan public qr now fr ctx req r)
  let ?g = "fst (pair_prune now (sv_pairing sv))"
  from step_create have "ps_codes (sv_pairing sv') = ps_codes (sv_pairing sv)
      \<or> (\<exists>t d x. ps_codes (sv_pairing sv') = evict_codes (ps_codes ?g)
           @ [\<lparr>cd_code = new_code (fr_bytes fr), cd_target = t, cd_device_id = d, cd_expires_at = x, cd_used = None\<rparr>])"
    by (auto simp: create_code_def add_code_def Let_def split: sum.splits prod.splits)
  moreover have "spent code (evict_codes (ps_codes ?g))"
    using spent_prune [OF assms(2)] by (rule spent_subset [OF set_evict_codes])
  ultimately show ?thesis using assms(2,3) step_create(1) by (auto simp: spent_def)
next
  case (step_decide now fr ctx code' name platform ua provider g v)
  let ?g = "fst (pair_prune now (sv_pairing sv))"
  have "ps_codes g = ps_codes ?g \<or> (\<exists>k pid dev. ps_codes g = ps_codes (mark_used k pid dev ?g))"
    using step_decide(4)
    by (auto simp: exchange_decide_def Let_def split: option.splits prod.splits code_target.splits if_splits; blast)
  then show ?thesis using step_decide(2) spent_prune [OF assms(2)]
    by (elim disjE exE) (simp_all add: mark_used_def spent_list_update)
next
  case (step_carry_out now inst fr ctx code' name platform ua provider pl r)
  have "sv_pairing sv' = sv_pairing sv \<or> (\<exists>dev. sv_pairing sv' = note_used_by code' dev (sv_pairing sv))"
    using step_carry_out(3) by (cases pl) (auto simp: carry_out_def Let_def publish_defs announce_new_device_def
        split: prod.splits option.splits)
  then show ?thesis using assms(2) by (elim disjE exE) (simp_all add: note_used_by_def spent_update_first)
next
  case (step_poll now inst ctx i secret r)
  then show ?thesis using poll_codes [OF step_poll(3)] assms(2) spent_prune by auto
next
  case (step_approve now inst fr ctx i fp r)
  then show ?thesis using approve_codes [OF step_approve(3)] assms(2) spent_prune by auto
next
  case (step_deny now ctx i r)
  then show ?thesis using deny_codes [OF step_deny(3)] assms(2) spent_prune by auto
next
  case (step_sweep now)
  then show ?thesis using spent_prune [OF assms(2), of now]
    by (auto simp: sweep_def pair_sweep_def Let_def publish_defs split: prod.splits)
next
  case (step_views now)
  then show ?thesis using spent_prune [OF assms(2)] by (simp add: pending_views_def Let_def)
next
  case step_other
  then show ?thesis using assms(2) by simp
qed

lemma spent_run:
  assumes "trace (pair_step sha) es c c'" "spent code (ps_codes (sv_pairing (fst c)))" "EvCreate code \<notin> set es"
  shows "spent code (ps_codes (sv_pairing (fst c')))"
  using assms by (induction rule: trace.induct) (auto dest: spent_step)

text \<open>C27: A code is redeemed once. After an exchange that took a code, whatever the program does next (as long as
  the random codes it creates do not hit the same code), every later exchange with that code is refused as
  invalid or counts as a replay: it never makes a plan again.\<close>

theorem code_redeemed_once:
  assumes "exchange_decide sha now fr ctx code name platform ua provider (sv_pairing sv) = (g, Planned pl)"
    and "distinct (map cd_code (ps_codes (sv_pairing sv)))"
    and "trace (pair_step sha) es (sv\<lparr>sv_pairing := g\<rparr>, u) (sv', u')" and "EvCreate code \<notin> set es"
    and "exchange_decide sha now' fr' ctx' code name' platform' ua' provider' (sv_pairing sv') = (g', v)"
  shows "v = Refused invalid_code True \<or> (\<exists>used hit. v = Replayed used hit)"
proof -
  let ?cs = "ps_codes (fst (pair_prune now (sv_pairing sv)))"
  from decide_plans [OF assms(1)] obtain k c use where k: "k < length ?cs" "c = ?cs ! k" "cd_code c = code"
    and g: "ps_codes g = ?cs[k := c\<lparr>cd_used := Some use\<rparr>]" by blast
  have d: "distinct (map cd_code ?cs)" using assms(2) by (simp add: prune_codes distinct_map_filter)
  have "spent code (ps_codes g)" unfolding spent_def
  proof (intro ballI impI)
    fix x assume "x \<in> set (ps_codes g)" "cd_code x = code"
    then obtain j where j: "j < length ?cs" "x = ps_codes g ! j" by (auto simp: g in_set_conv_nth)
    show "cd_used x \<noteq> None"
    proof (cases "j = k")
      case False
      then have "map cd_code ?cs ! j = map cd_code ?cs ! k" using j k \<open>cd_code x = code\<close> by (simp add: g)
      with nth_eq_iff_index_eq [OF d, of j k] j k have "j = k" by simp
      with False show ?thesis by simp
    qed (use j k in \<open>simp add: g\<close>)
  qed
  with spent_run [OF assms(3)] assms(4) have "spent code (ps_codes (sv_pairing sv'))" by simp
  note now_spent = spent_prune [OF this, of now']
  let ?P = "\<lambda>c. length (cd_code c) = length code \<and> token_matches (cd_code c) code"
    and ?cs' = "ps_codes (fst (pair_prune now' (sv_pairing sv')))"
  show ?thesis
  proof (cases "position ?P ?cs'")
    case None
    with assms(5) show ?thesis by (simp add: exchange_decide_def Let_def del: position_None)
  next
    case (Some j)
    from position_Some [OF this] have "cd_used (?cs' ! j) \<noteq> None"
      using now_spent by (simp add: spent_def)
    then obtain y where y: "cd_used (?cs' ! j) = Some y" by blast
    obtain ps hit where "contest (cu_pending_id y) (ps_pending (fst (pair_prune now' (sv_pairing sv')))) = (ps, hit)"
      by fastforce
    with assms(5) Some y have "v = Replayed y hit" by (simp add: exchange_decide_def Let_def)
    then show ?thesis by blast
  qed
qed

section \<open>Every request ends\<close>

lemma sweep_pending: "ps_pending (sv_pairing (sweep now sv)) = ps_pending (fst (pair_prune now (sv_pairing sv)))"
  by (auto simp: sweep_def pair_sweep_def Let_def publish_defs split: prod.splits)

lemma swept_request:
  assumes "find (\<lambda>p. pp_id p = i) (ps_pending (sv_pairing sv)) = Some p" "distinct (pair_ids (sv_pairing sv))"
  shows "find (\<lambda>p. pp_id p = i) (ps_pending (sv_pairing (sweep now sv)))
    = (if keep_pair now (expire_pair now p) then Some (expire_pair now p) else None)"
  using lookup_prune [OF assms(2), of i now] assms(1) by (simp add: sweep_pending lookup_pair_def)

text \<open>C29: Every request ends. The sweep at or after its deadline leaves no request waiting, and the sweep ten
  minutes later forgets it, whatever was decided about it.\<close>

theorem every_request_ends:
  assumes "config_ok (sv, u)" and "find (\<lambda>p. pp_id p = i) (ps_pending (sv_pairing sv)) = Some p"
    and "pp_expires_at p \<le> t1" and "\<forall>t. pp_decided_at p = Some t \<longrightarrow> t \<le> t1" and "t1 + DECIDED_KEEP_MS \<le> t2"
  shows "(\<nexists>f s n c. request_of i (sweep t1 sv, u) = Waiting f s n c)
    \<and> request_of i (sweep t2 (sweep t1 sv), u) = Gone"
proof
  have d: "distinct (pair_ids (sv_pairing sv))" and pok: "pair_ok p" and i: "i \<in> u"
    using assms(1) find_id_Some [OF assms(2)] by (auto simp: config_ok_def state_ok_def pair_ids_def)
  note f1 = swept_request [OF assms(2) d, of t1]
  have ended: "pp_status (expire_pair t1 p) \<noteq> PairPending" using assms(3) by (simp add: expire_pair_def)
  then show "\<nexists>f s n c. request_of i (sweep t1 sv, u) = Waiting f s n c"
    using f1 i by (auto simp: request_of_def request_in_def stage_def split: pending_status.splits)
  have d1: "distinct (pair_ids (sv_pairing (sweep t1 sv)))"
    using prune_ids [OF d, of t1] by (simp add: pair_ids_def sweep_pending)
  let ?q = "expire_pair t1 p"
  have q: "\<exists>t \<le> t1. pp_decided_at ?q = Some t"
    using assms(4) ended pok by (auto simp: expire_pair_def pair_ok_def split: if_splits)
  have "expire_pair t2 ?q = ?q" using ended by (simp add: expire_pair_def [of t2])
  moreover have "\<not> keep_pair t2 ?q" using q ended assms(5) by (auto simp: keep_pair_def)
  ultimately have "find (\<lambda>p. pp_id p = i) (ps_pending (sv_pairing (sweep t2 (sweep t1 sv)))) = None"
    using f1 swept_request [OF _ d1, of i ?q t2] i d1
    by (cases "keep_pair t1 ?q") (auto simp: sweep_pending [of t2] find_id_None prune_pending)
  with i show "request_of i (sweep t2 (sweep t1 sv), u) = Gone" by (simp add: request_of_def request_in_def)
qed

section \<open>Codes read back\<close>

text \<open>The symbol a typed character stands for; separators stand for none.\<close>

definition separator :: "char \<Rightarrow> bool" where
  "separator c \<longleftrightarrow> c \<in> set [CHR '' '', CHR ''-'', CHR ''_'', CHR 0x09]"

definition symbol_of :: "char \<Rightarrow> char" where
  "symbol_of c = (let c = upper_byte c
                  in if c = CHR ''O'' then CHR ''0'' else if c \<in> set [CHR ''I'', CHR ''L''] then CHR ''1'' else c)"

lemma normalize_loop_exact:
  "length out \<le> CODE_LEN \<Longrightarrow> normalize_loop out s =
     (let t = out @ map symbol_of (filter (\<lambda>c. \<not> separator (upper_byte c)) s)
      in if length t = CODE_LEN \<and> set (drop (length out) t) \<subseteq> set CROCKFORD then Some t else None)"
proof (induction out s rule: normalize_loop.induct)
  case (2 out c s)
  show ?case
  proof (cases "separator (upper_byte c)")
    case True
    then have "normalize_loop out (c # s) = normalize_loop out s" by (simp add: separator_def Let_def)
    moreover have "upper_byte c \<in> set [CHR '' '', CHR ''-'', CHR ''_'', CHR 0x09]" using True by (simp only: separator_def)
    note 2(1) [OF refl this 2(3)]
    ultimately show ?thesis using True by simp
  next
    case False
    let ?c = "symbol_of c"
    have l: "normalize_loop out (c # s) = (if ?c \<notin> set CROCKFORD then None
        else if length out + 1 > CODE_LEN then None else normalize_loop (out @ [?c]) s)"
      using False by (simp add: separator_def symbol_of_def Let_def)
    show ?thesis
    proof (cases "?c \<in> set CROCKFORD \<and> length out + 1 \<le> CODE_LEN")
      case True
      then have "normalize_loop (out @ [?c]) s =
         (let t = (out @ [?c]) @ map symbol_of (filter (\<lambda>c. \<not> separator (upper_byte c)) s)
          in if length t = CODE_LEN \<and> set (drop (length (out @ [?c])) t) \<subseteq> set CROCKFORD then Some t else None)"
        using 2(2) [OF refl _ refl _ _] False by (simp add: separator_def symbol_of_def Let_def)
      then show ?thesis unfolding l using True False by (simp add: Let_def Suc_le_eq)
    next
      case no: False
      then show ?thesis using l False by (auto simp: Let_def)
    qed
  qed
qed (simp add: Let_def)

lemma normalize_code_exact:
  "normalize_code raw = (let t = map symbol_of (filter (\<lambda>c. \<not> separator (upper_byte c)) raw)
     in if length t = CODE_LEN \<and> set t \<subseteq> set CROCKFORD then Some t else None)"
  by (simp add: normalize_code_def normalize_loop_exact)

lemma lossy_ascii: "list_all (\<lambda>c. byte c < 128) s \<Longrightarrow> from_utf8_lossy s = s"
proof (induction s)
  case (Cons c s)
  then have "utf8_front (map byte (c # s)) = (True, 1)" by (simp add: utf8_front_def utf8_width_def Let_def)
  with Cons show ?case by (simp add: from_utf8_lossy.simps [of "c # s"])
qed (simp add: from_utf8_lossy.simps)

lemma crockford_chars:
  "\<forall>c \<in> set CROCKFORD. byte c < 128 \<and> \<not> separator (upper_byte c) \<and> symbol_of c = c
     \<and> \<not> separator (upper_byte (lower_byte c)) \<and> symbol_of (lower_byte c) = c"
  by code_simp

lemma concat_chunks: "0 < n \<Longrightarrow> concat (chunks n xs) = xs"
proof (induction n xs rule: chunks.induct)
  case (2 n x xs)
  then show ?case by (cases n) auto
qed simp

lemma chunks_subset: "ys \<in> set (chunks n xs) \<Longrightarrow> set ys \<subseteq> set xs"
proof (induction n xs rule: chunks.induct)
  case (2 n x xs)
  then show ?case using set_take_subset [of "n - 1" xs] set_drop_subset [of "n - 1" xs]
    by (auto split: if_splits; blast)
qed simp

lemma filter_join: "\<not> P (hd sep) \<Longrightarrow> length sep = 1 \<Longrightarrow> filter P (join sep xs) = concat (map (filter P) xs)"
  by (induction sep xs rule: join.induct) (auto simp: length_Suc_conv)

lemma display_symbols:
  assumes "set code \<subseteq> set CROCKFORD" and "f = id \<or> f = lower_byte"
  shows "map symbol_of (filter (\<lambda>c. \<not> separator (upper_byte c)) (map f (display_code code))) = code"
proof -
  let ?P = "\<lambda>c. \<not> separator (upper_byte (f c))"
  have f: "symbol_of (f c) = c" "?P c" if "c \<in> set code" for c
    using crockford_chars that assms by auto
  have chunk: "from_utf8_lossy ys = ys" "filter ?P ys = ys" if "ys \<in> set (chunks 4 code)" for ys
  proof -
    have ys: "set ys \<subseteq> set code" using chunks_subset [OF that] .
    then have "list_all (\<lambda>c. byte c < 128) ys" using crockford_chars assms(1) by (auto simp: list_all_iff)
    then show "from_utf8_lossy ys = ys" by (rule lossy_ascii)
    show "filter ?P ys = ys" using ys f(2) by (auto simp: filter_id_conv)
  qed
  have "\<not> ?P (CHR ''-'')" using assms(2) by (elim disjE; simp only:) code_simp+
  then have "filter ?P (display_code code) = concat (map (filter ?P) (map from_utf8_lossy (chunks 4 code)))"
    unfolding display_code_def by (intro filter_join) simp_all
  also have "map (filter ?P) (map from_utf8_lossy (chunks 4 code)) = chunks 4 code"
    using chunk by (simp add: map_idI)
  also have "concat (chunks 4 code) = code" by (rule concat_chunks) simp
  finally have "filter ?P (display_code code) = code" .
  moreover have "map (\<lambda>c. symbol_of (f c)) code = code" using f(1) by (simp add: map_idI)
  ultimately show ?thesis by (simp add: filter_map comp_def)
qed

lemma new_code_symbols: "set (new_code bytes) \<subseteq> set CROCKFORD" "length (new_code bytes) = length bytes"
proof -
  have "length CROCKFORD = 32" by (simp add: CROCKFORD_def)
  then have "CROCKFORD ! (b mod 32) \<in> set CROCKFORD" for b by (intro nth_mem) simp
  then show "set (new_code bytes) \<subseteq> set CROCKFORD" by (auto simp: new_code_def)
qed (simp add: new_code_def)

text \<open>A code survives being shown and typed: what is displayed, in groups with dashes, reads back as the code,
  in capitals or in small letters.\<close>

theorem code_roundtrip:
  assumes "length bytes = CODE_LEN"
  shows "normalize_code (display_code (new_code bytes)) = Some (new_code bytes)
    \<and> normalize_code (map lower_byte (display_code (new_code bytes))) = Some (new_code bytes)"
  using display_symbols [OF new_code_symbols(1), where f = id] display_symbols [OF new_code_symbols(1), where f = lower_byte]
    new_code_symbols [of bytes] assms
  by (simp_all add: normalize_code_exact)

section \<open>A run\<close>

text \<open>The Mac creates an Internet code, a phone redeems it, the owner types the digits, the phone polls.\<close>

definition mac :: client_context where
  "mac = (context_new IngLan lan_peer lan_request False)\<lparr>cc_principal := Desktop\<rparr>"

definition dice :: fresh where
  "dice = \<lparr>fr_enc = ''x'', fr_uuid = ''1'', fr_bytes = [0, 0, 0, 0, 0, 0, 0, 0, 0, 0, 0, 0]\<rparr>"

definition shown_code :: code where
  "shown_code = \<lparr>cd_code = ''000000000000'', cd_target = TargetInternet, cd_device_id = None,
     cd_expires_at = CODE_TTL_MS, cd_used = None\<rparr>"

definition phone_pair :: pending_pair where
  "phone_pair = (new_pair (\<lambda>s. s) 1 dice mac ''Phone'' ''iOS'' None ''lan'')\<lparr>pp_token := None\<rparr>"

definition with_code :: server where
  "with_code = example_server\<lparr>sv_pairing := \<lparr>ps_codes = [shown_code], ps_pending = []\<rparr>\<rparr>"

definition with_request :: "pending_pair \<Rightarrow> server" where
  "with_request p = example_server\<lparr>sv_pairing :=
     \<lparr>ps_codes = [shown_code\<lparr>cd_used := Some \<lparr>cu_pending_id = Some ''pp_1'', cu_device_id = None\<rparr>\<rparr>],
      ps_pending = [p]\<rparr>\<rparr>"

lemma phone_pair_fields [simp]:
  "pp_id phone_pair = ''pp_1''" "pp_status phone_pair = PairPending" "pp_contested phone_pair = False"
  "pp_fingerprint phone_pair = ''0000''" "pp_expires_at phone_pair = 1 + PENDING_TTL_MS"
  "pp_fingerprint_attempts phone_pair = 0" "pp_token phone_pair = None"
  "pp_poll_secret_sha phone_pair = sha256_hex (\<lambda>s. s) ''mcps_x''"
proof -
  have "new_fingerprint [0, 0, 0, 0, 0, 0, 0, 0, 0, 0, 0, 0] = ''0000''"
  proof -
    have "show_nat 0 = ''0''" by code_simp
    then have "four_digits 0 = ''0000''" by (simp add: four_digits_def numeral_3_eq_3)
    then show ?thesis by (simp add: new_fingerprint_def)
  qed
  then show "pp_fingerprint phone_pair = ''0000''" by (simp add: phone_pair_def new_pair_def Let_def dice_def)
  show "pp_poll_secret_sha phone_pair = sha256_hex (\<lambda>s. s) ''mcps_x''"
    by (simp add: phone_pair_def new_pair_def Let_def dice_def random_token_def POLL_SECRET_PREFIX_def)
qed (simp_all add: phone_pair_def new_pair_def Let_def dice_def)

lemma mac_simps [simp]: "is_desktop mac"
  by (simp add: mac_def is_desktop_def)

lemma run_create: "pair_step (\<lambda>s. s) (EvCreate ''000000000000'') (example_server, {}) (with_code, {})"
proof -
  have code: "new_code (fr_bytes dice) = ''000000000000''" by (simp add: new_code_def dice_def CROCKFORD_def)
  have "evict_codes [] = []" by (simp add: evict_codes.simps MAX_ACTIVE_CODES_def)
  then have "\<exists>r. create_code None (Some ''https://m.example'') (\<lambda>s. s) 0 dice mac
      \<lparr>cr_target = TargetInternet, cr_base_url = None\<rparr> example_server = (with_code, r)"
    unfolding create_code_def code_owner_def require_desktop_def code_base_url_def
    by (simp add: code add_code_def pair_prune_def Let_def
        with_code_def shown_code_def example_server_def pairing_new_def)
  then show ?thesis using step_create [of None "Some ''https://m.example''" "\<lambda>s. s" 0 dice mac _ example_server with_code]
    by (auto simp: code)
qed

lemma decide_example:
  "exchange_decide (\<lambda>s. s) 1 dice mac ''000000000000'' ''Phone'' ''iOS'' None ''lan'' (sv_pairing with_code)
     = (sv_pairing (with_request phone_pair), Planned (PlanPending (new_pair (\<lambda>s. s) 1 dice mac ''Phone'' ''iOS'' None ''lan'')))"
proof -
  have "pp_id (new_pair (\<lambda>s. s) 1 dice mac ''Phone'' ''iOS'' None ''lan'') = ''pp_1''"
    by (simp add: new_pair_def Let_def dice_def)
  then show ?thesis
    by (simp add: exchange_decide_def with_code_def shown_code_def pair_prune_def Let_def CODE_TTL_MS_def
        pending_count_def MAX_PENDING_def mark_used_def with_request_def phone_pair_def example_server_def)
qed

lemma run_decide:
  "pair_step (\<lambda>s. s) (EvExchange ''pp_1'') (with_code, {}) (with_request phone_pair, {''pp_1''})"
proof -
  have "with_code\<lparr>sv_pairing := sv_pairing (with_request phone_pair)\<rparr> = with_request phone_pair"
    by (simp add: with_code_def with_request_def)
  then show ?thesis using step_decide [OF decide_example, of "{}"] by (simp add: dice_def)
qed

lemma run_approve:
  "\<exists>sv p. pair_step (\<lambda>s. s) (EvApprove mac ''pp_1'' ''0000'') (with_request phone_pair, {''pp_1''}) (sv, {''pp_1''})
     \<and> ps_pending (sv_pairing sv) = [p] \<and> sv_limits sv = auth_limiter_new
     \<and> (\<exists>dev token. p = approved_pair 2 dev token phone_pair)"
proof -
  have d: "digits_of ''0000'' = ''0000''" by code_simp
  have f: "find (\<lambda>p. pp_id p = ''pp_1'') [phone_pair] = Some phone_pair" by simp
  have p: "ps_pending (fst (pair_prune 2 (sv_pairing (with_request phone_pair)))) = [phone_pair]"
    by (simp add: prune_pending expire_pair_def keep_pair_def with_request_def PENDING_TTL_MS_def)
  obtain ds info token where ds: "ds_issue (\<lambda>s. s) (fr_enc dice) (fr_uuid dice) 2 0 (pp_device_name phone_pair)
      (pp_platform phone_pair) (pp_user_agent phone_pair) (pp_ingress phone_pair)
      (case parse_ip (pp_client_ip phone_pair) of Some ip \<Rightarrow> ip | None \<Rightarrow> V4 0) (sv_devices (with_request phone_pair))
      = (ds, info, token)" by (metis prod_cases3)
  have "ps_pending (sv_pairing (fst (approve (\<lambda>s. s) 2 0 dice mac ''pp_1'' ''0000'' (with_request phone_pair))))
      = [approved_pair 2 (di_id info) token phone_pair]
    \<and> sv_limits (fst (approve (\<lambda>s. s) 2 0 dice mac ''pp_1'' ''0000'' (with_request phone_pair))) = sv_limits (with_request phone_pair)"
    unfolding approve_def require_desktop_def Let_def
    by (simp add: p f d ds publish_defs update_pair_def del: find.simps)
  moreover obtain sv r where a: "approve (\<lambda>s. s) 2 0 dice mac ''pp_1'' ''0000'' (with_request phone_pair) = (sv, r)" by fastforce
  ultimately have "ps_pending (sv_pairing sv) = [approved_pair 2 (di_id info) token phone_pair]"
    and "sv_limits sv = sv_limits (with_request phone_pair)" by simp_all
  then show ?thesis using step_approve [OF a] by (auto simp: with_request_def example_server_def)
qed

lemma no_block: "al_pair_blocked 0 auth_limiter_new key = (auth_limiter_new, None)"
  by (simp add: al_pair_blocked_def auth_limiter_new_def buckets_blocked_def buckets_new_def Let_def)

lemma run_poll:
  assumes "ps_pending (sv_pairing sv) = [approved_pair 2 dev token phone_pair]" "sv_limits sv = auth_limiter_new"
  shows "\<exists>e c. pair_step (\<lambda>s. s) e (sv, {''pp_1''}) c \<and> hands_out_token ''pp_1'' e"
proof -
  let ?p = "approved_pair 2 dev token phone_pair"
  have p: "ps_pending (fst (pair_prune 3 (sv_pairing sv))) = [?p]"
    using assms(1) by (simp add: prune_pending expire_pair_def keep_pair_def approved_pair_def DECIDED_KEEP_MS_def)
  have "poll_matches ''pp_1'' (sha256_hex (\<lambda>s. s) ''mcps_x'') ?p"
    by (simp add: poll_matches_def approved_pair_def sha256_hex_def) code_simp
  moreover obtain sv' r where a: "poll (\<lambda>s. s) 3 0 mac ''pp_1'' (Some ''mcps_x'') sv = (sv', r)" by fastforce
  ultimately have "r = Inr (poll_reply ''approved'' [(''token'', JStr token), (''deviceId'', opt_str (Some dev)),
      (''name'', JStr (pp_device_name phone_pair))])"
    using p assms(2) by (auto simp: poll_def check_pair_limit_def no_block Let_def approved_pair_def)
  then have "hands_out_token ''pp_1'' (EvPoll ''pp_1'' (Some ''mcps_x'') r)"
    by (simp add: hands_out_token_def poll_reply_def json_simps)
  with step_poll [OF a] show ?thesis by blast
qed

lemma example_run:
  "\<exists>fp e c. trace (pair_step (\<lambda>s. s)) ([EvCreate ''000000000000'', EvExchange ''pp_1'', EvApprove mac ''pp_1'' fp] @ [e])
     (example_server, {}) c \<and> hands_out_token ''pp_1'' e"
proof -
  from run_approve obtain sv dev token where a:
    "pair_step (\<lambda>s. s) (EvApprove mac ''pp_1'' ''0000'') (with_request phone_pair, {''pp_1''}) (sv, {''pp_1''})"
    "ps_pending (sv_pairing sv) = [approved_pair 2 dev token phone_pair]" "sv_limits sv = auth_limiter_new" by blast
  from run_poll [OF a(2,3)] obtain e c where "pair_step (\<lambda>s. s) e (sv, {''pp_1''}) c" "hands_out_token ''pp_1'' e" by blast
  with a(1) run_create run_decide show ?thesis
    unfolding append_Cons append_Nil trace_Cons_iff trace_Nil_iff by blast
qed

section \<open>Witnesses\<close>

theorem token_needs_the_desktop_witness:
  "\<exists>fp e. \<forall>x \<in> set [EvCreate ''000000000000'', EvExchange ''pp_1'', EvApprove mac ''pp_1'' fp].
     hands_out_token ''pp_1'' e \<and> \<not> hands_out_token ''pp_1'' x"
proof -
  from example_run obtain fp e c where r: "trace (pair_step (\<lambda>s. s))
      ([EvCreate ''000000000000'', EvExchange ''pp_1'', EvApprove mac ''pp_1'' fp] @ [e]) (example_server, {}) c"
    "hands_out_token ''pp_1'' e" by blast
  have "sv_pairing example_server = pairing_new" by (simp add: example_server_def)
  from token_needs_the_desktop [OF r(1) this r(2)] r(2) show ?thesis by blast
qed

theorem request_life_cycle_witness:
  "trace (stutter (life (\<lambda>s. s) ''pp_1'')) [EvCreate ''000000000000'', EvExchange ''pp_1'']
     (request_of ''pp_1'' (example_server, {})) (request_of ''pp_1'' (with_request phone_pair, {''pp_1''}))"
proof (rule request_life_cycle)
  show "trace (pair_step (\<lambda>s. s)) [EvCreate ''000000000000'', EvExchange ''pp_1''] (example_server, {})
      (with_request phone_pair, {''pp_1''})"
    using run_create run_decide by (auto simp: trace_Cons_iff)
  have "sv_pairing example_server = pairing_new" by (simp add: example_server_def)
  then show "config_ok (example_server, {})" by (simp add: new_config)
qed

theorem pairing_stays_bounded_witness:
  "length (filter (\<lambda>p. pp_status p = PairPending) (ps_pending (sv_pairing (with_request phone_pair)))) \<le> 5"
proof -
  have "trace (pair_step (\<lambda>s. s)) [EvCreate ''000000000000'', EvExchange ''pp_1''] (example_server, {})
      (with_request phone_pair, {''pp_1''})"
    using run_create run_decide by (auto simp: trace_Cons_iff)
  moreover have "sv_pairing example_server = pairing_new" by (simp add: example_server_def)
  ultimately show ?thesis using pairing_stays_bounded by blast
qed

lemma request_ok: "config_ok (with_request phone_pair, {''pp_1''})"
  "config_ok (with_request (phone_pair\<lparr>pp_contested := True\<rparr>), {''pp_1''})"
proof -
  have "pp_decided_at phone_pair = None" by (simp add: phone_pair_def new_pair_def Let_def)
  then show "config_ok (with_request phone_pair, {''pp_1''})"
    "config_ok (with_request (phone_pair\<lparr>pp_contested := True\<rparr>), {''pp_1''})"
    by (simp_all add: config_ok_def state_ok_def with_request_def pair_ids_def pair_ok_def waiting_def MAX_PENDING_def
        MAX_ACTIVE_CODES_def MAX_FINGERPRINT_ATTEMPTS_def unused_def)
qed

theorem contested_request_is_lost_witness:
  "request_of ''pp_1'' (sweep 700000 (with_request (phone_pair\<lparr>pp_contested := True\<rparr>)), {''pp_1''})
     \<in> {Denied, Expired, Gone}
   \<or> (\<exists>f s n. request_of ''pp_1'' (sweep 700000 (with_request (phone_pair\<lparr>pp_contested := True\<rparr>)), {''pp_1''})
        = Waiting f s n True)"
proof -
  have "trace (pair_step (\<lambda>s. s)) [EvOther] (with_request (phone_pair\<lparr>pp_contested := True\<rparr>), {''pp_1''})
      (sweep 700000 (with_request (phone_pair\<lparr>pp_contested := True\<rparr>)), {''pp_1''})"
    by (auto simp: trace_Cons_iff intro: step_sweep)
  moreover have "request_of ''pp_1'' (with_request (phone_pair\<lparr>pp_contested := True\<rparr>), {''pp_1''})
      = Waiting ''0000'' (sha256_hex (\<lambda>s. s) ''mcps_x'') 0 True"
    by (simp add: request_of_def request_in_def with_request_def stage_def)
  ultimately show ?thesis using contested_request_is_lost [OF _ request_ok(2)] by blast
qed

lemma with_code_request: "with_code\<lparr>sv_pairing := sv_pairing (with_request p)\<rparr> = with_request p"
  by (simp add: with_code_def with_request_def)

theorem code_redeemed_once_witness:
  "snd (exchange_decide (\<lambda>s. s) 2 dice mac ''000000000000'' ''Pad'' ''iOS'' None ''lan''
      (sv_pairing (with_request phone_pair))) = Refused invalid_code True
   \<or> (\<exists>used hit. snd (exchange_decide (\<lambda>s. s) 2 dice mac ''000000000000'' ''Pad'' ''iOS'' None ''lan''
      (sv_pairing (with_request phone_pair))) = Replayed used hit)"
proof -
  obtain g v where d: "exchange_decide (\<lambda>s. s) 2 dice mac ''000000000000'' ''Pad'' ''iOS'' None ''lan''
      (sv_pairing (with_request phone_pair)) = (g, v)" by fastforce
  have "distinct (map cd_code (ps_codes (sv_pairing with_code)))" by (simp add: with_code_def)
  moreover have "trace (pair_step (\<lambda>s. s)) [] (with_code\<lparr>sv_pairing := sv_pairing (with_request phone_pair)\<rparr>, {})
      (with_request phone_pair, {})" by (simp add: with_code_request)
  moreover have "EvCreate ''000000000000'' \<notin> set []" by simp
  ultimately have "v = Refused invalid_code True \<or> (\<exists>used hit. v = Replayed used hit)"
    using d by (rule code_redeemed_once [OF decide_example])
  with d show ?thesis by simp
qed

lemma example_exchange:
  "\<exists>sv' body. exchange (\<lambda>s. s) [] id 1 0 dice mac [] \<lparr>er_code = ''0000-0000-0000'', er_device_name = ''Phone'',
     er_platform = ''iOS''\<rparr> with_code = (sv', Inr (202, body))"
proof -
  have n: "normalize_code ''0000-0000-0000'' = Some ''000000000000''" by code_simp
  have l: "check_pair_limit 0 mac with_code = (with_code, Inr ())"
    by (simp add: check_pair_limit_def with_code_def example_server_def no_block Let_def)
  have "pp_id (new_pair (\<lambda>s. s) 1 dice mac name platform ua provider) = ''pp_1''" for name platform ua provider
    by (simp add: new_pair_def Let_def dice_def)
  then have d: "\<exists>g p. exchange_decide (\<lambda>s. s) 1 dice mac ''000000000000'' name platform ua provider (sv_pairing with_code)
      = (g, Planned (PlanPending p))" for name platform ua provider
    by (simp add: exchange_decide_def with_code_def shown_code_def pair_prune_def Let_def CODE_TTL_MS_def
        pending_count_def MAX_PENDING_def)
  let ?name = "sanitize_label ''Phone'' MAX_NAME_CHARS" and ?platform = "sanitize_label ''iOS'' 32"
  from d [of ?name ?platform None "provider_hint [] mac"] obtain g p where
    "exchange_decide (\<lambda>s. s) 1 dice mac ''000000000000'' ?name ?platform None (provider_hint [] mac) (sv_pairing with_code)
      = (g, Planned (PlanPending p))" by blast
  then show ?thesis by (simp add: exchange_def l n get_all_def carry_out_def Let_def)
qed

theorem exchange_gate_witness:
  "\<exists>c. normalize_code ''0000-0000-0000'' = Some (cd_code c) \<and> c \<in> set (ps_codes (sv_pairing with_code))
     \<and> cd_used c = None"
proof -
  from example_exchange obtain sv' body where "exchange (\<lambda>s. s) [] id 1 0 dice
      ((context_new IngLan lan_peer lan_request False)\<lparr>cc_principal := Desktop\<rparr>) []
      \<lparr>er_code = ''0000-0000-0000'', er_device_name = ''Phone'', er_platform = ''iOS''\<rparr> with_code = (sv', Inr (202, body))"
    unfolding mac_def by blast
  from exchange_gate [OF this] show ?thesis by auto
qed

theorem every_request_ends_witness:
  "request_of ''pp_1'' (sweep 1300000 (sweep 700000 (with_request phone_pair)), {''pp_1''}) = Gone"
proof (rule every_request_ends [OF request_ok(1), of _ phone_pair, THEN conjunct2])
  show "find (\<lambda>p. pp_id p = ''pp_1'') (ps_pending (sv_pairing (with_request phone_pair))) = Some phone_pair"
    by (simp add: with_request_def)
qed (simp_all add: PENDING_TTL_MS_def DECIDED_KEEP_MS_def phone_pair_def new_pair_def Let_def)

theorem code_roundtrip_witness:
  "normalize_code (display_code (new_code (fr_bytes dice))) = Some (new_code (fr_bytes dice))"
  by (rule code_roundtrip [THEN conjunct1]) (simp add: dice_def CODE_LEN_def)

end
