(* ===== verification/Pending.thy ===== *)
theory Pending
  imports Danger Context Errors
begin

text \<open>
  \<open>pending.rs\<close>: the store of pending human decisions and the functions around it. The mutex makes
  each operation of the store one step. Times are epoch milliseconds, the fresh id of a colliding
  item is the argument \<open>uuid\<close>, \<open>canon\<close> is \<open>canonicalize\<close>, \<open>home\<close> and \<open>app_data\<close> are the process's
  directories. The \<open>oneshot\<close> channel of an item is a number; \<open>alive\<close> says whether the receiver of a
  channel still exists, and \<open>st_sent\<close> records, beside the state the code keeps, the decisions that
  were sent successfully. \<open>dbg\<close> is \<open>{:?}\<close> of a string.
\<close>

definition UNGATED_MODES :: "str list" where
  "UNGATED_MODES = [''bypassPermissions'', ''dontAsk'']"

definition RESPOND_MODES :: "str list" where
  "RESPOND_MODES = [''default'', ''acceptEdits'', ''plan'', ''auto'', ''bypassPermissions'', ''dontAsk'']"

definition FINISHED_CAP :: nat where "FINISHED_CAP = 2048"

datatype verdict = Allow | Deny

record decision =
  dc_decision :: verdict
  dc_suggestion :: "nat option"
  dc_message :: "str option"
  dc_answers :: "(str \<times> str) list option"
  dc_mode :: "str option"
  dc_interrupt :: bool
  dc_content :: "json option"

definition decision_allow :: decision where
  "decision_allow = \<lparr>dc_decision = Allow, dc_suggestion = None, dc_message = None, dc_answers = None,
     dc_mode = None, dc_interrupt = False, dc_content = None\<rparr>"

definition decision_deny :: "str option \<Rightarrow> decision" where
  "decision_deny message = \<lparr>dc_decision = Deny, dc_suggestion = None, dc_message = message,
     dc_answers = None, dc_mode = None, dc_interrupt = False, dc_content = None\<rparr>"

definition is_allow :: "decision \<Rightarrow> bool" where
  "is_allow d \<longleftrightarrow> dc_decision d = Allow"

definition answer_text :: "decision \<Rightarrow> str option" where
  "answer_text d =
     (case dc_answers d of
        Some a \<Rightarrow> if a \<noteq> [] then Some (join [char_of (10 :: nat)] (map snd a)) else dc_message d
      | None \<Rightarrow> dc_message d)"

section \<open>The body of an answer\<close>

record respond_body =
  rb_request_id :: str
  rb_decision :: decision

text \<open>The serialised form: fields in camel case, the optional ones left out when absent, the
  decision's fields beside the request id.\<close>

definition opt_field :: "str \<Rightarrow> json option \<Rightarrow> (str \<times> json) list" where
  "opt_field k v = (case v of Some j \<Rightarrow> [(k, j)] | None \<Rightarrow> [])"

definition string_map :: "(str \<times> str) list \<Rightarrow> json" where
  "string_map a = obj (map (\<lambda>(k, v). (k, JStr v)) a)"

definition verdict_json :: "verdict \<Rightarrow> json" where
  "verdict_json v = JStr (case v of Allow \<Rightarrow> ''allow'' | Deny \<Rightarrow> ''deny'')"

definition body_to_json :: "respond_body \<Rightarrow> json" where
  "body_to_json b =
     (let d = rb_decision b
      in obj ([(''requestId'', JStr (rb_request_id b)), (''decision'', verdict_json (dc_decision d))]
           @ opt_field ''suggestion'' (map_option (\<lambda>n. JNum (int n)) (dc_suggestion d))
           @ opt_field ''message'' (map_option JStr (dc_message d))
           @ opt_field ''answers'' (map_option string_map (dc_answers d))
           @ opt_field ''mode'' (map_option JStr (dc_mode d))
           @ (if dc_interrupt d then [(''interrupt'', JBool True)] else [])
           @ opt_field ''content'' (dc_content d)))"

text \<open>The strict reader (\<open>RespondWire\<close>, \<open>deny_unknown_fields\<close>). A field reader gives \<open>None\<close> on a value
  of the wrong shape; an optional field may be missing or \<open>null\<close>.\<close>

definition WIRE_FIELDS :: "str list" where
  "WIRE_FIELDS = [''requestId'', ''decision'', ''suggestion'', ''message'', ''answers'', ''mode'',
     ''interrupt'', ''content'']"

definition read_opt :: "(json \<Rightarrow> 'a option) \<Rightarrow> json option \<Rightarrow> 'a option option" where
  "read_opt f v = (case v of None \<Rightarrow> Some None | Some JNull \<Rightarrow> Some None | Some j \<Rightarrow> map_option Some (f j))"

fun read_usize :: "json \<Rightarrow> nat option" where
  "read_usize (JNum n) = (if 0 \<le> n \<and> n < 2 ^ 64 then Some (nat n) else None)"
| "read_usize _ = None"

fun read_strings :: "(str \<times> json) list \<Rightarrow> (str \<times> str) list option" where
  "read_strings [] = Some []"
| "read_strings ((k, JStr v) # m) = map_option ((#) (k, v)) (read_strings m)"
| "read_strings _ = None"

definition read_string_map :: "json \<Rightarrow> (str \<times> str) list option" where
  "read_string_map j = Option.bind (as_object j) read_strings"

definition read_verdict :: "json \<Rightarrow> verdict option" where
  "read_verdict j = (if j = JStr ''allow'' then Some Allow else if j = JStr ''deny'' then Some Deny else None)"

definition body_from_json :: "json \<Rightarrow> respond_body option" where
  "body_from_json j =
     Option.bind (as_object j) (\<lambda>m.
     if \<exists>k \<in> fst ` set m. k \<notin> set WIRE_FIELDS then None
     else Option.bind (Option.bind (map_of m ''requestId'') as_str) (\<lambda>rid.
     Option.bind (Option.bind (map_of m ''decision'') read_verdict) (\<lambda>v.
     Option.bind (read_opt read_usize (map_of m ''suggestion'')) (\<lambda>sug.
     Option.bind (read_opt as_str (map_of m ''message'')) (\<lambda>msg.
     Option.bind (read_opt read_string_map (map_of m ''answers'')) (\<lambda>ans.
     Option.bind (read_opt as_str (map_of m ''mode'')) (\<lambda>mode.
     Option.bind (case map_of m ''interrupt'' of None \<Rightarrow> Some False | Some b \<Rightarrow> as_bool b) (\<lambda>int.
     Option.bind (read_opt Some (map_of m ''content'')) (\<lambda>content.
     Some \<lparr>rb_request_id = rid, rb_decision =
       \<lparr>dc_decision = v, dc_suggestion = sug, dc_message = msg, dc_answers = ans, dc_mode = mode,
        dc_interrupt = int, dc_content = content\<rparr>\<rparr>)))))))))"

section \<open>Errors\<close>

datatype respond_error = NotFound | AlreadyDecided | NotAnswerable | Forbidden str | Invalid str

definition respond_into_api :: "respond_error \<Rightarrow> str \<Rightarrow> api_error" where
  "respond_into_api e request_id =
     api_with (case e of
         NotFound \<Rightarrow> api_not_found ''request_not_found'' (''No pending request '' @ request_id @ ''.'')
       | AlreadyDecided \<Rightarrow> api_conflict ''already_decided'' ''This request was already answered or withdrawn.''
       | NotAnswerable \<Rightarrow> api_conflict ''not_answerable''
           ''This prompt was seen in the transcript but cannot be answered from here.''
       | Forbidden m \<Rightarrow> api_dangerous_blocked m
       | Invalid m \<Rightarrow> api_unprocessable ''invalid_response'' m)
       ''requestId'' (JStr request_id)"

section \<open>What an answer may do\<close>

text \<open>\<open>is_blanket_rule\<close>\<close>

definition is_blanket_rule :: "json \<Rightarrow> bool" where
  "is_blanket_rule rule \<longleftrightarrow>
     (let tool = (case jget_str rule ''toolName'' of Some t \<Rightarrow> t | None \<Rightarrow> []);
          content = (case map_option trim (jget_str rule ''ruleContent'') of Some c \<Rightarrow> c | None \<Rightarrow> [])
      in if tool = [] \<or> tool = ''*'' then True
         else case strip_prefix tool ''mcp__'' of
           Some rest \<Rightarrow> let parts = split_str rest ''__''
                       in length parts < 2 \<or> parts ! 1 = [] \<or> parts ! 1 = ''*''
         | None \<Rightarrow> content \<in> set ['''', ''*'', '':*'', ''**'', ''* *''])"

definition is_standing :: "json \<Rightarrow> bool" where
  "is_standing raw \<longleftrightarrow>
     (if as_object raw = None then raw \<noteq> JNull
      else let kind = (case jget_str raw ''type'' of Some k \<Rightarrow> k | None \<Rightarrow> []);
               destination = (case jget_str raw ''destination'' of Some d \<Rightarrow> d | None \<Rightarrow> ''session'')
           in if destination \<noteq> ''session'' \<and> destination \<noteq> ''cliArg'' then True
              else if kind = ''setMode''
              then (case jget_str raw ''mode'' of Some m \<Rightarrow> m \<in> set UNGATED_MODES | None \<Rightarrow> False)
              else if kind = ''addDirectories'' then True
              else if kind \<in> set [''addRules'', ''replaceRules'']
              then (case jget_str raw ''behavior'' of None \<Rightarrow> True | Some b \<Rightarrow> b = ''allow'')
                   \<and> (case jget_array raw ''rules'' of
                        Some rules \<Rightarrow> \<exists>r \<in> set rules. is_blanket_rule r | None \<Rightarrow> False)
              else False)"

definition chosen :: "pending_item \<Rightarrow> decision \<Rightarrow> permission_suggestion option" where
  "chosen item d = Option.bind (dc_suggestion d) (\<lambda>i. find (\<lambda>s. ps_index s = i) (pi_suggestions item))"

definition is_dangerous :: "pending_item \<Rightarrow> decision \<Rightarrow> bool" where
  "is_dangerous item d \<longleftrightarrow>
     (if pi_dangerous item then True
      else if (case dc_mode d of Some m \<Rightarrow> m \<in> set UNGATED_MODES | None \<Rightarrow> False) then True
      else case chosen item d of Some s \<Rightarrow> ps_standing s \<or> is_standing (ps_raw s) | None \<Rightarrow> False)"

text \<open>\<open>validate\<close>: \<open>None\<close> when the answer fits the item.\<close>

definition validate :: "(str \<Rightarrow> str) \<Rightarrow> pending_item \<Rightarrow> decision \<Rightarrow> respond_error option" where
  "validate dbg item d =
     (let no_suggestion = (case dc_suggestion d of
             Some i \<Rightarrow> if \<not> (\<exists>s \<in> set (pi_suggestions item). ps_index s = i)
                       then Some (Invalid (''Suggestion '' @ show_nat i @ '' does not exist on this request.''))
                       else None
           | None \<Rightarrow> None);
          bad_mode = (case dc_mode d of
             Some m \<Rightarrow> if m \<notin> set RESPOND_MODES
                       then Some (Invalid (''Unknown mode '' @ dbg m @ ''; expected one of ''
                              @ join '', '' RESPOND_MODES @ ''.''))
                       else if pi_kind item \<noteq> Plan then Some (Invalid ''`mode` only applies to plan approvals.'')
                       else None
           | None \<Rightarrow> None);
          bad_answers = (if (case dc_answers d of Some a \<Rightarrow> a \<noteq> [] | None \<Rightarrow> False) \<and> pi_kind item \<noteq> AskQuestion
             then Some (Invalid ''`answers` only apply to questions.'') else None);
          bad_content = (case dc_content d of
             Some c \<Rightarrow> if c = JNull then None
                       else if pi_kind item \<noteq> Elicitation
                       then Some (Invalid ''`content` only applies to elicitation requests.'')
                       else if \<not> is_object c then Some (Invalid ''`content` must be an object.'')
                       else None
           | None \<Rightarrow> None)
      in or_else no_suggestion (or_else bad_mode (or_else bad_answers bad_content)))"

section \<open>How an item was resolved\<close>

definition outcome_for_reason :: "str \<Rightarrow> pending_outcome \<times> resolver_kind" where
  "outcome_for_reason reason =
     (let r = to_ascii_lowercase reason
      in if contains r ''timeout'' \<or> contains r ''timed out'' \<or> contains r ''expired'' then (OutExpired, ByTimeout)
         else if \<exists>k \<in> set [''cancel'', ''request ended'', ''exited'', ''stopped'', ''removed'',
                     ''no longer owned'', ''interrupt'']. contains r k
         then (OutCancelled, ByHost)
         else (OutWithdrawn, ByHost))"

definition resolver_suffix :: "resolved_by option \<Rightarrow> str" where
  "resolver_suffix by =
     (case by of
        Some b \<Rightarrow>
          (case (rb_kind b, rb_name b) of
             (ByDesktop, Some n) \<Rightarrow> '' by '' @ n
           | (ByDevice, Some n) \<Rightarrow> '' by '' @ n
           | (ByDevice, None) \<Rightarrow> '' from a paired device''
           | _ \<Rightarrow> [])
      | None \<Rightarrow> [])"

definition resolved :: "int \<Rightarrow> pending_item \<Rightarrow> pending_outcome \<Rightarrow> resolver_kind option \<Rightarrow> str option
    \<Rightarrow> str option \<Rightarrow> pending_resolved" where
  "resolved now item outcome kind name told =
     (let by = map_option (\<lambda>k. \<lparr>rb_kind = k, rb_name = name\<rparr>) kind;
          who = resolver_suffix by;
          with_note = (\<lambda>t. case told of Some n \<Rightarrow> if n \<noteq> [] then t @ '' ('' @ n @ '')'' else t | None \<Rightarrow> t);
          t = (case outcome of
                 OutAllowed \<Rightarrow> ''Allowed'' @ who
               | OutDenied \<Rightarrow> ''Denied'' @ who
               | OutAnswered \<Rightarrow> ''Answered'' @ who
               | OutExpired \<Rightarrow> ''Nobody answered in time''
               | OutCancelled \<Rightarrow> with_note ''Cancelled''
               | OutWithdrawn \<Rightarrow> with_note ''Answered elsewhere'')
      in \<lparr>pr_id = pi_id item, pr_session = pi_session_id item, pr_outcome = outcome, pr_by = by,
          pr_at = now, pr_text = Some t\<rparr>)"

text \<open>The separator \<open>" \<cdot> "\<close> with the middle dot as its two UTF-8 bytes.\<close>

definition dot_sep :: str where
  "dot_sep = '' '' @ map char_of [194, 183 :: nat] @ '' ''"

definition decision_outcome :: "pending_item \<Rightarrow> decision \<Rightarrow> pending_outcome" where
  "decision_outcome item d =
     (if \<not> is_allow d then OutDenied
      else if pi_kind item \<in> set [AskQuestion, Elicitation] then OutAnswered else OutAllowed)"

definition resolution_for_decision :: "int \<Rightarrow> pending_item \<Rightarrow> decision \<Rightarrow> client_context \<Rightarrow> str option
    \<Rightarrow> pending_resolved" where
  "resolution_for_decision now item d ctx name =
     (let (kind, name) = (case cc_principal ctx of
             Device _ _ \<Rightarrow> (ByDevice, name)
           | _ \<Rightarrow> (ByDesktop, Some (case name of Some n \<Rightarrow> n | None \<Rightarrow> ''Mac'')));
          r = resolved now item (decision_outcome item d) (Some kind) name None
      in if is_allow d
         then let more = (case chosen item d of Some s \<Rightarrow> dot_sep @ ps_label s | None \<Rightarrow> [])
                       @ (case dc_mode d of Some m \<Rightarrow> dot_sep @ ''switched to '' @ m | None \<Rightarrow> [])
              in r\<lparr>pr_text := map_option (\<lambda>t. t @ more) (pr_text r)\<rparr>
         else r)"

section \<open>The store\<close>

record slot =
  sl_item :: pending_item
  sl_tx :: "nat option"

record store =
  st_slots :: "(str, slot) hmap"
  st_finished :: "str list"
  st_finished_set :: "str set"
  st_resolutions :: "(str, pending_resolved) hmap"
  st_next_channel :: nat
  st_sent :: "(nat \<times> decision) list"

definition store_new :: store where
  "store_new = \<lparr>st_slots = [], st_finished = [], st_finished_set = {}, st_resolutions = [],
     st_next_channel = 0, st_sent = []\<rparr>"

definition forget_oldest :: "str \<Rightarrow> store \<Rightarrow> store" where
  "forget_oldest old st = st\<lparr>st_finished := tl (st_finished st),
     st_finished_set := st_finished_set st - {old}, st_resolutions := hm_del old (st_resolutions st)\<rparr>"

text \<open>\<open>while finished.len() > FINISHED_CAP { pop_front .. }\<close>: the oldest ones beyond the cap.\<close>

definition finish :: "str \<Rightarrow> store \<Rightarrow> store" where
  "finish i st =
     (if i \<in> st_finished_set st then st
      else let q = st_finished st @ [i];
               st = st\<lparr>st_finished := q, st_finished_set := insert i (st_finished_set st)\<rparr>
           in fold forget_oldest (take (length q - FINISHED_CAP) q) st)"

definition classify_dangerous :: "(path \<Rightarrow> path option) \<Rightarrow> str option \<Rightarrow> str option \<Rightarrow> pending_item
    \<Rightarrow> str option \<Rightarrow> str option" where
  "classify_dangerous canon home app_data item cwd =
     classify canon item (danger_env_current home app_data cwd)"

text \<open>\<open>dangerous = true; dangerous_reason.get_or_insert(why)\<close>\<close>

definition mark_dangerous :: "str \<Rightarrow> pending_item \<Rightarrow> pending_item" where
  "mark_dangerous why item = item\<lparr>pi_dangerous := True,
     pi_dangerous_reason := (case pi_dangerous_reason item of Some r \<Rightarrow> Some r | None \<Rightarrow> Some why)\<rparr>"

definition register_classified :: "(path \<Rightarrow> path option) \<Rightarrow> str option \<Rightarrow> str option \<Rightarrow> pending_item
    \<Rightarrow> pending_item" where
  "register_classified canon home app_data item =
     (if \<not> pi_dangerous item \<or> pi_dangerous_reason item = None
      then (case classify_dangerous canon home app_data item None of
              Some why \<Rightarrow> mark_dangerous why item | None \<Rightarrow> item)
      else item)"

text \<open>The item as \<open>register\<close> stores it: classified, under a fresh id when it has none or a taken one, with
  its time and whether it can be answered.\<close>

definition stored_item :: "(path \<Rightarrow> path option) \<Rightarrow> str option \<Rightarrow> str option \<Rightarrow> str \<Rightarrow> int \<Rightarrow> pending_item
    \<Rightarrow> store \<Rightarrow> pending_item" where
  "stored_item canon home app_data uuid now item st =
     (let item = register_classified canon home app_data item;
          item = (if pi_id item = [] \<or> hm_has (st_slots st) (pi_id item) \<or> pi_id item \<in> st_finished_set st
                  then item\<lparr>pi_id := uuid\<rparr> else item);
          item = (if pi_created_at item = 0 then item\<lparr>pi_created_at := now\<rparr> else item)
      in item\<lparr>pi_answerable := (pi_source item \<noteq> SrcObserved)\<rparr>)"

definition register :: "(path \<Rightarrow> path option) \<Rightarrow> str option \<Rightarrow> str option \<Rightarrow> str \<Rightarrow> int \<Rightarrow> pending_item
    \<Rightarrow> store \<Rightarrow> store \<times> str \<times> nat" where
  "register canon home app_data uuid now item st =
     (let item = stored_item canon home app_data uuid now item st;
          ch = st_next_channel st
      in (st\<lparr>st_slots := hm_put (pi_id item) \<lparr>sl_item = item, sl_tx = Some ch\<rparr> (st_slots st),
              st_next_channel := ch + 1\<rparr>, pi_id item, ch))"

definition FORBIDDEN_TEXT :: str where
  "FORBIDDEN_TEXT = ''Approving a dangerous action '' @ map char_of [226, 128, 148 :: nat]
     @ '' bypassPermissions, or an \"always allow\" that is written to settings or widens the filesystem ''
     @ map char_of [226, 128, 148 :: nat]
     @ '' is restricted to this computer or a device you granted dangerous actions.''"

text \<open>The end of \<open>resolve_detailed\<close>, once the answer is accepted: the slot is removed and finished, the
  decision is sent, and the outcome is remembered.\<close>

definition deliver_decision :: "(nat \<Rightarrow> bool) \<Rightarrow> int \<Rightarrow> str \<Rightarrow> decision \<Rightarrow> client_context \<Rightarrow> slot \<Rightarrow> store
    \<Rightarrow> store \<times> ((respond_error \<times> str option) + pending_item)" where
  "deliver_decision alive now i d ctx sl st =
     (let st = finish i (st\<lparr>st_slots := hm_del i (st_slots st)\<rparr>);
          resolution = resolution_for_decision now (sl_item sl) d ctx None;
          delivered = (case sl_tx sl of Some ch \<Rightarrow> alive ch | None \<Rightarrow> False)
      in if \<not> delivered
         then let (outcome, kind) = outcome_for_reason ''request ended''
              in (st\<lparr>st_resolutions := hm_put i (resolved now (sl_item sl) outcome (Some kind) None None)
                       (st_resolutions st)\<rparr>,
                  Inl (AlreadyDecided, Some (pi_session_id (sl_item sl))))
         else (st\<lparr>st_resolutions := hm_put i resolution (st_resolutions st),
                  st_sent := st_sent st @ [(the (sl_tx sl), d)]\<rparr>,
               Inr (sl_item sl)))"

definition resolve_detailed :: "(str \<Rightarrow> str) \<Rightarrow> (nat \<Rightarrow> bool) \<Rightarrow> int \<Rightarrow> str \<Rightarrow> decision \<Rightarrow> client_context \<Rightarrow> store
    \<Rightarrow> store \<times> client_context \<times> ((respond_error \<times> str option) + pending_item)" where
  "resolve_detailed dbg alive now i d ctx st =
     (case hm_get (st_slots st) i of
        None \<Rightarrow> (st, ctx, Inl (if i \<in> st_finished_set st then AlreadyDecided else NotFound, None))
      | Some sl \<Rightarrow>
          if \<not> pi_answerable (sl_item sl) then (st, ctx, Inl (NotAnswerable, None))
          else case validate dbg (sl_item sl) d of
            Some e \<Rightarrow> (st, ctx, Inl (e, None))
          | None \<Rightarrow>
              let dangerous = is_allow d \<and> is_dangerous (sl_item sl) d
              in if dangerous \<and> \<not> may_dangerous ctx then (st, ctx, Inl (Forbidden FORBIDDEN_TEXT, None))
                 else let ctx = (if dangerous then note_dangerous ''approve a dangerous action'' ctx else ctx);
                          (st, r) = deliver_decision alive now i d ctx sl st
                      in (st, ctx, r))"

definition resolve :: "(str \<Rightarrow> str) \<Rightarrow> (nat \<Rightarrow> bool) \<Rightarrow> int \<Rightarrow> str \<Rightarrow> decision \<Rightarrow> client_context \<Rightarrow> store
    \<Rightarrow> store \<times> client_context \<times> (respond_error + pending_item)" where
  "resolve dbg alive now i d ctx st =
     (let (st, ctx, r) = resolve_detailed dbg alive now i d ctx st
      in (st, ctx, case r of Inl (e, _) \<Rightarrow> Inl e | Inr item \<Rightarrow> Inr item))"

definition store_withdraw :: "int \<Rightarrow> str \<Rightarrow> str \<Rightarrow> store \<Rightarrow> store \<times> pending_item option" where
  "store_withdraw now i reason st =
     (case hm_get (st_slots st) i of
        None \<Rightarrow> (st, None)
      | Some sl \<Rightarrow>
          let st = finish i (st\<lparr>st_slots := hm_del i (st_slots st)\<rparr>);
              (outcome, kind) = outcome_for_reason reason
          in (st\<lparr>st_resolutions := hm_put i (resolved now (sl_item sl) outcome (Some kind) None (Some reason))
                   (st_resolutions st)\<rparr>, Some (sl_item sl)))"

definition resolution :: "str \<Rightarrow> store \<Rightarrow> pending_resolved option" where
  "resolution i st = hm_get (st_resolutions st) i"

definition set_resolution :: "pending_resolved \<Rightarrow> store \<Rightarrow> store" where
  "set_resolution r st =
     (if pr_id r \<in> st_finished_set st
      then st\<lparr>st_resolutions := hm_put (pr_id r) r (st_resolutions st)\<rparr> else st)"

fun withdraw_each :: "int \<Rightarrow> str \<Rightarrow> str list \<Rightarrow> store \<Rightarrow> store \<times> pending_item list" where
  "withdraw_each now reason [] st = (st, [])"
| "withdraw_each now reason (i # ids) st =
     (let (st, item) = store_withdraw now i reason st;
          (st, items) = withdraw_each now reason ids st
      in (st, (case item of Some x \<Rightarrow> x # items | None \<Rightarrow> items)))"

definition session_slots :: "str \<Rightarrow> store \<Rightarrow> slot list" where
  "session_slots session st = filter (\<lambda>s. pi_session_id (sl_item s) = session) (map snd (st_slots st))"

definition store_withdraw_session :: "int \<Rightarrow> str \<Rightarrow> str \<Rightarrow> store \<Rightarrow> store \<times> pending_item list" where
  "store_withdraw_session now session reason st =
     withdraw_each now reason (map (\<lambda>s. pi_id (sl_item s)) (session_slots session st)) st"

definition store_get :: "str \<Rightarrow> store \<Rightarrow> pending_item option" where
  "store_get i st = map_option sl_item (hm_get (st_slots st) i)"

definition is_finished :: "str \<Rightarrow> store \<Rightarrow> bool" where
  "is_finished i st \<longleftrightarrow> i \<in> st_finished_set st"

definition sort_items :: "pending_item list \<Rightarrow> pending_item list" where
  "sort_items items = sort_key (\<lambda>i. AgeKey (pi_created_at i) (pi_id i)) items"

definition store_list :: "str \<Rightarrow> store \<Rightarrow> pending_item list" where
  "store_list session st = sort_items (map sl_item (session_slots session st))"

definition store_all :: "store \<Rightarrow> pending_item list" where
  "store_all st = sort_items (map (\<lambda>(_, s). sl_item s) (st_slots st))"

definition find_by_tool_use :: "str \<Rightarrow> str \<Rightarrow> store \<Rightarrow> pending_item option" where
  "find_by_tool_use session tool_use st =
     map_option sl_item (find (\<lambda>s. pi_session_id (sl_item s) = session
        \<and> pi_tool_use_id (sl_item s) = Some tool_use) (map snd (st_slots st)))"

definition oldest_for :: "str \<Rightarrow> store \<Rightarrow> pending_item option" where
  "oldest_for session st = find pi_answerable (store_list session st)"

definition store_len :: "store \<Rightarrow> nat" where
  "store_len st = length (st_slots st)"

end
