(* ===== verification/PendingAnswers.thy ===== *)
theory PendingAnswers
  imports Pending
begin

text \<open>
  The second part of \<open>pending.rs\<close>: the suggestions offered with a prompt, the questions of an
  AskUserQuestion, and the result the CLI gets for a decision.
\<close>

section \<open>Suggestions\<close>

text \<open>The closure \<open>rules\<close>: the rules of an update as text.\<close>

definition rule_text :: "json \<Rightarrow> str option" where
  "rule_text r =
     map_option (\<lambda>tool. case jget_str r ''ruleContent'' of
                     Some c \<Rightarrow> if c \<noteq> [] then tool @ ''('' @ c @ '')'' else tool
                   | None \<Rightarrow> tool)
       (jget_str r ''toolName'')"

definition rules_text :: "json \<Rightarrow> str" where
  "rules_text raw =
     (case jget_array raw ''rules'' of
        Some rs \<Rightarrow> join '', '' (List.map_filter rule_text rs) | None \<Rightarrow> [])"

definition dirs_text :: "json \<Rightarrow> str" where
  "dirs_text raw =
     (case jget_array raw ''directories'' of
        Some ds \<Rightarrow> join '', '' (List.map_filter as_str ds) | None \<Rightarrow> [])"

definition suggestion_base :: "str \<Rightarrow> json \<Rightarrow> str" where
  "suggestion_base kind raw =
     (if kind \<in> set [''addRules'', ''replaceRules'']
      then (if jget_str raw ''behavior'' = Some ''deny'' then ''Always deny''
            else if jget_str raw ''behavior'' = Some ''ask'' then ''Always ask for''
            else ''Always allow'') @ '' '' @ rules_text raw
      else if kind = ''removeRules'' then ''Stop allowing '' @ rules_text raw
      else if kind = ''setMode''
      then ''Switch to '' @ (case jget_str raw ''mode'' of Some m \<Rightarrow> m | None \<Rightarrow> ''another'') @ '' mode''
      else if kind = ''addDirectories'' then ''Allow access to '' @ dirs_text raw
      else if kind = ''removeDirectories'' then ''Remove access to '' @ dirs_text raw
      else kind)"

definition suggestion_scope :: "str option \<Rightarrow> str" where
  "suggestion_scope destination =
     (if destination = Some ''session'' then '' in this session''
      else if destination = Some ''localSettings'' then '' in this project (just you)''
      else if destination = Some ''projectSettings'' then '' in this project (shared)''
      else if destination = Some ''userSettings'' then '' everywhere''
      else [])"

definition suggestion_from_raw :: "nat \<Rightarrow> json \<Rightarrow> permission_suggestion" where
  "suggestion_from_raw index raw =
     (let kind = (case jget_str raw ''type'' of Some k \<Rightarrow> k | None \<Rightarrow> ''unknown'');
          destination = jget_str raw ''destination''
      in \<lparr>ps_index = index, ps_label = trim (suggestion_base kind raw) @ suggestion_scope destination,
          ps_kind = kind, ps_destination = destination, ps_standing = is_standing raw, ps_raw = raw\<rparr>)"

definition session_copy :: "json \<Rightarrow> json option" where
  "session_copy raw =
     Option.bind (as_object raw) (\<lambda>m.
       if jget_str raw ''type'' \<noteq> Some ''addRules'' then None
       else Option.bind (jget_str raw ''destination'') (\<lambda>destination.
         if destination \<notin> set [''localSettings'', ''userSettings'', ''projectSettings''] then None
         else Some (JObj (obj_insert ''destination'' (JStr ''session'') m))))"

text \<open>The loop of \<open>suggestions_from_raw\<close>: \<open>raws\<close> is what was pushed so far.\<close>

fun push_raws :: "json list \<Rightarrow> json list \<Rightarrow> json list \<Rightarrow> json list" where
  "push_raws whole [] raws = raws"
| "push_raws whole (r # rs) raws =
     (let raws = (case session_copy r of
                    Some copy \<Rightarrow> if copy \<notin> set whole \<and> copy \<notin> set raws then raws @ [copy] else raws
                  | None \<Rightarrow> raws)
      in push_raws whole rs (raws @ [r]))"

definition suggestions_from_raw :: "json option \<Rightarrow> permission_suggestion list" where
  "suggestions_from_raw raw =
     (case Option.bind raw as_array of
        None \<Rightarrow> []
      | Some whole \<Rightarrow> map (\<lambda>(i, r). suggestion_from_raw i r) (List.enumerate 0 (push_raws whole whole [])))"

section \<open>Questions\<close>

definition option_from :: "json \<Rightarrow> question_option option" where
  "option_from v =
     (case v of
        JStr s \<Rightarrow> Some \<lparr>qo_label = s, qo_description = None\<rparr>
      | _ \<Rightarrow> map_option (\<lambda>l. \<lparr>qo_label = l, qo_description = jget_str v ''description''\<rparr>) (jget_str v ''label''))"

definition question_from :: "json \<Rightarrow> question option" where
  "question_from q =
     map_option (\<lambda>t. \<lparr>qu_question = t, qu_header = jget_str q ''header'',
         qu_options = (case jget_array q ''options'' of
                         Some opts \<Rightarrow> List.map_filter option_from opts | None \<Rightarrow> []),
         qu_multi_select = (case Option.bind (jget q ''multiSelect'') as_bool of Some b \<Rightarrow> b | None \<Rightarrow> False)\<rparr>)
       (jget_str q ''question'')"

definition questions_from_input :: "json \<Rightarrow> question list" where
  "questions_from_input input =
     List.map_filter question_from
       (case jget_array input ''questions'' of
          Some qs \<Rightarrow> qs
        | None \<Rightarrow> if jget input ''question'' \<noteq> None then [input] else [])"

section \<open>Results\<close>

definition elicitation_result :: "decision \<Rightarrow> json" where
  "elicitation_result d =
     (if is_allow d
      then obj [(''action'', JStr ''accept''),
                (''content'', case opt_filter is_object (dc_content d) of Some c \<Rightarrow> c | None \<Rightarrow> obj [])]
      else obj [(''action'', JStr ''decline'')])"

text \<open>\<open>updatedInput\<close>: the item's input, with the answers merged in when there are any.\<close>

definition updated_input :: "pending_item \<Rightarrow> decision \<Rightarrow> json option" where
  "updated_input item d =
     (case opt_filter (\<lambda>a. a \<noteq> []) (dc_answers d) of
        Some answers \<Rightarrow>
          let m = (case pi_input item of Some (JObj m) \<Rightarrow> m | _ \<Rightarrow> [])
          in Some (JObj (obj_insert ''answers'' (string_map answers) m))
      | None \<Rightarrow> pi_input item)"

definition set_mode_update :: "str \<Rightarrow> json" where
  "set_mode_update mode =
     obj [(''type'', JStr ''setMode''), (''mode'', JStr mode), (''destination'', JStr ''session'')]"

definition updated_permissions :: "pending_item \<Rightarrow> decision \<Rightarrow> json list" where
  "updated_permissions item d =
     (case chosen item d of Some s \<Rightarrow> [ps_raw s] | None \<Rightarrow> [])
     @ (case dc_mode d of Some m \<Rightarrow> [set_mode_update m] | None \<Rightarrow> [])"

definition permission_result :: "pending_item \<Rightarrow> decision \<Rightarrow> json" where
  "permission_result item d =
     (if pi_kind item = Elicitation then elicitation_result d
      else case dc_decision d of
        Allow \<Rightarrow>
          obj ([(''behavior'', JStr ''allow'')]
             @ opt_field ''updatedInput'' (updated_input item d)
             @ (if updated_permissions item d \<noteq> []
                then [(''updatedPermissions'', JArr (updated_permissions item d))] else []))
      | Deny \<Rightarrow>
          obj ([(''behavior'', JStr ''deny''),
                (''message'', JStr (case opt_filter (\<lambda>m. \<not> is_blank m) (dc_message d) of
                                     Some m \<Rightarrow> m | None \<Rightarrow> ''Denied from Mother Claude.''))]
             @ (if dc_interrupt d then [(''interrupt'', JBool True)] else [])))"

end
