(* ===== verification/PendingFlow.thy ===== *)
theory PendingFlow
  imports PendingAnswers
begin

text \<open>
  The asynchronous functions of \<open>pending.rs\<close> that keep the clients in step with the store. The
  application state is the store with what the code publishes, oldest first: the rows added to the
  sessions' timelines, the \<open>pendingResolved\<close> frames, the sessions whose list was published again
  (\<open>changed\<close>), and the items handed to the push trigger.
\<close>

record timeline_row =
  tr_session :: str
  tr_id :: str
  tr_ts :: int
  tr_text :: str

record app =
  ap_store :: store
  ap_timeline :: "timeline_row list"
  ap_frames :: "pending_resolved list"
  ap_changed :: "str list"
  ap_pushed :: "pending_item list"

definition app_new :: app where
  "app_new = \<lparr>ap_store = store_new, ap_timeline = [], ap_frames = [], ap_changed = [], ap_pushed = []\<rparr>"

definition publish_resolution :: "str \<Rightarrow> app \<Rightarrow> app" where
  "publish_resolution i a =
     (case resolution i (ap_store a) of
        None \<Rightarrow> a
      | Some r \<Rightarrow>
          let a = (case opt_filter (\<lambda>t. \<not> is_blank t) (pr_text r) of
                     Some t \<Rightarrow> a\<lparr>ap_timeline := ap_timeline a @
                        [\<lparr>tr_session = pr_session r, tr_id = ''decision:'' @ pr_id r, tr_ts = pr_at r, tr_text = t\<rparr>]\<rparr>
                   | None \<Rightarrow> a)
          in a\<lparr>ap_frames := ap_frames a @ [r]\<rparr>)"

definition changed :: "str \<Rightarrow> app \<Rightarrow> app" where
  "changed session a = a\<lparr>ap_changed := ap_changed a @ [session]\<rparr>"

record guard =
  gd_id :: str
  gd_session_id :: str
  gd_reason :: str

text \<open>\<open>PendingGuard::drop\<close>, inside the runtime (which is where raisers run: the list is published again by
  a task it spawns), and \<open>expire\<close>, which drops the guard with another reason.\<close>

definition guard_drop :: "int \<Rightarrow> guard \<Rightarrow> app \<Rightarrow> app" where
  "guard_drop now g a =
     (let (st, item) = store_withdraw now (gd_id g) (gd_reason g) (ap_store a);
          a = a\<lparr>ap_store := st\<rparr>
      in if item = None then a else changed (gd_session_id g) (publish_resolution (gd_id g) a))"

definition guard_expire :: "int \<Rightarrow> guard \<Rightarrow> app \<Rightarrow> app" where
  "guard_expire now g a = guard_drop now (g\<lparr>gd_reason := ''timeout''\<rparr>) a"

text \<open>The session's directory: of the session found by \<open>find_session\<close> unless it is empty, else what
  the control knows.\<close>

definition raise_cwd :: "str option \<Rightarrow> str option \<Rightarrow> str option" where
  "raise_cwd found control =
     (case found of Some c \<Rightarrow> if c \<noteq> [] then Some c else control | None \<Rightarrow> control)"

definition raise :: "(path \<Rightarrow> path option) \<Rightarrow> str option \<Rightarrow> str option \<Rightarrow> str option \<Rightarrow> str option \<Rightarrow> str \<Rightarrow> int
    \<Rightarrow> pending_item \<Rightarrow> app \<Rightarrow> app \<times> guard \<times> nat" where
  "raise canon home app_data found control uuid now item a =
     (let item = (case classify_dangerous canon home app_data item (raise_cwd found control) of
                    Some why \<Rightarrow> mark_dangerous why item | None \<Rightarrow> item);
          (st, i, ch) = register canon home app_data uuid now item (ap_store a);
          a = changed (pi_session_id item) (a\<lparr>ap_store := st\<rparr>);
          a = (case store_get i (ap_store a) of
                 Some x \<Rightarrow> a\<lparr>ap_pushed := ap_pushed a @ [x]\<rparr> | None \<Rightarrow> a)
      in (a, \<lparr>gd_id = i, gd_session_id = pi_session_id item, gd_reason = ''request ended''\<rparr>, ch))"

datatype wait_end = Decided decision | Closed | TimedOut

text \<open>What a receiver sees: a decision, the dropped sender, or neither within the timeout.\<close>

definition wait_end_of :: "bool \<Rightarrow> decision option \<Rightarrow> wait_end" where
  "wait_end_of in_time received =
     (if \<not> in_time then TimedOut else case received of Some d \<Rightarrow> Decided d | None \<Rightarrow> Closed)"

definition wait_decision :: "wait_end \<Rightarrow> decision option" where
  "wait_decision w = (case w of Decided d \<Rightarrow> Some d | Closed \<Rightarrow> None | TimedOut \<Rightarrow> None)"

definition withdraw :: "int \<Rightarrow> str \<Rightarrow> str \<Rightarrow> app \<Rightarrow> app \<times> pending_item option" where
  "withdraw now i reason a =
     (case store_withdraw now i reason (ap_store a) of
        (st, None) \<Rightarrow> (a\<lparr>ap_store := st\<rparr>, None)
      | (st, Some item) \<Rightarrow>
          (changed (pi_session_id item) (publish_resolution i (a\<lparr>ap_store := st\<rparr>)), Some item))"

definition withdraw_session :: "int \<Rightarrow> str \<Rightarrow> str \<Rightarrow> app \<Rightarrow> app \<times> pending_item list" where
  "withdraw_session now session reason a =
     (let (st, items) = store_withdraw_session now session reason (ap_store a);
          a = fold (\<lambda>item. publish_resolution (pi_id item)) items (a\<lparr>ap_store := st\<rparr>)
      in (if items \<noteq> [] then changed session a else a, items))"

text \<open>\<open>respond\<close> looks the item up, lets go of the store, and resolves it under a second lock: \<open>meanwhile\<close> is
  what other tasks do in between. The name of a device is \<open>device_name\<close> (\<open>None\<close>: no such device).\<close>

definition note_device_name :: "int \<Rightarrow> (str \<Rightarrow> str option) \<Rightarrow> pending_item \<Rightarrow> decision \<Rightarrow> client_context
    \<Rightarrow> store \<Rightarrow> store" where
  "note_device_name now device_name item d ctx st =
     (case context_device_id ctx of
        None \<Rightarrow> st
      | Some device \<Rightarrow>
          (case opt_filter (\<lambda>n. \<not> is_blank n) (device_name device) of
             None \<Rightarrow> st
           | Some n \<Rightarrow> set_resolution (resolution_for_decision now item d ctx (Some n)) st))"

definition respond :: "(str \<Rightarrow> str) \<Rightarrow> (nat \<Rightarrow> bool) \<Rightarrow> (str \<Rightarrow> str option) \<Rightarrow> (app \<Rightarrow> app) \<Rightarrow> int \<Rightarrow> str \<Rightarrow> str
    \<Rightarrow> decision \<Rightarrow> client_context \<Rightarrow> app \<Rightarrow> app \<times> client_context \<times> (respond_error + pending_item)" where
  "respond dbg alive device_name meanwhile now session request d ctx a =
     (if (case store_get request (ap_store a) of
            Some item \<Rightarrow> pi_session_id item \<noteq> session | None \<Rightarrow> False)
      then (a, ctx, Inl NotFound)
      else let a = meanwhile a in case resolve_detailed dbg alive now request d ctx (ap_store a) of
        (st, ctx, Inr item) \<Rightarrow>
          let st = note_device_name now device_name item d ctx st
          in (changed session (publish_resolution request (a\<lparr>ap_store := st\<rparr>)), ctx, Inr item)
      | (st, ctx, Inl (e, Some gone_from)) \<Rightarrow>
          (changed gone_from (publish_resolution request (a\<lparr>ap_store := st\<rparr>)), ctx, Inl e)
      | (st, ctx, Inl (e, None)) \<Rightarrow> (a\<lparr>ap_store := st\<rparr>, ctx, Inl e))"

end
