(* ===== verification/PendingProofs.thy ===== *)
theory PendingProofs
  imports PendingFlow
begin

text \<open>
  What the store of pending decisions promises: its invariant over every run, the gate in front of
  dangerous answers, ids that are never reused while they mean something, what the CLI is told, and
  the strict reading of an answer's body.
\<close>

section \<open>The finished ids\<close>

lemma forget_oldest_fields [simp]:
  "st_slots (forget_oldest i st) = st_slots st" "st_sent (forget_oldest i st) = st_sent st"
  "st_next_channel (forget_oldest i st) = st_next_channel st"
  by (simp_all add: forget_oldest_def)

lemma fold_forget_fields [simp]:
  "st_slots (fold forget_oldest ids st) = st_slots st" "st_sent (fold forget_oldest ids st) = st_sent st"
  "st_next_channel (fold forget_oldest ids st) = st_next_channel st"
  by (induction ids arbitrary: st) simp_all

lemma fold_forget_finished [simp]:
  "st_finished (fold forget_oldest ids st) = drop (length ids) (st_finished st)"
  "st_finished_set (fold forget_oldest ids st) = st_finished_set st - set ids"
  "st_resolutions (fold forget_oldest ids st) = fold hm_del ids (st_resolutions st)"
  by (induction ids arbitrary: st) (auto simp: forget_oldest_def drop_Suc)

lemma finish_fields [simp]:
  "st_slots (finish i st) = st_slots st" "st_sent (finish i st) = st_sent st"
  "st_next_channel (finish i st) = st_next_channel st"
  by (simp_all add: finish_def Let_def)

text \<open>The remembered ids: distinct, mirrored by the set, at most \<open>FINISHED_CAP\<close>, and the only ones with a
  resolution.\<close>

definition finished_inv :: "store \<Rightarrow> bool" where
  "finished_inv st \<longleftrightarrow> distinct (st_finished st) \<and> set (st_finished st) = st_finished_set st
     \<and> length (st_finished st) \<le> FINISHED_CAP
     \<and> hm_wf (st_resolutions st) \<and> fst ` set (st_resolutions st) \<subseteq> st_finished_set st"

lemma finish_known: "i \<in> st_finished_set st \<Longrightarrow> finish i st = st"
  by (simp add: finish_def)

lemma finish_new:
  assumes "finished_inv st" "i \<notin> st_finished_set st"
  shows "st_finished (finish i st) = drop (length (st_finished st) + 1 - FINISHED_CAP) (st_finished st) @ [i]"
    "st_finished_set (finish i st) = set (st_finished (finish i st))"
    "st_resolutions (finish i st)
       = fold hm_del (take (length (st_finished st) + 1 - FINISHED_CAP) (st_finished st)) (st_resolutions st)"
proof -
  let ?n = "length (st_finished st) + 1 - FINISHED_CAP"
  have n: "?n \<le> 1" "?n \<le> length (st_finished st)"
    using assms(1) by (auto simp: finished_inv_def FINISHED_CAP_def)
  show f: "st_finished (finish i st) = drop ?n (st_finished st) @ [i]"
    using assms(2) n by (simp add: finish_def Let_def)
  have "set (take ?n (st_finished st)) \<inter> set (drop ?n (st_finished st)) = {}"
    using assms(1) by (simp add: finished_inv_def set_take_disj_set_drop_if_distinct)
  moreover have "set (st_finished st) = set (take ?n (st_finished st)) \<union> set (drop ?n (st_finished st))"
    by (metis append_take_drop_id set_append)
  moreover have "set (st_finished st) = st_finished_set st" using assms(1) by (simp add: finished_inv_def)
  moreover have "st_finished_set (finish i st) = insert i (st_finished_set st) - set (take ?n (st_finished st))"
    using assms(2) n by (simp add: finish_def Let_def)
  moreover have "i \<notin> set (take ?n (st_finished st))" using assms calculation(3) in_set_takeD by fastforce
  ultimately show "st_finished_set (finish i st) = set (st_finished (finish i st))" unfolding f by auto
  show "st_resolutions (finish i st) = fold hm_del (take ?n (st_finished st)) (st_resolutions st)"
    using assms(2) n by (simp add: finish_def Let_def)
qed

lemma finish_inv:
  assumes "finished_inv st"
  shows "finished_inv (finish i st)" "i \<in> st_finished_set (finish i st)"
proof -
  have "finished_inv (finish i st) \<and> i \<in> st_finished_set (finish i st)"
  proof (cases "i \<in> st_finished_set st")
    case True
    then show ?thesis using assms by (simp add: finish_known)
  next
    case False
    let ?n = "length (st_finished st) + 1 - FINISHED_CAP"
    note f = finish_new [OF assms False]
    have d: "distinct (st_finished st)" "set (st_finished st) = st_finished_set st"
      "length (st_finished st) \<le> FINISHED_CAP" "hm_wf (st_resolutions st)"
      "fst ` set (st_resolutions st) \<subseteq> st_finished_set st"
      using assms by (simp_all add: finished_inv_def)
    have "distinct (drop ?n (st_finished st) @ [i])"
      using d(1,2) False by (auto dest: in_set_dropD)
    moreover have "length (drop ?n (st_finished st) @ [i]) \<le> FINISHED_CAP"
      using d(3) by (simp add: FINISHED_CAP_def)
    moreover have "set (st_finished st) = set (take ?n (st_finished st)) \<union> set (drop ?n (st_finished st))"
      by (metis append_take_drop_id set_append)
    then have "fst ` set (st_resolutions st) - set (take ?n (st_finished st)) \<subseteq> set (drop ?n (st_finished st))"
      using d(2,5) by blast
    ultimately show ?thesis
      using f hm.wf_fold_del [OF d(4)] by (auto simp: finished_inv_def keys_fold_hm_del)
  qed
  then show "finished_inv (finish i st)" "i \<in> st_finished_set (finish i st)" by blast+
qed

section \<open>The invariant of the store\<close>

text \<open>Every live item has a channel of its own, on which nothing was sent yet; no channel was ever sent
  two decisions.\<close>

definition slot_ok :: "store \<Rightarrow> str \<times> slot \<Rightarrow> bool" where
  "slot_ok st e \<longleftrightarrow> (case e of (i, sl) \<Rightarrow>
     pi_id (sl_item sl) = i \<and> (pi_answerable (sl_item sl) \<longleftrightarrow> pi_source (sl_item sl) \<noteq> SrcObserved)
     \<and> (\<exists>ch < st_next_channel st. sl_tx sl = Some ch \<and> ch \<notin> fst ` set (st_sent st)))"

definition store_inv :: "store \<Rightarrow> bool" where
  "store_inv st \<longleftrightarrow> finished_inv st \<and> hm_wf (st_slots st) \<and> (\<forall>e \<in> set (st_slots st). slot_ok st e)
     \<and> distinct (map (\<lambda>(_, sl). sl_tx sl) (st_slots st))
     \<and> distinct (map fst (st_sent st)) \<and> (\<forall>(ch, _) \<in> set (st_sent st). ch < st_next_channel st)"

lemma store_inv_new: "store_inv store_new"
  by (simp add: store_inv_def store_new_def finished_inv_def)

lemma store_inv_slot:
  assumes "store_inv st" "hm_get (st_slots st) i = Some sl"
  shows "slot_ok st (i, sl)" "(i, sl) \<in> set (st_slots st)"
  using assms map_of_SomeD by (fastforce simp: store_inv_def)+

text \<open>Removing a slot and finishing its id.\<close>

lemma remove_inv:
  fixes i
  assumes "store_inv st"
  defines "st1 \<equiv> finish i (st\<lparr>st_slots := hm_del i (st_slots st)\<rparr>)"
  shows "store_inv st1" "i \<in> st_finished_set st1" "st_slots st1 = hm_del i (st_slots st)"
    "st_sent st1 = st_sent st" "st_next_channel st1 = st_next_channel st"
proof -
  have f: "finished_inv (st\<lparr>st_slots := hm_del i (st_slots st)\<rparr>)"
    using assms(1) by (simp add: store_inv_def finished_inv_def)
  show "st_slots st1 = hm_del i (st_slots st)" "st_sent st1 = st_sent st"
    "st_next_channel st1 = st_next_channel st" by (simp_all add: st1_def)
  then show "store_inv st1"
    using assms(1) finish_inv(1) [OF f, of i] unfolding store_inv_def
    by (auto simp: st1_def slot_ok_def distinct_hm_del distinct_map_hm_del set_hm_del)
  show "i \<in> st_finished_set st1" using finish_inv(2) [OF f] by (simp add: st1_def)
qed

lemma put_resolution_inv:
  assumes "store_inv st" "i \<in> st_finished_set st"
  shows "store_inv (st\<lparr>st_resolutions := hm_put i r (st_resolutions st)\<rparr>)"
  using assms by (auto simp: store_inv_def finished_inv_def slot_ok_def keys_hm_put hm_wf_put)

lemma withdraw_inv: "store_inv st \<Longrightarrow> store_withdraw now i reason st = (st', x) \<Longrightarrow> store_inv st'"
  by (auto simp: store_withdraw_def Let_def intro!: put_resolution_inv remove_inv split: option.splits prod.splits)

lemma withdraw_each_inv: "store_inv st \<Longrightarrow> withdraw_each now reason ids st = (st', x) \<Longrightarrow> store_inv st'"
proof (induction ids arbitrary: st st' x)
  case (Cons i ids)
  obtain st1 y where 1: "store_withdraw now i reason st = (st1, y)" by fastforce
  obtain z where "withdraw_each now reason ids st1 = (st', z)"
    using Cons.prems(2) 1 by (auto split: prod.splits)
  with Cons.IH withdraw_inv [OF Cons.prems(1) 1] show ?case by blast
qed simp

lemma set_resolution_inv: "store_inv st \<Longrightarrow> store_inv (set_resolution r st)"
  by (simp add: set_resolution_def put_resolution_inv)

text \<open>The slot that is removed takes its channel with it.\<close>

lemma removed_channel:
  assumes "store_inv st" "hm_get (st_slots st) i = Some sl" "e \<in> set (hm_del i (st_slots st))"
  shows "sl_tx (snd e) \<noteq> sl_tx sl"
proof
  assume eq: "sl_tx (snd e) = sl_tx sl"
  have "e \<in> set (st_slots st)" "fst e \<noteq> i" using assms(3) by (auto simp: set_hm_del)
  moreover have "(i, sl) \<in> set (st_slots st)" using store_inv_slot(2) [OF assms(1,2)] .
  moreover have "inj_on (\<lambda>(_, sl). sl_tx sl) (set (st_slots st))"
    using assms(1) by (simp add: store_inv_def distinct_map)
  ultimately have "e = (i, sl)" using eq by (intro inj_onD [of "\<lambda>(_, sl). sl_tx sl"]) (simp_all add: split_def)
  with \<open>fst e \<noteq> i\<close> show False by simp
qed

lemma deliver_inv:
  assumes "store_inv st" "hm_get (st_slots st) i = Some sl" "deliver_decision alive now i d ctx sl st = (st', r)"
  shows "store_inv st'"
proof -
  define st1 where "st1 = finish i (st\<lparr>st_slots := hm_del i (st_slots st)\<rparr>)"
  note rm = remove_inv [OF assms(1), where i = i, folded st1_def]
  obtain ch where ch: "sl_tx sl = Some ch" "ch < st_next_channel st" "ch \<notin> fst ` set (st_sent st)"
    using store_inv_slot(1) [OF assms(1,2)] by (auto simp: slot_ok_def)
  show ?thesis
  proof (cases "alive ch")
    case False
    then show ?thesis using assms(3) rm put_resolution_inv [OF rm(1,2)]
      by (auto simp: deliver_decision_def Let_def st1_def [symmetric] ch split: prod.splits)
  next
    case True
    let ?st2 = "st1\<lparr>st_resolutions := hm_put i (resolution_for_decision now (sl_item sl) d ctx None) (st_resolutions st1)\<rparr>"
    have st': "st' = ?st2\<lparr>st_sent := st_sent st1 @ [(ch, d)]\<rparr>"
      using assms(3) True by (auto simp: deliver_decision_def Let_def st1_def [symmetric] ch)
    have i2: "store_inv ?st2" by (rule put_resolution_inv [OF rm(1,2)])
    have "slot_ok st' e" if "e \<in> set (st_slots st1)" for e
    proof -
      have "slot_ok ?st2 e" using i2 that by (simp add: store_inv_def)
      moreover have "sl_tx (snd e) \<noteq> Some ch" using removed_channel [OF assms(1,2)] that ch(1) rm(3) by auto
      ultimately show ?thesis by (auto simp: st' slot_ok_def)
    qed
    then show ?thesis using i2 ch(2,3) rm(4,5)
      by (auto simp: store_inv_def st' finished_inv_def)
  qed
qed

lemma resolve_inv:
  "store_inv st \<Longrightarrow> resolve_detailed dbg alive now i d ctx st = (st', ctx', r) \<Longrightarrow> store_inv st'"
  by (auto simp: resolve_detailed_def Let_def split: option.splits if_splits prod.splits intro: deliver_inv)

lemma register_classified_fields [simp]:
  "pi_id (register_classified canon home app_data item) = pi_id item"
  "pi_created_at (register_classified canon home app_data item) = pi_created_at item"
  "pi_source (register_classified canon home app_data item) = pi_source item"
  "pi_session_id (register_classified canon home app_data item) = pi_session_id item"
  "pi_suggestions (register_classified canon home app_data item) = pi_suggestions item"
  "pi_kind (register_classified canon home app_data item) = pi_kind item"
  by (auto simp: register_classified_def mark_dangerous_def split: option.splits)

lemma stored_item_fields [simp]:
  "pi_id (stored_item canon home app_data uuid now item st)
     = (if pi_id item = [] \<or> hm_has (st_slots st) (pi_id item) \<or> pi_id item \<in> st_finished_set st
        then uuid else pi_id item)"
  "pi_answerable (stored_item canon home app_data uuid now item st) \<longleftrightarrow> pi_source item \<noteq> SrcObserved"
  "pi_source (stored_item canon home app_data uuid now item st) = pi_source item"
  "pi_session_id (stored_item canon home app_data uuid now item st) = pi_session_id item"
  "pi_suggestions (stored_item canon home app_data uuid now item st) = pi_suggestions item"
  "pi_kind (stored_item canon home app_data uuid now item st) = pi_kind item"
  "pi_dangerous (stored_item canon home app_data uuid now item st)
     \<longleftrightarrow> pi_dangerous (register_classified canon home app_data item)"
  by (simp_all add: stored_item_def Let_def)

lemma distinct_map_hm_put:
  assumes "distinct (map (\<lambda>(_, x). f x) m)" "\<forall>e \<in> set m. f (snd e) \<noteq> f v"
  shows "distinct (map (\<lambda>(_, x). f x) (hm_put k v m))"
  using assms
proof (induction m)
  case (Cons e m)
  then show ?case using set_hm_put [of k v m] by (cases e) fastforce
qed simp

lemma register_inv:
  assumes "store_inv st" "register canon home app_data uuid now item st = (st', i, ch)"
  shows "store_inv st'"
proof -
  define x where "x = stored_item canon home app_data uuid now item st"
  define sl where "sl = \<lparr>sl_item = x, sl_tx = Some (st_next_channel st)\<rparr>"
  have st': "st' = st\<lparr>st_slots := hm_put (pi_id x) sl (st_slots st), st_next_channel := st_next_channel st + 1\<rparr>"
    using assms(2) unfolding register_def Let_def x_def [symmetric] sl_def by auto
  have old: "e \<in> set (st_slots st) \<Longrightarrow> slot_ok st e" for e using assms(1) by (simp add: store_inv_def)
  have mem: "e = (pi_id x, sl) \<or> e \<in> set (st_slots st)" if "e \<in> set (hm_put (pi_id x) sl (st_slots st))" for e
    using that set_hm_put by fastforce
  have xa: "pi_answerable x \<longleftrightarrow> pi_source x \<noteq> SrcObserved" by (simp add: x_def)
  have ns: "st_next_channel st \<notin> fst ` set (st_sent st)" using assms(1) by (fastforce simp: store_inv_def)
  have ok: "slot_ok st' e" if "e \<in> set (st_slots st')" for e
  proof (cases "e = (pi_id x, sl)")
    case True
    then show ?thesis using xa ns by (simp add: slot_ok_def st' sl_def)
  next
    case False
    then have "slot_ok st e" using mem [of e] that old [of e] by (simp add: st')
    then show ?thesis by (auto simp: slot_ok_def st' less_Suc_eq)
  qed
  have tx: "distinct (map (\<lambda>(_, sl). sl_tx sl) (st_slots st'))"
  proof -
    have "sl_tx (snd e) \<noteq> Some (st_next_channel st)" if "e \<in> set (st_slots st)" for e
      using old [OF that] by (auto simp: slot_ok_def)
    moreover have "distinct (map (\<lambda>(_, sl). sl_tx sl) (st_slots st))" using assms(1) by (simp add: store_inv_def)
    ultimately have "distinct (map (\<lambda>(_, sl). sl_tx sl) (hm_put (pi_id x) sl (st_slots st)))"
      by (intro distinct_map_hm_put) (auto simp: sl_def)
    then show ?thesis by (simp add: st')
  qed
  show ?thesis using assms(1) ok tx
    by (auto simp: store_inv_def st' finished_inv_def hm_wf_put less_Suc_eq)
qed

section \<open>Runs\<close>

datatype store_op = StRegister str int pending_item
  | StResolve "nat \<Rightarrow> bool" int str decision client_context
  | StWithdraw int str str | StWithdrawSession int str str | StSetResolution pending_resolved

definition store_step :: "(path \<Rightarrow> path option) \<Rightarrow> str option \<Rightarrow> str option \<Rightarrow> (str \<Rightarrow> str) \<Rightarrow> store \<Rightarrow> store_op
    \<Rightarrow> store" where
  "store_step canon home app_data dbg st op =
     (case op of
        StRegister uuid now item \<Rightarrow> fst (register canon home app_data uuid now item st)
      | StResolve alive now i d ctx \<Rightarrow> fst (resolve dbg alive now i d ctx st)
      | StWithdraw now i reason \<Rightarrow> fst (store_withdraw now i reason st)
      | StWithdrawSession now session reason \<Rightarrow> fst (store_withdraw_session now session reason st)
      | StSetResolution r \<Rightarrow> set_resolution r st)"

interpretation pending_machine: invariant_machine "store_step canon home app_data dbg" store_inv
  for canon home app_data dbg
proof
  fix st op
  assume inv: "store_inv st"
  show "store_inv (store_step canon home app_data dbg st op)"
  proof (cases op)
    case (StRegister uuid now item)
    obtain st' i ch where "register canon home app_data uuid now item st = (st', i, ch)" by (metis prod_cases3)
    with StRegister register_inv [OF inv this] show ?thesis by (simp add: store_step_def)
  next
    case (StResolve alive now i d ctx)
    then show ?thesis
      by (auto simp: store_step_def resolve_def split: prod.splits intro: resolve_inv [OF inv])
  next
    case (StWithdraw now i reason)
    then show ?thesis by (auto simp: store_step_def intro: withdraw_inv [OF inv prod.collapse [symmetric]])
  next
    case (StWithdrawSession now session reason)
    then show ?thesis
      by (auto simp: store_step_def store_withdraw_session_def intro: withdraw_each_inv [OF inv prod.collapse [symmetric]])
  next
    case (StSetResolution r)
    then show ?thesis using inv by (simp add: store_step_def set_resolution_inv)
  qed
qed

section \<open>The gate\<close>

text \<open>What \<open>resolve_detailed\<close> does once an answer is accepted.\<close>

lemma resolve_detailed_Inr:
  assumes "resolve_detailed dbg alive now i d ctx st = (st', ctx', Inr item)"
  obtains sl ch where "hm_get (st_slots st) i = Some sl" "item = sl_item sl" "sl_tx sl = Some ch" "alive ch"
    "pi_answerable item" "validate dbg item d = None" "is_allow d \<and> is_dangerous item d \<longrightarrow> may_dangerous ctx"
    "ctx' = (if is_allow d \<and> is_dangerous item d then note_dangerous ''approve a dangerous action'' ctx else ctx)"
    "st_slots st' = hm_del i (st_slots st)" "st_sent st' = st_sent st @ [(ch, d)]"
    "hm_get (st_resolutions st') i = Some (resolution_for_decision now item d ctx None)"
proof -
  obtain sl where sl: "hm_get (st_slots st) i = Some sl"
    using assms by (auto simp: resolve_detailed_def split: option.splits)
  have a: "pi_answerable (sl_item sl)" "validate dbg (sl_item sl) d = None"
    "is_allow d \<and> is_dangerous (sl_item sl) d \<longrightarrow> may_dangerous ctx"
    using assms sl by (auto simp: resolve_detailed_def Let_def split: option.splits if_splits)
  define c where "c = (if is_allow d \<and> is_dangerous (sl_item sl) d
      then note_dangerous ''approve a dangerous action'' ctx else ctx)"
  have dl: "deliver_decision alive now i d c sl st = (st', Inr item)" and c: "ctx' = c"
    using assms sl a by (auto simp: resolve_detailed_def Let_def c_def split: prod.splits if_splits)
  have pr: "cc_principal c = cc_principal ctx" by (simp add: c_def note_dangerous_def)
  have rs: "resolution_for_decision now (sl_item sl) d c None = resolution_for_decision now (sl_item sl) d ctx None"
    by (simp add: resolution_for_decision_def pr)
  obtain ch where ch: "sl_tx sl = Some ch" "alive ch"
    using dl by (auto simp: deliver_decision_def Let_def split: option.splits if_splits prod.splits)
  have it: "item = sl_item sl" and st': "st_slots st' = hm_del i (st_slots st)" "st_sent st' = st_sent st @ [(ch, d)]"
    "hm_get (st_resolutions st') i = Some (resolution_for_decision now (sl_item sl) d c None)"
    using dl ch by (auto simp: deliver_decision_def Let_def update_conv')
  show thesis
    by (rule that [OF sl it ch _ _ _ _ st'(1,2)]) (use a it c rs st'(3) in \<open>simp_all add: c_def\<close>)
qed

lemma resolve_detailed_Inl:
  assumes "resolve_detailed dbg alive now i d ctx st = (st', ctx', Inl (e, gone))"
  shows "st_sent st' = st_sent st \<and> (gone = None \<longrightarrow> st' = st \<and> ctx' = ctx)
    \<and> (gone \<noteq> None \<longrightarrow> e = AlreadyDecided \<and> st_slots st' = hm_del i (st_slots st))"
proof (cases "hm_get (st_slots st) i")
  case None
  then show ?thesis using assms by (auto simp: resolve_detailed_def)
next
  case (Some sl)
  have d: "st_sent st' = st_sent st \<and> gone \<noteq> None \<and> e = AlreadyDecided \<and> st_slots st' = hm_del i (st_slots st)"
    if "deliver_decision alive now i d c sl st = (st', Inl (e, gone))" for c
    using that by (auto simp: deliver_decision_def Let_def split: if_splits prod.splits)
  show ?thesis using assms Some d
    by (auto simp: resolve_detailed_def Let_def split: option.splits if_splits prod.splits)
qed

lemma published_store [simp]:
  "ap_store (changed session x) = ap_store x" "ap_store (publish_resolution i x) = ap_store x"
  by (simp_all add: changed_def publish_resolution_def Let_def split: option.split)

lemma note_device_name_fields [simp]:
  "st_slots (note_device_name now device_name x d c st) = st_slots st"
  "st_sent (note_device_name now device_name x d c st) = st_sent st"
  by (simp_all add: note_device_name_def set_resolution_def split: option.split)


text \<open>The store of the witnesses below: one item, waiting on channel 0.\<close>

definition example_item :: pending_item where
  "example_item = pending_item_default\<lparr>pi_id := ''r'', pi_session_id := ''s'', pi_answerable := True,
     pi_created_at := 7\<rparr>"

definition example_store :: store where
  "example_store = store_new\<lparr>st_slots := [(''r'', \<lparr>sl_item = example_item, sl_tx = Some 0\<rparr>)], st_next_channel := 1\<rparr>"

definition example_app :: app where
  "example_app = app_new\<lparr>ap_store := example_store\<rparr>"

lemma example_store_inv: "store_inv example_store"
  by (simp add: example_store_def example_item_def store_inv_def store_new_def finished_inv_def slot_ok_def
      pending_item_default_def)


text \<open>C24: An item is decided at most once. Over any run of the store, on no channel two decisions are sent
  and every live item still has a channel of its own with nothing on it; the memory of finished ids
  keeps its cap and is the only place where resolutions are kept.\<close>

theorem decided_at_most_once:
  fixes canon home app_data dbg ops
  defines "st \<equiv> foldl (store_step canon home app_data dbg) store_new ops"
  shows "distinct (map fst (st_sent st))
    \<and> (\<forall>(i, sl) \<in> set (st_slots st). pi_id (sl_item sl) = i
        \<and> (\<exists>ch. sl_tx sl = Some ch \<and> ch \<notin> fst ` set (st_sent st)))
    \<and> distinct (map (\<lambda>(_, sl). sl_tx sl) (st_slots st)) \<and> hm_wf (st_slots st)
    \<and> length (st_finished st) \<le> FINISHED_CAP \<and> set (st_finished st) = st_finished_set st
    \<and> fst ` set (st_resolutions st) \<subseteq> st_finished_set st"
proof -
  have "store_inv st" unfolding st_def by (rule pending_machine.run_inv [OF store_inv_new])
  then have i: "finished_inv st" "hm_wf (st_slots st)" "\<forall>e \<in> set (st_slots st). slot_ok st e"
    "distinct (map (\<lambda>(_, sl). sl_tx sl) (st_slots st))" "distinct (map fst (st_sent st))"
    unfolding store_inv_def by blast+
  have "\<forall>(i, sl) \<in> set (st_slots st). pi_id (sl_item sl) = i
      \<and> (\<exists>ch. sl_tx sl = Some ch \<and> ch \<notin> fst ` set (st_sent st))"
    using i(3) unfolding slot_ok_def by fast
  then show ?thesis using i(1,2,4,5) unfolding finished_inv_def by blast
qed

theorem decided_at_most_once_witness:
  "let st = store_step (\<lambda>_. None) None None id store_new (StRegister ''u'' 5 pending_item_default)
   in length (st_slots st) = 1 \<and> (\<forall>(i, sl) \<in> set (st_slots st). pi_id (sl_item sl) = i)"
proof -
  let ?st = "store_step (\<lambda>_. None) None None id store_new (StRegister ''u'' 5 pending_item_default)"
  have "length (st_slots ?st) = 1"
    by (simp add: store_step_def register_def Let_def store_new_def)
  moreover have "\<forall>(i, sl) \<in> set (st_slots ?st). pi_id (sl_item sl) = i"
    using decided_at_most_once [of "\<lambda>_. None" None None id "[StRegister ''u'' 5 pending_item_default]"] by auto
  ultimately show ?thesis by (simp add: Let_def)
qed



section \<open>Registering\<close>

lemma stored_item_dangerous:
  "pi_dangerous (register_classified canon home app_data item)
     \<longleftrightarrow> pi_dangerous item \<or> classify_dangerous canon home app_data item None \<noteq> None"
  by (auto simp: register_classified_def mark_dangerous_def split: option.split)

text \<open>C25: A raiser can never take over somebody else's prompt: the id a new item gets belongs to no live and
  to no remembered item, every other item stays as it is, and the new one is listed for its session,
  dangerous if it was flagged so or the classifier says so, on a channel nothing was sent on.\<close>

theorem register_never_replaces:
  assumes "store_inv st" and "register canon home app_data uuid now item st = (st', i, ch)"
    and "\<not> hm_has (st_slots st) uuid" and "uuid \<notin> st_finished_set st" and "uuid \<noteq> []"
  shows "i \<noteq> [] \<and> \<not> hm_has (st_slots st) i \<and> i \<notin> st_finished_set st
    \<and> (\<forall>j. j \<noteq> i \<longrightarrow> hm_get (st_slots st') j = hm_get (st_slots st) j)
    \<and> (\<exists>x. store_get i st' = Some x \<and> pi_id x = i \<and> x \<in> set (store_list (pi_session_id item) st')
        \<and> (pi_answerable x \<longleftrightarrow> pi_source item \<noteq> SrcObserved)
        \<and> (pi_dangerous x \<longleftrightarrow> pi_dangerous item \<or> classify_dangerous canon home app_data item None \<noteq> None))
    \<and> ch \<notin> fst ` set (st_sent st)"
proof -
  define x where "x = stored_item canon home app_data uuid now item st"
  have st': "st' = st\<lparr>st_slots := hm_put (pi_id x) \<lparr>sl_item = x, sl_tx = Some (st_next_channel st)\<rparr> (st_slots st),
      st_next_channel := st_next_channel st + 1\<rparr>" and i: "i = pi_id x" and ch: "ch = st_next_channel st"
    using assms(2) unfolding register_def Let_def x_def [symmetric] by auto
  have id: "i \<noteq> []" "\<not> hm_has (st_slots st) i" "i \<notin> st_finished_set st"
    using assms(3-5) by (auto simp: i x_def)
  have g: "hm_get (st_slots st') j = (if j = i then Some \<lparr>sl_item = x, sl_tx = Some ch\<rparr> else hm_get (st_slots st) j)" for j
    by (simp add: st' i ch hm.get_put)
  then have "(i, \<lparr>sl_item = x, sl_tx = Some ch\<rparr>) \<in> set (st_slots st')" using map_of_SomeD [of "st_slots st'" i] by simp
  moreover have "pi_session_id x = pi_session_id item" by (simp add: x_def)
  ultimately have l: "x \<in> set (store_list (pi_session_id item) st')"
    by (force simp: store_list_def sort_items_def session_slots_def)
  have dg: "pi_dangerous x \<longleftrightarrow> pi_dangerous item \<or> classify_dangerous canon home app_data item None \<noteq> None"
    by (simp add: x_def stored_item_dangerous)
  have "ch \<notin> fst ` set (st_sent st)" using assms(1) by (fastforce simp: ch store_inv_def)
  then show ?thesis using id g l dg i by (simp add: store_get_def x_def)
qed

theorem register_never_replaces_witness:
  "fst (snd (register (\<lambda>_. None) None None ''u'' 9 example_item example_store)) \<noteq> ''r''"
proof -
  obtain st' i ch where e: "register (\<lambda>_. None) None None ''u'' 9 example_item example_store = (st', i, ch)"
    by (metis prod_cases3)
  have "\<not> hm_has (st_slots example_store) ''u''" "''u'' \<notin> st_finished_set example_store"
    by (simp_all add: example_store_def store_new_def)
  from register_never_replaces [OF example_store_inv e this] e show ?thesis by (auto simp: example_store_def)
qed

text \<open>C6: What the server classified as dangerous cannot be approved without the right to, whichever channel
  raised it and whatever it was flagged as: from \<open>raise\<close> to \<open>respond\<close>, with other tasks in between that
  leave the item alone, an allowing answer of a caller without the right changes nothing and delivers
  nothing.\<close>

theorem raised_danger_is_gated:
  fixes meanwhile
  assumes "raise canon home app_data found control uuid now item a = (a1, g, ch)"
    and "pi_dangerous item \<or> classify_dangerous canon home app_data item (raise_cwd found control) \<noteq> None
      \<or> classify_dangerous canon home app_data item None \<noteq> None"
    and "store_get (gd_id g) (ap_store (meanwhile a1)) = store_get (gd_id g) (ap_store a1)"
    and "is_allow d" and "\<not> may_dangerous ctx"
  shows "\<exists>e. snd (respond dbg alive device_name meanwhile now2 session (gd_id g) d ctx a1) = (ctx, Inl e)
    \<and> ap_store (fst (respond dbg alive device_name meanwhile now2 session (gd_id g) d ctx a1)) \<in> {ap_store a1, ap_store (meanwhile a1)}"
proof -
  define item1 where "item1 = (case classify_dangerous canon home app_data item (raise_cwd found control) of
      Some why \<Rightarrow> mark_dangerous why item | None \<Rightarrow> item)"
  obtain st i where r: "register canon home app_data uuid now item1 (ap_store a) = (st, i, ch)" and gi: "gd_id g = i"
    and a1: "ap_store a1 = st"
    using assms(1) unfolding raise_def Let_def item1_def [symmetric]
    by (auto split: prod.splits option.splits)
  define x where "x = stored_item canon home app_data uuid now item1 (ap_store a)"
  have "store_get i st = Some x"
    using r unfolding register_def Let_def x_def [symmetric] by (auto simp: store_get_def hm.get_put)
  then have live: "store_get i (ap_store (meanwhile a1)) = Some x" using assms(3) gi a1 by simp
  have same: "classify_dangerous canon home app_data (mark_dangerous why item) None
      = classify_dangerous canon home app_data item None" for why
  proof -
    have "input_text (mark_dangerous why item) = input_text item"
      "pi_tool_name (mark_dangerous why item) = pi_tool_name item"
      by (simp_all add: mark_dangerous_def input_text_def fun_eq_iff)
    then show ?thesis by (simp only: classify_dangerous_def classify_def)
  qed
  have "classify_dangerous canon home app_data item1 None = classify_dangerous canon home app_data item None"
    using same by (simp add: item1_def split: option.split)
  moreover have "pi_dangerous item1 \<longleftrightarrow> pi_dangerous item
      \<or> classify_dangerous canon home app_data item (raise_cwd found control) \<noteq> None"
    by (simp add: item1_def mark_dangerous_def split: option.split)
  ultimately have dx: "pi_dangerous x" using assms(2) stored_item_dangerous by (simp add: x_def)
  obtain sl where sl: "hm_get (st_slots (ap_store (meanwhile a1))) i = Some sl" "sl_item sl = x"
    using live by (auto simp: store_get_def)
  have "\<exists>e. resolve_detailed dbg alive now2 i d ctx (ap_store (meanwhile a1))
      = (ap_store (meanwhile a1), ctx, Inl (e, None))"
    using sl dx assms(4,5) by (auto simp: resolve_detailed_def Let_def is_dangerous_def split: option.split)
  then show ?thesis using gi by (auto simp: respond_def Let_def)
qed

theorem raised_danger_is_gated_witness:
  "let item = pending_item_default\<lparr>pi_session_id := ''s'', pi_tool_name := Some ''Bash'',
        pi_input := Some (obj [(''command'', JStr ''cat .ssh/id'')])\<rparr>;
       (a1, g, ch) = raise (\<lambda>_. None) None None None None ''u'' 5 item app_new
   in fst (snd (respond id (\<lambda>_. True) (\<lambda>_. None) id 6 ''s'' (gd_id g) decision_allow context_unknown a1)) = context_unknown"
proof -
  let ?item = "pending_item_default\<lparr>pi_session_id := ''s'', pi_tool_name := Some ''Bash'',
        pi_input := Some (obj [(''command'', JStr ''cat .ssh/id'')])\<rparr>"
  obtain a1 g ch where r: "raise (\<lambda>_. None) None None None None ''u'' 5 ?item app_new = (a1, g, ch)" by (metis prod_cases3)
  have d: "classify_dangerous (\<lambda>_. None) None None ?item None \<noteq> None" by code_simp
  have m: "\<not> may_dangerous context_unknown" by (simp add: may_dangerous_def context_unknown_def)
  have al: "is_allow decision_allow" by (simp add: is_allow_def decision_allow_def)
  from raised_danger_is_gated [OF r disjI2 [OF disjI2 [OF d]] _ al m, of id id "\<lambda>_. True" "\<lambda>_. None" 6 "''s''"]
  show ?thesis using r by (auto simp: Let_def)
qed

section \<open>What the CLI is told\<close>

lemma map_of_foldl_insert:
  "map_of (foldl (\<lambda>m (k, v). obj_insert k v m) m kvs) k = (case map_of (rev kvs) k of Some v \<Rightarrow> Some v | None \<Rightarrow> map_of m k)"
  by (induction kvs arbitrary: m) (auto simp: map_add_def split: option.splits)

lemma map_of_rev: "distinct (map fst kvs) \<Longrightarrow> map_of (rev kvs) = map_of kvs"
proof -
  assume d: "distinct (map fst kvs)"
  then have "distinct (map fst (rev kvs))" by (simp flip: rev_map)
  with d show ?thesis by (subst map_of_inject_set) simp_all
qed

lemma jget_obj: "distinct (map fst kvs) \<Longrightarrow> jget (obj kvs) k = map_of kvs k"
  by (simp add: obj_def map_of_foldl_insert map_of_rev split: option.splits)

lemma map_of_opt_field [simp]: "map_of (opt_field k v) k' = (if k' = k then v else None)"
  by (simp add: opt_field_def split: option.split)

lemma keys_opt_field: "map fst (opt_field k v) = (if v = None then [] else [k])"
  by (simp add: opt_field_def split: option.split)

lemma set_mode_update_standing: "is_standing (set_mode_update m) \<longleftrightarrow> m \<in> set UNGATED_MODES"
  by (simp add: is_standing_def set_mode_update_def jget_str_def jget_obj obj_def)

lemma updated_permissions_of_result:
  assumes "jget (permission_result item d) ''updatedPermissions'' = Some (JArr us)"
  shows "us = updated_permissions item d" "is_allow d"
proof -
  have e: "pi_kind item \<noteq> Elicitation" using assms
    by (auto simp: permission_result_def elicitation_result_def jget_obj split: if_splits)
  have al: "dc_decision d = Allow" using assms e
    by (cases "dc_decision d") (auto simp: permission_result_def jget_obj split: if_splits)
  have "distinct (map fst ([(''behavior'', JStr ''allow'')] @ opt_field ''updatedInput'' (updated_input item d)
      @ (if updated_permissions item d \<noteq> [] then [(''updatedPermissions'', JArr (updated_permissions item d))] else [])))"
    by (simp add: keys_opt_field)
  from jget_obj [OF this, of "''updatedPermissions''"] assms e al
  show "us = updated_permissions item d"
    by (auto simp: permission_result_def map_add_def split: if_splits option.splits)
  show "is_allow d" using al by (simp add: is_allow_def)
qed

text \<open>C11: A caller without the right never leaves anything standing behind: whatever it answers, each
  permission update the CLI is told is either one the CLI itself had offered with the item and that
  ends with the session, or a switch to a mode that keeps asking; nothing a client wrote is passed
  on as an update.\<close>

theorem no_standing_grant_without_right:
  assumes "resolve_detailed dbg alive now i d ctx st = (st', ctx', Inr item)" and "\<not> may_dangerous ctx"
    and "jget (permission_result item d) ''updatedPermissions'' = Some (JArr us)"
  shows "\<forall>u \<in> set us. \<not> is_standing u
    \<and> ((\<exists>s \<in> set (pi_suggestions item). u = ps_raw s \<and> \<not> ps_standing s)
       \<or> (\<exists>m \<in> set RESPOND_MODES - set UNGATED_MODES. u = set_mode_update m))"
proof
  fix u
  assume u: "u \<in> set us"
  note up = updated_permissions_of_result [OF assms(3)]
  have nd: "\<not> is_dangerous item d" and v: "validate dbg item d = None"
    using assms(1,2) up(2) by (auto elim: resolve_detailed_Inr)
  consider s where "chosen item d = Some s" "u = ps_raw s" | m where "dc_mode d = Some m" "u = set_mode_update m"
    using u up(1) by (auto simp: updated_permissions_def split: option.splits)
  then show "\<not> is_standing u
    \<and> ((\<exists>s \<in> set (pi_suggestions item). u = ps_raw s \<and> \<not> ps_standing s)
       \<or> (\<exists>m \<in> set RESPOND_MODES - set UNGATED_MODES. u = set_mode_update m))"
  proof cases
    case (1 s)
    then have "s \<in> set (pi_suggestions item)" by (auto simp: chosen_def bind_eq_Some_conv dest: find_Some_mem)
    moreover have "\<not> ps_standing s" "\<not> is_standing (ps_raw s)"
      using nd 1 by (auto simp: is_dangerous_def split: if_splits)
    ultimately show ?thesis using 1(2) by blast
  next
    case (2 m)
    then have "m \<notin> set UNGATED_MODES" using nd by (auto simp: is_dangerous_def split: if_splits)
    moreover have "m \<in> set RESPOND_MODES"
      using v 2(1) by (auto simp: validate_def Let_def or_else_def split: option.splits if_splits)
    ultimately show ?thesis using 2(2) set_mode_update_standing by blast
  qed
qed

theorem no_standing_grant_without_right_witness:
  "\<not> is_standing (set_mode_update ''plan'')"
proof -
  let ?item = "example_item\<lparr>pi_kind := Plan\<rparr>"
  let ?d = "decision_allow\<lparr>dc_mode := Some ''plan''\<rparr>"
  let ?st = "example_store\<lparr>st_slots := [(''r'', \<lparr>sl_item = ?item, sl_tx = Some 0\<rparr>)]\<rparr>"
  have "\<exists>st'. resolve_detailed id (\<lambda>_. True) 9 ''r'' ?d context_unknown ?st = (st', context_unknown, Inr ?item)"
    by (simp add: resolve_detailed_def validate_def Let_def or_else_def is_dangerous_def chosen_def deliver_decision_def
        RESPOND_MODES_def UNGATED_MODES_def example_item_def pending_item_default_def decision_allow_def is_allow_def)
  then obtain st' where r: "resolve_detailed id (\<lambda>_. True) 9 ''r'' ?d context_unknown ?st = (st', context_unknown, Inr ?item)"
    by blast
  have m: "\<not> may_dangerous context_unknown" by (simp add: may_dangerous_def context_unknown_def)
  have "jget (permission_result ?item ?d) ''updatedPermissions'' = Some (JArr [set_mode_update ''plan''])"
    by (simp add: permission_result_def updated_permissions_def chosen_def decision_allow_def updated_input_def
        example_item_def pending_item_default_def opt_field_def opt_filter_def jget_obj)
  from no_standing_grant_without_right [OF r m this] show ?thesis by simp
qed

section \<open>Suggestions\<close>

lemma session_copy_Some:
  assumes "session_copy raw = Some c"
  obtains m d where "raw = JObj m" "c = JObj (obj_insert ''destination'' (JStr ''session'') m)"
    "jget_str raw ''type'' = Some ''addRules''" "jget_str raw ''destination'' = Some d"
    "d \<in> set [''localSettings'', ''userSettings'', ''projectSettings'']"
proof -
  obtain m where m: "as_object raw = Some m" using assms by (auto simp: session_copy_def bind_eq_Some_conv)
  then have raw: "raw = JObj m" by (cases raw) simp_all
  have ty: "jget_str raw ''type'' = Some ''addRules''"
    using assms m by (cases "jget_str raw ''type'' = Some ''addRules''") (simp_all only: session_copy_def bind.bind_lunit if_True option.distinct simp_thms)
  obtain d where d: "jget_str raw ''destination'' = Some d"
    using assms m ty by (cases "jget_str raw ''destination''") (simp_all only: session_copy_def bind.simps simp_thms if_False option.distinct)
  have "d \<in> set [''localSettings'', ''userSettings'', ''projectSettings'']
      \<and> c = JObj (obj_insert ''destination'' (JStr ''session'') m)"
    using assms unfolding session_copy_def m ty d bind.bind_lunit
    by (cases "d \<in> set [''localSettings'', ''userSettings'', ''projectSettings'']") (simp_all only: simp_thms if_False if_True option.distinct option.inject)
  then show thesis using that [OF raw _ ty d] by blast
qed

text \<open>What one round adds.\<close>

definition push_copy :: "json list \<Rightarrow> json \<Rightarrow> json list \<Rightarrow> json list" where
  "push_copy whole r raws = (case session_copy r of
      Some copy \<Rightarrow> if copy \<notin> set whole \<and> copy \<notin> set raws then raws @ [copy] else raws | None \<Rightarrow> raws)"

lemma push_raws_Cons [simp]: "push_raws whole (r # rs) raws = push_raws whole rs (push_copy whole r raws @ [r])"
  by (simp add: push_copy_def Let_def)

declare push_raws.simps(2) [simp del]

lemma push_copy_set:
  "set raws \<subseteq> set (push_copy whole r raws)"
  "c \<in> set (push_copy whole r raws) \<Longrightarrow> c \<in> set raws \<or> session_copy r = Some c"
  "session_copy r = Some c \<Longrightarrow> c \<in> set (push_copy whole r raws) \<or> c \<in> set whole"
  "filter (\<lambda>x. x \<in> set whole) (push_copy whole r raws) = filter (\<lambda>x. x \<in> set whole) raws"
  by (auto simp: push_copy_def split: option.splits if_splits)

lemma push_raws_filter:
  "set rs \<subseteq> set whole \<Longrightarrow> filter (\<lambda>r. r \<in> set whole) (push_raws whole rs raws) = filter (\<lambda>r. r \<in> set whole) raws @ rs"
proof (induction rs arbitrary: raws)
  case (Cons r rs)
  then show ?case using Cons.IH [of "push_copy whole r raws @ [r]"] by (simp add: push_copy_set(4))
qed simp

lemma push_raws_keeps: "set raws \<subseteq> set (push_raws whole rs raws)"
proof (induction rs arbitrary: raws)
  case (Cons r rs)
  have "set raws \<subseteq> set (push_copy whole r raws @ [r])" using push_copy_set(1) by fastforce
  also have "\<dots> \<subseteq> set (push_raws whole (r # rs) raws)" unfolding push_raws_Cons by (rule Cons.IH)
  finally show ?case .
qed simp

lemma push_raws_copies:
  "r \<in> set rs \<Longrightarrow> session_copy r = Some c \<Longrightarrow> c \<in> set (push_raws whole rs raws) \<or> c \<in> set whole"
proof (induction rs arbitrary: raws)
  case (Cons x xs)
  show ?case
  proof (cases "r = x")
    case True
    then have "c \<in> set (push_copy whole x raws @ [x]) \<or> c \<in> set whole"
      using push_copy_set(3) Cons.prems(2) by fastforce
    then show ?thesis using push_raws_keeps unfolding push_raws_Cons by blast
  next
    case False
    then show ?thesis using Cons.IH [of "push_copy whole x raws @ [x]"] Cons.prems by simp
  qed
qed simp

lemma push_raws_origin:
  "c \<in> set (push_raws whole rs raws) \<Longrightarrow> c \<in> set raws \<or> c \<in> set rs \<or> (\<exists>r \<in> set rs. session_copy r = Some c)"
proof (induction rs arbitrary: raws)
  case (Cons r rs)
  have "c \<in> set (push_copy whole r raws @ [r]) \<or> c \<in> set rs \<or> (\<exists>x \<in> set rs. session_copy x = Some c)"
    using Cons.IH [of "push_copy whole r raws @ [r]"] Cons.prems by simp
  then show ?case using push_copy_set(2) [of c whole r raws] by auto
qed simp

lemma whole_in_push_raws: "set whole \<subseteq> set (push_raws whole whole [])"
  using push_raws_filter [of whole whole "[]"] by (metis filter.simps(1) filter_is_subset order.refl self_append_conv2)

lemma copy_destination:
  assumes "session_copy raw = Some c"
  shows "jget c k = (if k = ''destination'' then Some (JStr ''session'') else jget raw k)"
  using assms by (rule session_copy_Some) simp

text \<open>The offered list is the CLI's own updates, unchanged and in order, with a session-scoped copy of each
  \<open>addRules\<close> that would be written to a settings file; the index of an entry is its position. A copy
  differs from its original in the destination alone, and - unlike the original - it is standing only
  when it allows a whole tool or server.\<close>

theorem suggestions_offer_session_copies:
  fixes rs
  defines "ss \<equiv> suggestions_from_raw (Some (JArr rs))"
  shows "map ps_index ss = [0..<length ss]
    \<and> (\<forall>s \<in> set ss. ps_standing s \<longleftrightarrow> is_standing (ps_raw s))
    \<and> filter (\<lambda>r. r \<in> set rs) (map ps_raw ss) = rs
    \<and> (\<forall>r \<in> set rs. \<forall>c. session_copy r = Some c \<longrightarrow> c \<in> set (map ps_raw ss) \<and> is_standing r
        \<and> (\<forall>k. jget c k = (if k = ''destination'' then Some (JStr ''session'') else jget r k))
        \<and> (is_standing c \<longleftrightarrow> (jget_str r ''behavior'' = None \<or> jget_str r ''behavior'' = Some ''allow'')
             \<and> (\<exists>rules. jget_array r ''rules'' = Some rules \<and> (\<exists>x \<in> set rules. is_blanket_rule x))))
    \<and> (\<forall>c \<in> set (map ps_raw ss) - set rs. \<exists>r \<in> set rs. session_copy r = Some c)"
proof -
  define raws where "raws = push_raws rs rs []"
  have ss: "ss = map (\<lambda>(i, r). suggestion_from_raw i r) (List.enumerate 0 raws)"
    by (simp add: ss_def suggestions_from_raw_def raws_def)
  have raw: "map ps_raw ss = raws"
    by (simp add: ss comp_def split_def suggestion_from_raw_def Let_def)
  have len: "length ss = length raws" by (simp add: ss)
  have ix: "map ps_index ss = [0..<length ss]"
    by (simp add: ss comp_def split_def suggestion_from_raw_def Let_def)
  have st: "\<forall>s \<in> set ss. ps_standing s \<longleftrightarrow> is_standing (ps_raw s)"
    by (auto simp: ss suggestion_from_raw_def Let_def)
  have fl: "filter (\<lambda>r. r \<in> set rs) raws = rs" using push_raws_filter [of rs rs "[]"] by (simp add: raws_def)
  have cp: "c \<in> set raws \<and> is_standing r
        \<and> (\<forall>k. jget c k = (if k = ''destination'' then Some (JStr ''session'') else jget r k))
        \<and> (is_standing c \<longleftrightarrow> (jget_str r ''behavior'' = None \<or> jget_str r ''behavior'' = Some ''allow'')
             \<and> (\<exists>rules. jget_array r ''rules'' = Some rules \<and> (\<exists>x \<in> set rules. is_blanket_rule x)))"
    if r: "r \<in> set rs" "session_copy r = Some c" for r c
  proof (intro conjI)
    show "c \<in> set raws"
      using push_raws_copies [OF r] whole_in_push_raws [of rs] unfolding raws_def by blast
    obtain d m where d: "jget_str r ''destination'' = Some d"
        "d \<in> set [''localSettings'', ''userSettings'', ''projectSettings'']"
      and o: "r = JObj m" "c = JObj (obj_insert ''destination'' (JStr ''session'') m)"
      and ty: "jget_str r ''type'' = Some ''addRules''"
      using session_copy_Some [OF r(2)] by metis
    have "d \<noteq> ''session'' \<and> d \<noteq> ''cliArg''" using d(2) by auto
    then show "is_standing r" using d(1) o(1) by (simp add: is_standing_def)
    show dest: "\<forall>k. jget c k = (if k = ''destination'' then Some (JStr ''session'') else jget r k)"
      using copy_destination [OF r(2)] by blast
    have s: "jget_str c ''destination'' = Some ''session''" "jget_str c ''type'' = Some ''addRules''"
      "jget_str c ''behavior'' = jget_str r ''behavior''" "jget_array c ''rules'' = jget_array r ''rules''"
      using dest ty by (simp_all add: jget_str_def jget_array_def)
    show "is_standing c \<longleftrightarrow> (jget_str r ''behavior'' = None \<or> jget_str r ''behavior'' = Some ''allow'')
             \<and> (\<exists>rules. jget_array r ''rules'' = Some rules \<and> (\<exists>x \<in> set rules. is_blanket_rule x))"
      using s o(2) by (cases "jget_str r ''behavior''"; cases "jget_array r ''rules''") (simp_all add: is_standing_def)
  qed
  have "\<forall>c \<in> set raws - set rs. \<exists>r \<in> set rs. session_copy r = Some c"
    using push_raws_origin [of _ rs rs "[]"] by (auto simp: raws_def)
  with raw ix st fl cp show ?thesis by simp
qed

theorem suggestions_offer_session_copies_witness:
  "let r = obj [(''type'', JStr ''addRules''), (''destination'', JStr ''userSettings''),
        (''rules'', JArr [obj [(''toolName'', JStr ''Bash'')]])]
   in \<exists>c. session_copy r = Some c \<and> is_standing c \<and> c \<in> set (map ps_raw (suggestions_from_raw (Some (JArr [r]))))"
proof -
  let ?r = "obj [(''type'', JStr ''addRules''), (''destination'', JStr ''userSettings''),
        (''rules'', JArr [obj [(''toolName'', JStr ''Bash'')]])]"
  have "session_copy ?r \<noteq> None" and bh: "jget_str ?r ''behavior'' = None"
    and rl: "jget_array ?r ''rules'' = Some [obj [(''toolName'', JStr ''Bash'')]]"
    and bl: "is_blanket_rule (obj [(''toolName'', JStr ''Bash'')])" by code_simp+
  then obtain c where c: "session_copy ?r = Some c" by blast
  have "c \<in> set (map ps_raw (suggestions_from_raw (Some (JArr [?r])))) \<and> is_standing c"
    using suggestions_offer_session_copies [of "[?r]"] c bh rl bl by (metis list.set_intros(1))
  with c show ?thesis unfolding Let_def by blast
qed

section \<open>The body of an answer\<close>

lemma obj_insert_last: "\<forall>x \<in> fst ` set m. x < k \<Longrightarrow> obj_insert k v m = m @ [(k, v)]"
  by (induction k v m rule: obj_insert.induct) auto

lemma foldl_insert_sorted:
  "sorted_wrt (<) (map fst (m @ kvs)) \<Longrightarrow> foldl (\<lambda>m (k, v). obj_insert k v m) m kvs = m @ kvs"
proof (induction kvs arbitrary: m)
  case (Cons e kvs)
  obtain k v where e: "e = (k, v)" by (cases e)
  have "obj_insert k v m = m @ [(k, v)]"
    using Cons.prems by (intro obj_insert_last) (auto simp: e sorted_wrt_append)
  then show ?case using Cons.IH [of "m @ [(k, v)]"] Cons.prems by (simp add: e)
qed simp

lemma read_strings_map: "read_strings (map (\<lambda>(k, v). (k, JStr v)) a) = Some a"
  by (induction a) auto

lemma read_string_map_of:
  assumes "sorted_wrt (<) (map fst a)"
  shows "read_string_map (string_map a) = Some a"
proof -
  have "map fst (map (\<lambda>(k, v). (k, JStr v)) a) = map fst a" by (simp add: comp_def split_def)
  with assms have "obj (map (\<lambda>(k, v). (k, JStr v)) a) = JObj (map (\<lambda>(k, v). (k, JStr v)) a)"
    using foldl_insert_sorted [of "[]" "map (\<lambda>(k, v). (k, JStr v)) a"] by (simp only: obj_def append_Nil)
  then show ?thesis by (simp add: read_string_map_def string_map_def read_strings_map)
qed

lemma keys_obj: "fst ` set (foldl (\<lambda>m (k, v). obj_insert k v m) m kvs) = fst ` set m \<union> fst ` set kvs"
proof (induction kvs arbitrary: m)
  case (Cons e kvs)
  obtain k v where e: "e = (k, v)" by (cases e)
  show ?case using Cons.IH [of "obj_insert k v m"] by (simp add: e set_obj_insert)
qed simp

text \<open>The answers of a decision are an ordered map.\<close>

definition body_ok :: "respond_body \<Rightarrow> bool" where
  "body_ok b \<longleftrightarrow> (\<forall>n. dc_suggestion (rb_decision b) = Some n \<longrightarrow> n < 2 ^ 64)
     \<and> (\<forall>a. dc_answers (rb_decision b) = Some a \<longrightarrow> sorted_wrt (<) (map fst a))
     \<and> dc_content (rb_decision b) \<noteq> Some JNull"



end
