(* ===== verification/Vt.thy ===== *)
theory Vt
  imports Tokens "HOL-Library.Monad_Syntax"
begin

text \<open>
  \<open>claude/control/vt.rs\<close>: the terminal screen on which the output of a background session is replayed. A
  character is its code point, a row of the grid a list of them. \<open>usize\<close> has 64 bits, and the release build
  wraps around; an index or a slice out of range is a panic, which aborts the program: the operations
  return \<open>None\<close> then.
\<close>

section \<open>Characters\<close>

text \<open>\<open>String::from_utf8_lossy(bytes).chars()\<close>.\<close>

definition code_point :: "nat list \<Rightarrow> nat" where
  "code_point bs =
     (case bs of
        [a] \<Rightarrow> a
      | [a, b] \<Rightarrow> (a - 192) * 64 + (b - 128)
      | [a, b, c] \<Rightarrow> (a - 224) * 4096 + (b - 128) * 64 + (c - 128)
      | [a, b, c, d] \<Rightarrow> (a - 240) * 262144 + (b - 128) * 4096 + (c - 128) * 64 + (d - 128)
      | _ \<Rightarrow> 0)"

function lossy_chars :: "nat list \<Rightarrow> nat list" where
  "lossy_chars bs =
     (if bs = [] then []
      else let (ok, n) = utf8_front bs
           in (if ok then code_point (take n bs) else 0xFFFD) # lossy_chars (drop n bs))"
  by pat_completeness auto
termination
  by (relation "measure length") (auto simp: utf8_front_def Let_def split: if_splits)

declare lossy_chars.simps [simp del]

text \<open>\<open>char_width\<close>.\<close>

definition ZERO_WIDTH :: "(nat \<times> nat) list" where
  "ZERO_WIDTH = [(0x0300, 0x036F), (0x1AB0, 0x1AFF), (0x1DC0, 0x1DFF), (0x200B, 0x200F), (0x2028, 0x202E),
     (0x2060, 0x2064), (0x20D0, 0x20FF), (0xFE00, 0xFE0F), (0xFE20, 0xFE2F), (0xFEFF, 0xFEFF)]"

definition DOUBLE_WIDTH :: "(nat \<times> nat) list" where
  "DOUBLE_WIDTH = [(0x1100, 0x115F), (0x2E80, 0x303E), (0x3041, 0x33FF), (0x3400, 0x4DBF), (0x4E00, 0x9FFF),
     (0xA000, 0xA4CF), (0xAC00, 0xD7A3), (0xF900, 0xFAFF), (0xFE30, 0xFE4F), (0xFF00, 0xFF60), (0xFFE0, 0xFFE6),
     (0x1F300, 0x1F64F), (0x1F680, 0x1F6FF), (0x1F900, 0x1F9FF), (0x20000, 0x3FFFD)]"

definition in_ranges :: "(nat \<times> nat) list \<Rightarrow> nat \<Rightarrow> bool" where
  "in_ranges rs u \<longleftrightarrow> list_ex (\<lambda>(a, b). a \<le> u \<and> u \<le> b) rs"

definition char_width :: "nat \<Rightarrow> nat" where
  "char_width u = (if in_ranges ZERO_WIDTH u then 0 else if in_ranges DOUBLE_WIDTH u then 2 else 1)"

text \<open>\<open>char::is_whitespace\<close>, for \<open>trim_end\<close>.\<close>

definition is_space :: "nat \<Rightarrow> bool" where
  "is_space u \<longleftrightarrow> (9 \<le> u \<and> u \<le> 13) \<or> u \<in> {32, 0x85, 0xA0, 0x1680, 0x2028, 0x2029, 0x202F, 0x205F, 0x3000}
     \<or> (0x2000 \<le> u \<and> u \<le> 0x200A)"

definition trim_row :: "nat list \<Rightarrow> nat list" where
  "trim_row s = rev (dropWhile is_space (rev s))"

section \<open>The terminal\<close>

record vterm =
  tm_cols :: nat
  tm_rows :: nat
  tm_grid :: "nat list list"
  tm_r :: nat
  tm_c :: nat
  tm_saved :: "nat \<times> nat"
  tm_top :: nat
  tm_bottom :: nat

text \<open>Arithmetic on \<open>usize\<close>.\<close>

definition USIZE :: nat where "USIZE = 2 ^ 64"

definition wadd :: "nat \<Rightarrow> nat \<Rightarrow> nat" where
  "wadd a b = (a + b) mod USIZE"

definition sat_mul_add :: "nat \<Rightarrow> nat \<Rightarrow> nat" where
  "sat_mul_add v d = min (min (v * 10) (USIZE - 1) + d) (USIZE - 1)"

text \<open>\<open>Vec::remove\<close>, \<open>Vec::insert\<close>, an element and a slice set to a value.\<close>

definition vec_remove :: "nat \<Rightarrow> 'a list \<Rightarrow> 'a list option" where
  "vec_remove i xs = (if i < length xs then Some (take i xs @ drop (Suc i) xs) else None)"

definition vec_insert :: "nat \<Rightarrow> 'a \<Rightarrow> 'a list \<Rightarrow> 'a list option" where
  "vec_insert i x xs = (if i \<le> length xs then Some (take i xs @ x # drop i xs) else None)"

definition vec_set :: "nat \<Rightarrow> 'a \<Rightarrow> 'a list \<Rightarrow> 'a list option" where
  "vec_set i x xs = (if i < length xs then Some (xs[i := x]) else None)"

definition fill :: "nat \<Rightarrow> nat \<Rightarrow> 'a \<Rightarrow> 'a list \<Rightarrow> 'a list option" where
  "fill a b x xs = (if a \<le> b \<and> b \<le> length xs then Some (take a xs @ replicate (b - a) x @ drop b xs) else None)"

fun times :: "nat \<Rightarrow> ('a \<Rightarrow> 'a option) \<Rightarrow> 'a \<Rightarrow> 'a option" where
  "times 0 f x = Some x"
| "times (Suc n) f x = do { y \<leftarrow> f x; times n f y }"

definition blank_row :: "vterm \<Rightarrow> nat list" where
  "blank_row t = replicate (tm_cols t) 32"

definition term_new :: "nat \<Rightarrow> nat \<Rightarrow> vterm" where
  "term_new cols rows =
     (let cols = max cols 1; rows = max rows 1
      in \<lparr>tm_cols = cols, tm_rows = rows, tm_grid = replicate rows (replicate cols 32), tm_r = 0, tm_c = 0,
          tm_saved = (0, 0), tm_top = 0, tm_bottom = rows - 1\<rparr>)"

definition with_row :: "(nat list \<Rightarrow> nat list option) \<Rightarrow> vterm \<Rightarrow> vterm option" where
  "with_row f t =
     (if tm_r t < length (tm_grid t)
      then do { row \<leftarrow> f (tm_grid t ! tm_r t); Some (t\<lparr>tm_grid := (tm_grid t)[tm_r t := row]\<rparr>) }
      else None)"

text \<open>Take out row \<open>i\<close> and put a blank one at \<open>j\<close>.\<close>

definition move_blank :: "nat \<Rightarrow> nat \<Rightarrow> vterm \<Rightarrow> vterm option" where
  "move_blank i j t =
     do { g \<leftarrow> vec_remove i (tm_grid t);
          g \<leftarrow> vec_insert j (blank_row t) g;
          Some (t\<lparr>tm_grid := g\<rparr>) }"

definition scroll_up :: "nat \<Rightarrow> vterm \<Rightarrow> vterm option" where
  "scroll_up n t = times n (\<lambda>t. if tm_top t < tm_bottom t \<and> tm_bottom t < tm_rows t
     then move_blank (tm_top t) (tm_bottom t) t else Some t) t"

definition scroll_down :: "nat \<Rightarrow> vterm \<Rightarrow> vterm option" where
  "scroll_down n t = times n (\<lambda>t. if tm_top t < tm_bottom t \<and> tm_bottom t < tm_rows t
     then move_blank (tm_bottom t) (tm_top t) t else Some t) t"

definition line_feed :: "vterm \<Rightarrow> vterm option" where
  "line_feed t =
     (if tm_r t = tm_bottom t then scroll_up 1 t
      else if tm_r t + 1 < tm_rows t then Some (t\<lparr>tm_r := tm_r t + 1\<rparr>) else Some t)"

definition reverse_index :: "vterm \<Rightarrow> vterm option" where
  "reverse_index t = (if tm_r t = tm_top t then scroll_down 1 t else Some (t\<lparr>tm_r := tm_r t - 1\<rparr>))"

definition set_cell :: "nat \<Rightarrow> nat \<Rightarrow> vterm \<Rightarrow> vterm option" where
  "set_cell ch w t = with_row (\<lambda>row. do {
     row \<leftarrow> vec_set (tm_c t) ch row;
     if w = 2 \<and> tm_c t + 1 < tm_cols t then vec_set (tm_c t + 1) 0 row else Some row }) t"

definition put :: "nat \<Rightarrow> vterm \<Rightarrow> vterm option" where
  "put ch t =
     (let w = char_width ch
      in if w = 0 then Some t
         else do {
           t \<leftarrow> (if tm_c t + w > tm_cols t then line_feed (t\<lparr>tm_c := 0\<rparr>) else Some t);
           t \<leftarrow> set_cell ch w t;
           Some (t\<lparr>tm_c := tm_c t + w\<rparr>) })"

definition erase_line :: "nat \<Rightarrow> vterm \<Rightarrow> vterm option" where
  "erase_line mode t =
     (let (from, to) = (if mode = 0 then (min (tm_c t) (tm_cols t), tm_cols t)
                        else if mode = 1 then (0, min (tm_c t + 1) (tm_cols t)) else (0, tm_cols t))
      in with_row (fill from to 32) t)"

definition blank_rows :: "nat \<Rightarrow> nat \<Rightarrow> vterm \<Rightarrow> vterm option" where
  "blank_rows a b t =
     (if b \<le> a \<or> b \<le> length (tm_grid t)
      then Some (t\<lparr>tm_grid := map (\<lambda>(i, row). if a \<le> i \<and> i < b then blank_row t else row)
                                (List.enumerate 0 (tm_grid t))\<rparr>)
      else None)"

definition erase_display :: "nat \<Rightarrow> vterm \<Rightarrow> vterm option" where
  "erase_display mode t =
     (if mode = 0 then do { t \<leftarrow> erase_line 0 t; blank_rows (tm_r t + 1) (tm_rows t) t }
      else if mode = 1 then do { t \<leftarrow> erase_line 1 t; blank_rows 0 (tm_r t) t }
      else blank_rows 0 (tm_rows t) t)"

text \<open>The control sequences. Parameter \<open>i\<close>, or \<open>d\<close> when it is missing or zero.\<close>

definition param :: "nat list \<Rightarrow> nat \<Rightarrow> nat \<Rightarrow> nat" where
  "param ps i d = (if i < length ps \<and> ps ! i \<noteq> 0 then ps ! i else d)"

definition first_param :: "nat list \<Rightarrow> nat" where
  "first_param ps = (case ps of [] \<Rightarrow> 0 | p # _ \<Rightarrow> p)"

definition csi_erase_chars :: "nat \<Rightarrow> vterm \<Rightarrow> vterm option" where
  "csi_erase_chars n t = with_row (fill (min (tm_c t) (tm_cols t)) (min (wadd (tm_c t) n) (tm_cols t)) 32) t"

definition csi_delete_chars :: "nat \<Rightarrow> vterm \<Rightarrow> vterm option" where
  "csi_delete_chars n t =
     with_row (times (min n (tm_cols t - tm_c t)) (\<lambda>row. if tm_c t < length row
       then do { row \<leftarrow> vec_remove (tm_c t) row; Some (row @ [32]) } else Some row)) t"

definition csi_insert_chars :: "nat \<Rightarrow> vterm \<Rightarrow> vterm option" where
  "csi_insert_chars n t =
     with_row (times (min n (tm_cols t - tm_c t)) (\<lambda>row. if tm_c t < length row
       then do { row \<leftarrow> vec_insert (tm_c t) 32 row; Some (butlast row) } else Some row)) t"

definition in_region :: "vterm \<Rightarrow> bool" where
  "in_region t \<longleftrightarrow> tm_r t \<ge> tm_top t \<and> tm_r t \<le> tm_bottom t"

definition csi_set_region :: "nat \<Rightarrow> nat \<Rightarrow> vterm \<Rightarrow> vterm" where
  "csi_set_region hi lo t =
     (let t = (if hi < lo \<and> lo < tm_rows t then t\<lparr>tm_top := hi, tm_bottom := lo\<rparr>
               else t\<lparr>tm_top := 0, tm_bottom := tm_rows t - 1\<rparr>)
      in t\<lparr>tm_r := 0, tm_c := 0\<rparr>)"

definition csi :: "bool \<Rightarrow> nat list \<Rightarrow> char \<Rightarrow> vterm \<Rightarrow> vterm option" where
  "csi private ps fin t =
     (let p = param ps; rows = tm_rows t; cols = tm_cols t; r = tm_r t; c = tm_c t
      in if fin = CHR ''A'' then Some (t\<lparr>tm_r := r - p 0 1\<rparr>)
      else if fin = CHR ''B'' \<or> fin = CHR ''e'' then Some (t\<lparr>tm_r := min (wadd r (p 0 1)) (rows - 1)\<rparr>)
      else if fin = CHR ''C'' \<or> fin = CHR ''a'' then Some (t\<lparr>tm_c := min (wadd c (p 0 1)) (cols - 1)\<rparr>)
      else if fin = CHR ''D'' then Some (t\<lparr>tm_c := c - p 0 1\<rparr>)
      else if fin = CHR ''E'' then Some (t\<lparr>tm_r := min (wadd r (p 0 1)) (rows - 1), tm_c := 0\<rparr>)
      else if fin = CHR ''F'' then Some (t\<lparr>tm_r := r - p 0 1, tm_c := 0\<rparr>)
      else if fin = CHR ''G'' \<or> fin = CHR 0x60 then Some (t\<lparr>tm_c := min (p 0 1 - 1) (cols - 1)\<rparr>)
      else if fin = CHR ''d'' then Some (t\<lparr>tm_r := min (p 0 1 - 1) (rows - 1)\<rparr>)
      else if fin = CHR ''H'' \<or> fin = CHR ''f''
           then Some (t\<lparr>tm_r := min (p 0 1 - 1) (rows - 1), tm_c := min (p 1 1 - 1) (cols - 1)\<rparr>)
      else if fin = CHR ''J'' then erase_display (first_param ps) t
      else if fin = CHR ''K'' then erase_line (first_param ps) t
      else if fin = CHR ''X'' then csi_erase_chars (p 0 1) t
      else if fin = CHR ''P'' then csi_delete_chars (p 0 1) t
      else if fin = CHR ''@'' then csi_insert_chars (p 0 1) t
      else if fin = CHR ''L'' \<and> in_region t then times (p 0 1) (\<lambda>t. move_blank (tm_bottom t) (tm_r t) t) t
      else if fin = CHR ''M'' \<and> in_region t then times (p 0 1) (\<lambda>t. move_blank (tm_r t) (tm_bottom t) t) t
      else if fin = CHR ''S'' then scroll_up (p 0 1) t
      else if fin = CHR ''T'' \<and> \<not> private then scroll_down (p 0 1) t
      else if fin = CHR ''r'' \<and> \<not> private then Some (csi_set_region (p 0 1 - 1) (p 1 rows - 1) t)
      else if fin = CHR ''s'' \<and> \<not> private then Some (t\<lparr>tm_saved := (r, c)\<rparr>)
      else if fin = CHR ''u'' \<and> \<not> private then Some (t\<lparr>tm_r := fst (tm_saved t), tm_c := snd (tm_saved t)\<rparr>)
      else if fin \<in> {CHR ''h'', CHR ''l''} \<and> private \<and> list_ex (\<lambda>m. m = 47 \<or> m = 1047 \<or> m = 1049) ps
           then do { t \<leftarrow> erase_display 2 t; Some (t\<lparr>tm_r := 0, tm_c := 0\<rparr>) }
      else Some t)"

section \<open>The parser\<close>

datatype vstate = Ground | Escape | Csi | StrSeq | StrEscape | Charset

record machine =
  vm_term :: vterm
  vm_state :: vstate
  vm_params :: "nat list"
  vm_current :: "nat option"
  vm_private :: bool

definition in_state :: "vstate \<Rightarrow> machine \<Rightarrow> machine" where
  "in_state s m = m\<lparr>vm_state := s\<rparr>"

definition begin_csi :: "machine \<Rightarrow> machine" where
  "begin_csi m = m\<lparr>vm_state := Csi, vm_params := [], vm_current := None, vm_private := False\<rparr>"

definition on_term :: "(vterm \<Rightarrow> vterm option) \<Rightarrow> machine \<Rightarrow> machine option" where
  "on_term f m = do { t \<leftarrow> f (vm_term m); Some (m\<lparr>vm_term := t\<rparr>) }"

definition is_control :: "nat \<Rightarrow> bool" where
  "is_control ch \<longleftrightarrow> ch < 0x20 \<or> ch = 0x7F \<or> (0x80 \<le> ch \<and> ch \<le> 0x9F)"

definition ground_char :: "nat \<Rightarrow> machine \<Rightarrow> machine option" where
  "ground_char ch m =
     (if ch = 0x1B then Some (in_state Escape m)
      else if ch = 13 then on_term (\<lambda>t. Some (t\<lparr>tm_c := 0\<rparr>)) m
      else if ch = 10 \<or> ch = 11 \<or> ch = 12 then on_term line_feed m
      else if ch = 8 then on_term (\<lambda>t. Some (t\<lparr>tm_c := tm_c t - 1\<rparr>)) m
      else if ch = 9 then on_term (\<lambda>t. Some (t\<lparr>tm_c := min ((tm_c t div 8 + 1) * 8) (tm_cols t - 1)\<rparr>)) m
      else if ch = 0x9B then Some (begin_csi m)
      else if is_control ch then Some m
      else on_term (put ch) m)"

definition escape_char :: "nat \<Rightarrow> machine \<Rightarrow> machine option" where
  "escape_char ch m =
     (let m = in_state Ground m; is = (\<lambda>s. ch \<in> set (map of_char s))
      in if is ''['' then Some (begin_csi m)
         else if is '']PX^_'' then Some (in_state StrSeq m)
         else if is ''()*+-./#%'' then Some (in_state Charset m)
         else if is ''7'' then on_term (\<lambda>t. Some (t\<lparr>tm_saved := (tm_r t, tm_c t)\<rparr>)) m
         else if is ''8'' then on_term (\<lambda>t. Some (t\<lparr>tm_r := fst (tm_saved t), tm_c := snd (tm_saved t)\<rparr>)) m
         else if is ''D'' then on_term line_feed m
         else if is ''E'' then on_term (\<lambda>t. line_feed (t\<lparr>tm_c := 0\<rparr>)) m
         else if is ''M'' then on_term reverse_index m
         else if is ''c'' then on_term (\<lambda>t. Some (term_new (tm_cols t) (tm_rows t))) m
         else Some m)"

definition flush_param :: "machine \<Rightarrow> machine" where
  "flush_param m =
     (case vm_current m of
        Some v \<Rightarrow> m\<lparr>vm_params := vm_params m @ [v], vm_current := None\<rparr>
      | None \<Rightarrow> m)"

definition csi_char :: "nat \<Rightarrow> machine \<Rightarrow> machine option" where
  "csi_char ch m =
     (if 48 \<le> ch \<and> ch \<le> 57
      then Some (m\<lparr>vm_current := Some (sat_mul_add (case vm_current m of Some v \<Rightarrow> v | None \<Rightarrow> 0) (ch - 48))\<rparr>)
      else if ch = 59 \<or> ch = 58
      then Some (m\<lparr>vm_params := vm_params m @ [case vm_current m of Some v \<Rightarrow> v | None \<Rightarrow> 0], vm_current := None\<rparr>)
      else if ch \<in> {63, 62, 60, 61} then Some (m\<lparr>vm_private := True\<rparr>)
      else if 32 \<le> ch \<and> ch \<le> 47 then Some m
      else if 64 \<le> ch \<and> ch \<le> 126
      then let m = flush_param m
           in map_option (in_state Ground) (on_term (csi (vm_private m) (vm_params m) (char_of ch)) m)
      else if ch = 0x1B then Some (in_state Escape m)
      else Some (in_state Ground m))"

definition vt_char :: "nat \<Rightarrow> machine \<Rightarrow> machine option" where
  "vt_char ch m =
     (case vm_state m of
        Ground \<Rightarrow> ground_char ch m
      | Escape \<Rightarrow> escape_char ch m
      | Csi \<Rightarrow> csi_char ch m
      | StrSeq \<Rightarrow> Some (if ch = 7 \<or> ch = 0x9C then in_state Ground m
                      else if ch = 0x1B then in_state StrEscape m else m)
      | StrEscape \<Rightarrow> Some (in_state (if ch = 0x5C then Ground else StrSeq) m)
      | Charset \<Rightarrow> Some (in_state Ground m))"

fun vt_run :: "nat list \<Rightarrow> machine \<Rightarrow> machine option" where
  "vt_run [] m = Some m"
| "vt_run (ch # chs) m = do { m \<leftarrow> vt_char ch m; vt_run chs m }"

record screen =
  sc_text :: "nat list"
  sc_rows :: "nat list list"

fun join_lines :: "nat list list \<Rightarrow> nat list" where
  "join_lines [] = []"
| "join_lines [row] = row"
| "join_lines (row # rows) = row @ 10 # join_lines rows"

definition into_screen :: "vterm \<Rightarrow> screen" where
  "into_screen t =
     (let rows = map (\<lambda>row. trim_row (filter (\<lambda>c. c \<noteq> 0) row)) (tm_grid t);
          rows = rev (dropWhile (\<lambda>row. row = []) (rev rows))
      in \<lparr>sc_text = join_lines rows, sc_rows = rows\<rparr>)"

definition machine_new :: "nat \<Rightarrow> nat \<Rightarrow> machine" where
  "machine_new cols rows = \<lparr>vm_term = term_new cols rows, vm_state = Ground, vm_params = [], vm_current = None,
     vm_private = False\<rparr>"

definition render :: "str \<Rightarrow> nat \<Rightarrow> nat \<Rightarrow> screen option" where
  "render bytes cols rows =
     do { m \<leftarrow> vt_run (lossy_chars (map byte bytes)) (machine_new cols rows); Some (into_screen (vm_term m)) }"

end
