(* ===== verification/VtProofs.thy ===== *)
theory VtProofs
  imports Vt
begin

text \<open>
  The theorems on the terminal screen: the invariant of the terminal, that no control character leaves it,
  when it can panic, and what plain text and string sequences do.
\<close>

section \<open>The invariant\<close>

definition cell_ok :: "nat \<Rightarrow> bool" where
  "cell_ok ch \<longleftrightarrow> ch = 0 \<or> \<not> is_control ch"

definition row_ok :: "nat \<Rightarrow> nat list \<Rightarrow> bool" where
  "row_ok n row \<longleftrightarrow> length row = n \<and> (\<forall>ch \<in> set row. cell_ok ch)"

definition term_ok :: "vterm \<Rightarrow> bool" where
  "term_ok t \<longleftrightarrow> 0 < tm_cols t \<and> 0 < tm_rows t \<and> length (tm_grid t) = tm_rows t
     \<and> (\<forall>row \<in> set (tm_grid t). row_ok (tm_cols t) row) \<and> tm_r t < tm_rows t \<and> tm_c t \<le> tm_cols t + 1
     \<and> fst (tm_saved t) < tm_rows t \<and> snd (tm_saved t) \<le> tm_cols t + 1
     \<and> tm_top t \<le> tm_bottom t \<and> tm_bottom t < tm_rows t"

text \<open>An operation that neither panics nor breaks the invariant, and keeps the size.\<close>

definition keeps_term :: "vterm \<Rightarrow> vterm option \<Rightarrow> bool" where
  "keeps_term t r \<longleftrightarrow> (\<exists>t'. r = Some t' \<and> term_ok t' \<and> tm_cols t' = tm_cols t \<and> tm_rows t' = tm_rows t)"

lemma keeps_term_Some [simp]:
  "keeps_term t (Some t') \<longleftrightarrow> term_ok t' \<and> tm_cols t' = tm_cols t \<and> tm_rows t' = tm_rows t"
  by (simp add: keeps_term_def)

lemma keeps_term_bind:
  "keeps_term t r \<Longrightarrow> (\<And>t'. term_ok t' \<Longrightarrow> tm_cols t' = tm_cols t \<Longrightarrow> tm_rows t' = tm_rows t \<Longrightarrow> r = Some t'
     \<Longrightarrow> keeps_term t (f t')) \<Longrightarrow> keeps_term t (Option.bind r f)"
  by (auto simp: keeps_term_def)

lemma keeps_term_times:
  assumes "\<And>t. term_ok t \<Longrightarrow> P t \<Longrightarrow> keeps_term t (f t)" "\<And>t t'. f t = Some t' \<Longrightarrow> P t \<Longrightarrow> P t'"
  shows "term_ok t \<Longrightarrow> P t \<Longrightarrow> keeps_term t (times n f t)"
proof (induction n arbitrary: t)
  case (Suc n)
  from assms(1) [OF Suc.prems] obtain t' where t': "f t = Some t'" "term_ok t'" "tm_cols t' = tm_cols t"
    "tm_rows t' = tm_rows t" by (auto simp: keeps_term_def)
  with Suc.IH [OF t'(2)] assms(2) [OF t'(1) Suc.prems(2)] show ?case by (auto simp: keeps_term_def)
qed simp

lemma space_ok [simp]: "cell_ok 32" "cell_ok 0"
  by (simp_all add: cell_ok_def is_control_def)

lemma row_ok_blank [simp]: "row_ok (tm_cols t) (blank_row t)" "row_ok n (replicate n 32)"
  by (auto simp: row_ok_def blank_row_def)

lemma term_new_ok: "term_ok (term_new cols rows)"
  by (auto simp: term_ok_def term_new_def Let_def)

lemma with_row_ok:
  assumes "term_ok t" "\<And>row. row_ok (tm_cols t) row \<Longrightarrow> \<exists>row'. f row = Some row' \<and> row_ok (tm_cols t) row'"
  shows "keeps_term t (with_row f t)"
proof -
  have r: "tm_r t < length (tm_grid t)" using assms(1) by (simp add: term_ok_def)
  then have "row_ok (tm_cols t) (tm_grid t ! tm_r t)" using assms(1) by (simp add: term_ok_def)
  from assms(2) [OF this] obtain row where "f (tm_grid t ! tm_r t) = Some row" "row_ok (tm_cols t) row" by blast
  then show ?thesis using assms(1) r
    by (auto simp: with_row_def term_ok_def dest: set_update_subset_insert [THEN subsetD])
qed

lemma fill_ok:
  "row_ok n row \<Longrightarrow> a \<le> b \<Longrightarrow> b \<le> n \<Longrightarrow> \<exists>row'. fill a b 32 row = Some row' \<and> row_ok n row'"
  by (auto simp: fill_def row_ok_def dest: in_set_takeD in_set_dropD)

lemma length_inserted: "j \<le> length g \<Longrightarrow> length (take j g @ x # drop j g) = Suc (length g)"
  by simp

lemma new_grid_ok:
  "term_ok t \<Longrightarrow> length h = tm_rows t \<Longrightarrow> \<forall>row \<in> set h. row_ok (tm_cols t) row \<Longrightarrow> keeps_term t (Some (t\<lparr>tm_grid := h\<rparr>))"
  by (simp add: term_ok_def)

lemma move_blank_ok:
  assumes "term_ok t" "i < tm_rows t" "j < tm_rows t"
  shows "keeps_term t (move_blank i j t)"
proof -
  have l: "length (tm_grid t) = tm_rows t" and rows: "\<forall>row \<in> set (tm_grid t). row_ok (tm_cols t) row"
    using assms(1) by (simp_all add: term_ok_def)
  obtain g where g: "vec_remove i (tm_grid t) = Some g" "g = take i (tm_grid t) @ drop (Suc i) (tm_grid t)"
    using l assms(2) by (simp add: vec_remove_def)
  then have lg: "Suc (length g) = tm_rows t" and sg: "\<forall>row \<in> set g. row_ok (tm_cols t) row"
    using l assms(2) rows by (auto dest: in_set_takeD in_set_dropD)
  obtain h where h: "vec_insert j (blank_row t) g = Some h" "h = take j g @ blank_row t # drop j g"
    using lg assms(3) by (simp add: vec_insert_def)
  then have "length h = tm_rows t" "\<forall>row \<in> set h. row_ok (tm_cols t) row"
    using lg sg assms(3) length_inserted [of j g "blank_row t"] by (auto dest: in_set_takeD in_set_dropD)
  from new_grid_ok [OF assms(1) this] g(1) h(1) show ?thesis by (simp add: move_blank_def)
qed

lemma scroll_ok:
  assumes "term_ok t"
  shows "keeps_term t (scroll_up n t)" "keeps_term t (scroll_down n t)"
  unfolding scroll_up_def scroll_down_def
  by (rule keeps_term_times [where P = "\<lambda>_. True"]; use assms in \<open>auto intro!: move_blank_ok simp: term_ok_def\<close>)+

lemma line_feed_ok: "term_ok t \<Longrightarrow> keeps_term t (line_feed t)"
  using scroll_ok(1) [of t 1] by (auto simp: line_feed_def term_ok_def)

lemma reverse_index_ok: "term_ok t \<Longrightarrow> keeps_term t (reverse_index t)"
  using scroll_ok(2) [of t 1] by (auto simp: reverse_index_def term_ok_def)

lemma times_keeps:
  "times n f t = Some t' \<Longrightarrow> (\<And>a b. f a = Some b \<Longrightarrow> g b = g a) \<Longrightarrow> g t' = g t"
  by (induction n arbitrary: t) (auto split: bind_splits)

lemma move_blank_col: "move_blank i j t = Some t' \<Longrightarrow> tm_c t' = tm_c t"
  by (auto simp: move_blank_def split: bind_splits)

lemma scroll_up_col: "scroll_up n t = Some t' \<Longrightarrow> tm_c t' = tm_c t"
  unfolding scroll_up_def by (erule times_keeps) (auto split: if_splits dest: move_blank_col)

lemma line_feed_col: "line_feed t = Some t' \<Longrightarrow> tm_c t' = tm_c t"
  by (auto simp: line_feed_def split: if_splits dest: scroll_up_col)

lemma set_cell_ok:
  assumes "term_ok t" "tm_c t < tm_cols t" "\<not> is_control ch"
  shows "keeps_term t (set_cell ch w t)" "set_cell ch w t = Some t' \<Longrightarrow> tm_c t' = tm_c t"
proof -
  show "keeps_term t (set_cell ch w t)"
    unfolding set_cell_def
  proof (rule with_row_ok [OF assms(1)])
    fix row assume row: "row_ok (tm_cols t) row"
    then have r: "row_ok (tm_cols t) (row[tm_c t := ch])"
      using assms(3) by (auto simp: row_ok_def cell_ok_def dest: set_update_subset_insert [THEN subsetD])
    then have "row_ok (tm_cols t) (row[tm_c t := ch, tm_c t + 1 := 0])"
      by (auto simp: row_ok_def dest: set_update_subset_insert [THEN subsetD])
    with r row assms(2) show "\<exists>row'. (do { row \<leftarrow> vec_set (tm_c t) ch row;
        if w = 2 \<and> tm_c t + 1 < tm_cols t then vec_set (tm_c t + 1) 0 row else Some row }) = Some row'
        \<and> row_ok (tm_cols t) row'"
      by (simp add: vec_set_def row_ok_def)
  qed
  show "set_cell ch w t = Some t' \<Longrightarrow> tm_c t' = tm_c t"
    by (auto simp: set_cell_def with_row_def split: if_splits bind_splits)
qed

lemma char_width_cases: "char_width ch = 0 \<or> char_width ch = 1 \<or> char_width ch = 2"
  by (simp add: char_width_def)

lemma put_ok:
  assumes "term_ok t" "\<not> is_control ch"
  shows "keeps_term t (put ch t)"
proof (cases "char_width ch = 0")
  case True
  then show ?thesis using assms(1) by (simp add: put_def)
next
  case False
  then have w: "char_width ch = 1 \<or> char_width ch = 2" using char_width_cases [of ch] by simp
  define r where "r = (if tm_c t + char_width ch > tm_cols t then line_feed (t\<lparr>tm_c := 0\<rparr>) else Some t)"
  have "term_ok (t\<lparr>tm_c := 0\<rparr>)" using assms(1) by (simp add: term_ok_def)
  from line_feed_ok [OF this] have "keeps_term t r" using assms(1) by (auto simp: r_def keeps_term_def)
  then obtain t1 where t1: "r = Some t1" "term_ok t1" "tm_cols t1 = tm_cols t" "tm_rows t1 = tm_rows t"
    by (auto simp: keeps_term_def)
  have c: "tm_c t1 < tm_cols t1"
  proof (cases "tm_c t + char_width ch > tm_cols t")
    case True
    then have "tm_c t1 = 0" using t1(1) line_feed_col [of "t\<lparr>tm_c := 0\<rparr>" t1] by (simp add: r_def)
    with t1(2) show ?thesis by (simp add: term_ok_def)
  next
    case False
    with t1(1) w show ?thesis by (auto simp: r_def)
  qed
  from set_cell_ok(1) [OF t1(2) c assms(2)] obtain t2 where t2: "set_cell ch (char_width ch) t1 = Some t2" "term_ok t2"
    "tm_cols t2 = tm_cols t1" "tm_rows t2 = tm_rows t1" by (auto simp: keeps_term_def)
  from set_cell_ok(2) [OF t1(2) c assms(2) t2(1)] have "tm_c t2 + char_width ch \<le> tm_cols t2 + 1"
    using c w t2(3) by auto
  then have "term_ok (t2\<lparr>tm_c := tm_c t2 + char_width ch\<rparr>)" using t2(2) by (simp add: term_ok_def)
  moreover have "put ch t = Some (t2\<lparr>tm_c := tm_c t2 + char_width ch\<rparr>)"
    using False t1(1) t2(1) by (simp add: put_def r_def Let_def)
  ultimately show ?thesis using t1 t2 by simp
qed

lemma erase_line_ok: "term_ok t \<Longrightarrow> keeps_term t (erase_line mode t)"
  unfolding erase_line_def Let_def by (auto intro!: with_row_ok fill_ok split: prod.splits)

lemma blank_rows_ok: "term_ok t \<Longrightarrow> b \<le> tm_rows t \<Longrightarrow> keeps_term t (blank_rows a b t)"
  by (auto simp: blank_rows_def term_ok_def set_zip in_set_enumerate_eq)

lemma keeps_term_trans:
  "keeps_term t' r \<Longrightarrow> tm_cols t' = tm_cols t \<Longrightarrow> tm_rows t' = tm_rows t \<Longrightarrow> keeps_term t r"
  by (auto simp: keeps_term_def)

lemma row_below: "term_ok t \<Longrightarrow> tm_r t \<le> tm_rows t"
  by (simp add: term_ok_def)

lemma erase_display_ok: "term_ok t \<Longrightarrow> keeps_term t (erase_display mode t)"
  unfolding erase_display_def
  by (auto intro!: keeps_term_bind erase_line_ok blank_rows_ok keeps_term_trans [OF blank_rows_ok]
      dest: row_below)

lemma times_row_ok:
  assumes "row_ok k row" "\<And>row. row_ok k row \<Longrightarrow> \<exists>row'. f row = Some row' \<and> row_ok k row'"
  shows "\<exists>row'. times n f row = Some row' \<and> row_ok k row'"
  using assms(1)
proof (induction n arbitrary: row)
  case (Suc n)
  from assms(2) [OF Suc.prems] obtain row' where "f row = Some row'" "row_ok k row'" by blast
  with Suc.IH show ?case by auto
qed simp

lemma row_ok_parts: "row_ok k row \<Longrightarrow> x \<in> set (take i row) \<union> set (drop j row) \<Longrightarrow> cell_ok x"
  by (auto simp: row_ok_def dest: in_set_takeD in_set_dropD)

lemma remove_push_ok:
  "row_ok k row \<Longrightarrow> \<exists>row'. (if c < length row then do { row \<leftarrow> vec_remove c row; Some (row @ [32]) } else Some row)
     = Some row' \<and> row_ok k row'"
  using row_ok_parts [of k row] by (auto simp: vec_remove_def) (auto simp: row_ok_def)

lemma insert_pop_ok:
  "row_ok k row \<Longrightarrow> \<exists>row'. (if c < length row then do { row \<leftarrow> vec_insert c 32 row; Some (butlast row) } else Some row)
     = Some row' \<and> row_ok k row'"
  by (auto simp: vec_insert_def) (auto simp: row_ok_def dest!: in_set_butlastD in_set_takeD in_set_dropD)

lemma csi_delete_chars_ok: "term_ok t \<Longrightarrow> keeps_term t (csi_delete_chars n t)"
  unfolding csi_delete_chars_def by (intro with_row_ok times_row_ok remove_push_ok)

lemma csi_insert_chars_ok: "term_ok t \<Longrightarrow> keeps_term t (csi_insert_chars n t)"
  unfolding csi_insert_chars_def by (intro with_row_ok times_row_ok insert_pop_ok)

lemma csi_erase_chars_ok: "term_ok t \<Longrightarrow> tm_c t + n < USIZE \<Longrightarrow> keeps_term t (csi_erase_chars n t)"
  unfolding csi_erase_chars_def by (intro with_row_ok fill_ok) (auto simp: wadd_def)

lemma move_blank_region:
  assumes "term_ok t" "in_region t"
  shows "keeps_term t (times n (\<lambda>t. move_blank (tm_bottom t) (tm_r t) t) t)"
    "keeps_term t (times n (\<lambda>t. move_blank (tm_r t) (tm_bottom t) t) t)"
  by (rule keeps_term_times [where P = "\<lambda>_. True"]; use assms in \<open>auto intro!: move_blank_ok simp: term_ok_def\<close>)+

lemma set_region_ok: "term_ok t \<Longrightarrow> keeps_term t (Some (csi_set_region hi lo t))"
  by (auto simp: csi_set_region_def Let_def term_ok_def)

lemma keeps_if: "(b \<Longrightarrow> keeps_term t x) \<Longrightarrow> (\<not> b \<Longrightarrow> keeps_term t y) \<Longrightarrow> keeps_term t (if b then x else y)"
  by simp

lemma cursor_ok:
  "term_ok t \<Longrightarrow> r < tm_rows t \<Longrightarrow> c \<le> tm_cols t + 1 \<Longrightarrow> keeps_term t (Some (t\<lparr>tm_r := r, tm_c := c\<rparr>))"
  "term_ok t \<Longrightarrow> r < tm_rows t \<Longrightarrow> keeps_term t (Some (t\<lparr>tm_r := r\<rparr>))"
  "term_ok t \<Longrightarrow> c \<le> tm_cols t + 1 \<Longrightarrow> keeps_term t (Some (t\<lparr>tm_c := c\<rparr>))"
  by (simp_all add: term_ok_def)

lemma term_okD:
  assumes "term_ok t"
  shows "tm_r t - n < tm_rows t" "tm_c t - n \<le> tm_cols t + 1" "min n (tm_rows t - 1) < tm_rows t"
    "min n (tm_cols t - 1) \<le> tm_cols t + 1" "0 < tm_rows t" "0 \<le> tm_cols t + 1"
    "fst (tm_saved t) < tm_rows t" "snd (tm_saved t) \<le> tm_cols t + 1"
  using assms by (auto simp: term_ok_def)

lemma csi_ok:
  assumes t: "term_ok t" and n: "fin = CHR ''X'' \<Longrightarrow> tm_c t + param ps 0 1 < USIZE"
  shows "keeps_term t (csi private ps fin t)"
proof -
  have save: "keeps_term t (Some (t\<lparr>tm_saved := (tm_r t, tm_c t)\<rparr>))" "keeps_term t (Some t)"
    using t by (simp_all add: term_ok_def)
  have alt: "keeps_term t (do { t \<leftarrow> erase_display 2 t; Some (t\<lparr>tm_r := 0, tm_c := 0\<rparr>) })"
    using erase_display_ok [OF t, of 2] by (auto simp: keeps_term_def term_ok_def)
  show ?thesis
    unfolding csi_def Let_def
    by (intro keeps_if)
      (use t n save alt term_okD [OF t] in \<open>simp_all add: cursor_ok erase_display_ok erase_line_ok csi_erase_chars_ok
        csi_delete_chars_ok csi_insert_chars_ok move_blank_region scroll_ok set_region_ok del: keeps_term_Some\<close>)
qed

section \<open>The parser\<close>

definition machine_ok :: "machine \<Rightarrow> bool" where
  "machine_ok m \<longleftrightarrow> term_ok (vm_term m)"

definition keeps_machine :: "machine \<Rightarrow> machine option \<Rightarrow> bool" where
  "keeps_machine m r \<longleftrightarrow> (\<exists>m'. r = Some m' \<and> machine_ok m' \<and> tm_cols (vm_term m') = tm_cols (vm_term m)
     \<and> tm_rows (vm_term m') = tm_rows (vm_term m))"

lemma on_term_ok:
  "keeps_term (vm_term m) (f (vm_term m)) \<Longrightarrow> keeps_machine m (on_term f m)"
  by (auto simp: keeps_term_def keeps_machine_def on_term_def machine_ok_def)

text \<open>The digits since the last character that can begin a control sequence.\<close>

definition load_ok :: "nat \<Rightarrow> machine \<Rightarrow> bool" where
  "load_ok k m \<longleftrightarrow> (vm_state m = Csi \<longrightarrow>
     (\<forall>v. vm_current m = Some v \<longrightarrow> v < 10 ^ k) \<and> (\<forall>p \<in> set (vm_params m). p < 10 ^ k))"

definition is_digit :: "nat \<Rightarrow> bool" where
  "is_digit ch \<longleftrightarrow> 48 \<le> ch \<and> ch \<le> 57"

definition next_load :: "nat \<Rightarrow> nat \<Rightarrow> nat" where
  "next_load k ch = (if ch = 0x1B \<or> ch = 0x9B then 0 else if is_digit ch then k + 1 else k)"

lemma load_mono: "load_ok k m \<Longrightarrow> k \<le> k' \<Longrightarrow> load_ok k' m"
proof -
  assume a: "load_ok k m" "k \<le> k'"
  then have "(10 :: nat) ^ k \<le> 10 ^ k'" by (simp add: power_increasing)
  with a(1) show ?thesis by (auto simp: load_ok_def intro: less_le_trans)
qed

lemma ground_ok: "machine_ok m \<Longrightarrow> keeps_machine m (ground_char ch m)"
  unfolding ground_char_def
  by (auto intro!: on_term_ok put_ok line_feed_ok simp: machine_ok_def is_control_def)
    (auto simp: keeps_machine_def machine_ok_def in_state_def begin_csi_def term_ok_def)

lemma ground_state: "ground_char ch m = Some m' \<Longrightarrow> vm_state m = Ground \<Longrightarrow> load_ok 0 m'"
  by (auto simp: ground_char_def load_ok_def in_state_def begin_csi_def on_term_def split: if_splits bind_splits)

lemma keeps_machine_if: "(b \<Longrightarrow> keeps_machine m x) \<Longrightarrow> (\<not> b \<Longrightarrow> keeps_machine m y) \<Longrightarrow> keeps_machine m (if b then x else y)"
  by simp

lemma on_term_state: "keeps_term (vm_term m) (f (vm_term m)) \<Longrightarrow> keeps_machine m (on_term f (in_state s m))"
  by (auto simp: keeps_term_def keeps_machine_def on_term_def machine_ok_def in_state_def)

lemma keeps_machine_state:
  "machine_ok m \<Longrightarrow> keeps_machine m (Some (in_state s m))" "machine_ok m \<Longrightarrow> keeps_machine m (Some m)"
  "machine_ok m \<Longrightarrow> keeps_machine m (Some (begin_csi m))" "machine_ok m \<Longrightarrow> keeps_machine m (Some (begin_csi (in_state s m)))"
  "machine_ok m \<Longrightarrow> keeps_machine m (Some (in_state s (in_state s' m)))"
  by (simp_all add: keeps_machine_def machine_ok_def in_state_def begin_csi_def)

lemma escape_ok:
  assumes "machine_ok m"
  shows "keeps_machine m (escape_char ch m)"
proof -
  let ?t = "vm_term m"
  have t: "term_ok ?t" using assms by (simp add: machine_ok_def)
  have "keeps_term ?t (line_feed (?t\<lparr>tm_c := 0\<rparr>))"
    using line_feed_ok [of "?t\<lparr>tm_c := 0\<rparr>"] t by (auto simp: term_ok_def keeps_term_def)
  moreover have "keeps_term ?t (Some (term_new (tm_cols ?t) (tm_rows ?t)))"
    using term_new_ok [of "tm_cols ?t" "tm_rows ?t"] t by (auto simp: term_new_def Let_def term_ok_def)
  moreover have "keeps_term ?t (Some (?t\<lparr>tm_saved := (tm_r ?t, tm_c ?t)\<rparr>))" using t by (simp add: term_ok_def)
  moreover have "keeps_term ?t (Some (?t\<lparr>tm_r := fst (tm_saved ?t), tm_c := snd (tm_saved ?t)\<rparr>))"
    using t by (simp add: term_ok_def)
  ultimately show ?thesis
    unfolding escape_char_def Let_def
    by (intro keeps_machine_if)
      (use assms line_feed_ok [OF t] reverse_index_ok [OF t] in
        \<open>simp_all add: keeps_machine_state on_term_state del: keeps_term_Some\<close>)
qed

lemma escape_state: "escape_char ch m = Some m' \<Longrightarrow> load_ok 0 m'"
  by (auto simp: escape_char_def Let_def load_ok_def in_state_def begin_csi_def on_term_def split: if_splits bind_splits)

lemma flush_param_simps [simp]: "vm_term (flush_param m) = vm_term m" "vm_private (flush_param m) = vm_private m"
  by (simp_all add: flush_param_def split: option.splits)

lemma param_le: "\<forall>p \<in> set ps. p < 10 ^ k \<Longrightarrow> param ps 0 1 \<le> 10 ^ k"
  by (auto simp: param_def intro: less_imp_le)

lemma csi_char_ok:
  assumes m: "machine_ok m" "vm_state m = Csi" and k: "load_ok k m" "tm_cols (vm_term m) + 2 + 10 ^ k \<le> USIZE"
  shows "keeps_machine m (csi_char ch m)"
proof -
  have "\<forall>p \<in> set (vm_params (flush_param m)). p < 10 ^ k"
    using k(1) m(2) by (auto simp: load_ok_def flush_param_def split: option.splits)
  then have "tm_c (vm_term m) + param (vm_params (flush_param m)) 0 1 < USIZE"
    using param_le [of "vm_params (flush_param m)" k] k(2) m(1) by (auto simp: machine_ok_def term_ok_def)
  then have "keeps_term (vm_term m) (csi (vm_private m) (vm_params (flush_param m)) (char_of ch) (vm_term m))"
    using m(1) by (intro csi_ok) (auto simp: machine_ok_def)
  then have "keeps_machine m (map_option (in_state Ground)
      (on_term (csi (vm_private m) (vm_params (flush_param m)) (char_of ch)) (flush_param m)))"
    by (auto simp: keeps_term_def keeps_machine_def on_term_def machine_ok_def in_state_def)
  then show ?thesis
    unfolding csi_char_def Let_def flush_param_simps
    by (intro keeps_machine_if)
      (use m in \<open>simp_all add: keeps_machine_state\<close>, auto simp: keeps_machine_def machine_ok_def)
qed

lemma sat_mul_add_less: "v < 10 ^ k \<Longrightarrow> d \<le> 9 \<Longrightarrow> sat_mul_add v d < 10 ^ (k + 1)"
proof -
  assume "v < 10 ^ k" "d \<le> 9"
  then have "v * 10 + d < 10 ^ (k + 1)" by simp
  then show ?thesis by (auto simp: sat_mul_add_def)
qed

lemma csi_state:
  assumes "csi_char ch m = Some m'" "vm_state m = Csi" "load_ok k m"
  shows "load_ok (next_load k ch) m'"
proof (cases "is_digit ch")
  case True
  then have "sat_mul_add (case vm_current m of Some v \<Rightarrow> v | None \<Rightarrow> 0) (ch - 48) < 10 ^ (k + 1)"
    using assms(2,3) by (intro sat_mul_add_less) (auto simp: load_ok_def is_digit_def split: option.splits)
  moreover have "p < 10 * 10 ^ k" if "p \<in> set (vm_params m)" for p
    using assms(2,3) that by (force simp: load_ok_def)
  ultimately show ?thesis using assms(1) True by (auto simp: csi_char_def is_digit_def next_load_def load_ok_def)
next
  case False
  then show ?thesis using assms
    by (auto simp: csi_char_def is_digit_def next_load_def load_ok_def in_state_def Let_def
        split: if_splits option.splits)
qed

lemma char_ok:
  assumes "machine_ok m" "load_ok k m" "tm_cols (vm_term m) + 2 + 10 ^ k \<le> USIZE"
  shows "\<exists>m'. vt_char ch m = Some m' \<and> machine_ok m' \<and> tm_cols (vm_term m') = tm_cols (vm_term m)
    \<and> tm_rows (vm_term m') = tm_rows (vm_term m) \<and> load_ok (next_load k ch) m'"
proof (cases "vm_state m")
  case Ground
  with ground_ok [OF assms(1), of ch] ground_state [of ch m] load_mono [of 0] show ?thesis
    by (auto simp: vt_char_def keeps_machine_def)
next
  case Escape
  with escape_ok [OF assms(1), of ch] escape_state [of ch m] load_mono [of 0] show ?thesis
    by (auto simp: vt_char_def keeps_machine_def)
next
  case Csi
  with csi_char_ok [OF assms(1) Csi assms(2,3), of ch] csi_state [of ch m _ k] assms(2) show ?thesis
    by (auto simp: vt_char_def keeps_machine_def)
qed (use assms(1) in \<open>auto simp: vt_char_def load_ok_def machine_ok_def in_state_def\<close>)

section \<open>Panics\<close>

fun calm :: "nat \<Rightarrow> nat list \<Rightarrow> bool" where
  "calm k [] \<longleftrightarrow> True"
| "calm k (ch # chs) \<longleftrightarrow> next_load k ch \<le> 18 \<and> calm (next_load k ch) chs"

lemma calm_run:
  assumes "machine_ok m" "load_ok k m" "tm_cols (vm_term m) + 2 + 10 ^ 18 \<le> USIZE" "k \<le> 18" "calm k chs"
  shows "\<exists>m'. vt_run chs m = Some m'"
  using assms
proof (induction chs arbitrary: k m)
  case (Cons ch chs)
  have "(10 :: nat) ^ k \<le> 10 ^ 18" using Cons.prems(4) by (intro power_increasing) auto
  with Cons.prems(3) have "tm_cols (vm_term m) + 2 + 10 ^ k \<le> USIZE" by linarith
  from char_ok [OF Cons.prems(1,2) this, of ch] obtain m' where m': "vt_char ch m = Some m'" "machine_ok m'"
    "tm_cols (vm_term m') = tm_cols (vm_term m)" "load_ok (next_load k ch) m'" by blast
  from Cons.IH [OF m'(2,4)] Cons.prems(3,5) m'(1,3) show ?case by simp
qed simp

lemma machine_new_ok: "machine_ok (machine_new cols rows)" "load_ok k (machine_new cols rows)"
  "vm_state (machine_new cols rows) = Ground" "tm_cols (vm_term (machine_new cols rows)) = max cols 1"
  "tm_rows (vm_term (machine_new cols rows)) = max rows 1"
  using term_new_ok [of cols rows]
  by (simp_all add: machine_ok_def machine_new_def load_ok_def term_new_def Let_def)

lemma calm_render:
  assumes "calm 0 (lossy_chars (map byte bytes))" and "max cols 1 + 2 + 10 ^ 18 \<le> USIZE"
  shows "\<exists>s. render bytes cols rows = Some s"
proof -
  have "tm_cols (vm_term (machine_new cols rows)) + 2 + 10 ^ 18 \<le> USIZE" using assms(2) by (simp add: machine_new_ok)
  from calm_run [OF machine_new_ok(1,2) this _ assms(1)] show ?thesis by (auto simp: render_def)
qed


lemma wadd_max: "0 < c \<Longrightarrow> c < USIZE \<Longrightarrow> wadd c (USIZE - 1) = c - 1"
proof -
  assume c: "0 < c" "c < USIZE"
  then have "c + (USIZE - 1) = USIZE + (c - 1)" by linarith
  then have "wadd c (USIZE - 1) = (USIZE + (c - 1)) mod USIZE" by (simp only: wadd_def)
  also have "\<dots> = (c - 1) mod USIZE" by (rule mod_add_self1)
  also have "\<dots> = c - 1" using c(2) by simp
  finally show ?thesis .
qed

lemma erase_chars_panics:
  assumes "0 < tm_c t" "tm_c t \<le> tm_cols t" "tm_cols t < USIZE"
  shows "csi_erase_chars (USIZE - 1) t = None"
proof -
  have "wadd (tm_c t) (USIZE - 1) = tm_c t - 1" using assms by (intro wadd_max) auto
  then have "fill (min (tm_c t) (tm_cols t)) (min (wadd (tm_c t) (USIZE - 1)) (tm_cols t)) 32 row = None" for row :: "nat list"
    using assms by (simp add: fill_def)
  then show ?thesis by (simp add: csi_erase_chars_def with_row_def)
qed

text \<open>The number itself, read digit by digit.\<close>

definition max_digits :: "nat list" where
  "max_digits = [49, 56, 52, 52, 54, 55, 52, 52, 48, 55, 51, 55, 48, 57, 53, 53, 49, 54, 49, 53]"

fun read_number :: "nat option \<Rightarrow> nat list \<Rightarrow> nat option" where
  "read_number v [] = v"
| "read_number v (ch # chs) = read_number (Some (sat_mul_add (case v of Some v \<Rightarrow> v | None \<Rightarrow> 0) (ch - 48))) chs"

lemma digits_run:
  "vm_state m = Csi \<Longrightarrow> list_all is_digit ds \<Longrightarrow> vt_run (ds @ chs) m = vt_run chs (m\<lparr>vm_current := read_number (vm_current m) ds\<rparr>)"
proof (induction ds arbitrary: m)
  case (Cons d ds)
  then have "vt_char d m = Some (m\<lparr>vm_current := Some (sat_mul_add (case vm_current m of Some v \<Rightarrow> v | None \<Rightarrow> 0) (d - 48))\<rparr>)"
    by (simp add: vt_char_def csi_char_def is_digit_def)
  with Cons show ?case by simp
qed simp

lemma max_number: "read_number None max_digits = Some (USIZE - 1)"
  by (simp add: max_digits_def sat_mul_add_def USIZE_def)

lemma erase_max_panics:
  assumes "vm_state m = Ground" "0 < tm_c (vm_term m)" "tm_c (vm_term m) \<le> tm_cols (vm_term m)" "tm_cols (vm_term m) < USIZE"
  shows "vt_run (27 # 91 # max_digits @ [88]) m = None"
proof -
  let ?m = "begin_csi (in_state Ground (in_state Escape m))"
  have "vt_char 27 m = Some (in_state Escape m)" using assms(1) by (simp add: vt_char_def ground_char_def)
  moreover have "vt_char 91 (in_state Escape m) = Some ?m"
    by (simp add: vt_char_def escape_char_def in_state_def)
  moreover have "vt_run (max_digits @ [88]) ?m = vt_run [88] (?m\<lparr>vm_current := Some (USIZE - 1)\<rparr>)"
    using digits_run [of ?m max_digits "[88]"] max_number
    by (simp add: begin_csi_def in_state_def max_digits_def is_digit_def)
  moreover have "vt_char 88 (?m\<lparr>vm_current := Some (USIZE - 1)\<rparr>) = None"
  proof -
    let ?m' = "flush_param (?m\<lparr>vm_current := Some (USIZE - 1)\<rparr>)"
    have p: "vm_params ?m' = [USIZE - 1]" "vm_term ?m' = vm_term m"
      by (simp_all add: flush_param_def begin_csi_def in_state_def)
    have "param [USIZE - 1] 0 1 = USIZE - 1" by (simp add: param_def USIZE_def)
    then have "csi (vm_private ?m') [USIZE - 1] (CHR ''X'') (vm_term m) = None"
      using erase_chars_panics [OF assms(2-4)] by (simp add: csi_def Let_def)
    moreover have "(char_of (88 :: nat) :: char) = CHR ''X''" by code_simp
    ultimately have "on_term (csi (vm_private ?m') (vm_params ?m') (char_of (88 :: nat))) ?m' = None"
      unfolding on_term_def p by simp
    moreover have "vm_state (?m\<lparr>vm_current := Some (USIZE - 1)\<rparr>) = Csi" by (simp add: begin_csi_def)
    ultimately show ?thesis unfolding vt_char_def csi_char_def Let_def by simp
  qed
  ultimately show ?thesis by simp
qed

lemma lossy_chars_ascii: "list_all (\<lambda>b. b < 128) bs \<Longrightarrow> lossy_chars bs = bs"
proof (induction bs)
  case (Cons b bs)
  then have "utf8_front (b # bs) = (True, 1)" by (simp add: utf8_front_def utf8_width_def Let_def)
  with Cons show ?case by (simp add: lossy_chars.simps [of "b # bs"] code_point_def)
qed (simp add: lossy_chars.simps)

text \<open>C2: A longer number makes the program panic: after one printed character, an erase-characters sequence with
  the number 18446744073709551615 slices a row backwards.\<close>

theorem long_number_panics:
  "render (''a'' @ [CHR 0x1B] @ ''[18446744073709551615X'') 80 24 = None"
proof -
  have chs: "lossy_chars (map byte (''a'' @ [CHR 0x1B] @ ''[18446744073709551615X'')) = 97 # 27 # 91 # max_digits @ [88]"
  proof -
    have "map byte (''a'' @ [CHR 0x1B] @ ''[18446744073709551615X'') = 97 # 27 # 91 # max_digits @ [88]"
      by (simp add: byte_def max_digits_def)
    moreover have "lossy_chars (97 # 27 # 91 # max_digits @ [88]) = 97 # 27 # 91 # max_digits @ [88]"
      by (rule lossy_chars_ascii) (simp add: max_digits_def)
    ultimately show ?thesis by (simp only:)
  qed
  let ?m = "machine_new 80 24"
  have a: "char_width 97 = 1" by (simp add: char_width_def in_ranges_def ZERO_WIDTH_def DOUBLE_WIDTH_def)
  have t: "term_ok (vm_term ?m)" "tm_c (vm_term ?m) = 0" "tm_cols (vm_term ?m) = 80"
    using machine_new_ok(1) [of 80 24] by (simp_all add: machine_ok_def machine_new_def term_new_def Let_def)
  from set_cell_ok [OF t(1), of 97 1] t obtain t1 where t1: "set_cell 97 1 (vm_term ?m) = Some t1" "tm_c t1 = 0"
    "tm_cols t1 = 80" by (auto simp: keeps_term_def is_control_def)
  then have "put 97 (vm_term ?m) = Some (t1\<lparr>tm_c := 1\<rparr>)" using a t by (simp add: put_def)
  then have "vt_char 97 ?m = Some (?m\<lparr>vm_term := t1\<lparr>tm_c := 1\<rparr>\<rparr>)"
    by (simp add: vt_char_def machine_new_ok ground_char_def is_control_def on_term_def)
  moreover have "vt_run (27 # 91 # max_digits @ [88]) (?m\<lparr>vm_term := t1\<lparr>tm_c := 1\<rparr>\<rparr>) = None"
    using t1 by (intro erase_max_panics) (simp_all add: machine_new_def USIZE_def)
  ultimately show ?thesis unfolding render_def chs by simp
qed

section \<open>What leaves the terminal\<close>

lemma with_row_keeps:
  assumes "term_ok t" "with_row f t = Some t'"
    "\<And>row row'. row_ok (tm_cols t) row \<Longrightarrow> f row = Some row' \<Longrightarrow> row_ok (tm_cols t) row'"
  shows "keeps_term t (Some t')"
proof -
  from assms(2) obtain row where row: "tm_r t < length (tm_grid t)" "f (tm_grid t ! tm_r t) = Some row"
    "t' = t\<lparr>tm_grid := (tm_grid t)[tm_r t := row]\<rparr>" by (auto simp: with_row_def split: if_splits bind_splits)
  moreover have "row_ok (tm_cols t) (tm_grid t ! tm_r t)" using assms(1) row(1) by (simp add: term_ok_def)
  ultimately show ?thesis using assms(1) assms(3) [OF _ row(2)]
    by (auto simp: term_ok_def dest: set_update_subset_insert [THEN subsetD])
qed

lemma csi_keeps:
  assumes t: "term_ok t" and c: "csi private ps fin t = Some t'"
  shows "keeps_term t (Some t')"
proof (cases "fin = CHR ''X''")
  case True
  then have "csi_erase_chars (param ps 0 1) t = Some t'" using c by (simp add: csi_def Let_def)
  then show ?thesis unfolding csi_erase_chars_def
    by (rule with_row_keeps [OF t]) (auto simp: fill_def row_ok_def split: if_splits dest!: in_set_takeD in_set_dropD)
next
  case False
  then have "keeps_term t (csi private ps fin t)" by (intro csi_ok [OF t]) simp
  with c show ?thesis by simp
qed

lemma vt_char_keeps: "machine_ok m \<Longrightarrow> vt_char ch m = Some m' \<Longrightarrow> keeps_machine m (Some m')"
proof (cases "vm_state m")
  case Csi
  assume m: "machine_ok m" "vt_char ch m = Some m'"
  then have "csi_char ch m = Some m'" using Csi by (simp add: vt_char_def)
  then have "vm_term m' = vm_term m \<or> (\<exists>ps fin. csi (vm_private m) ps fin (vm_term m) = Some (vm_term m'))"
    by (auto simp: csi_char_def Let_def on_term_def in_state_def split: if_splits bind_splits)
  then show ?thesis using m(1) csi_keeps [of "vm_term m"]
    by (auto simp: keeps_machine_def machine_ok_def)
qed (use ground_ok [of m ch] escape_ok [of m ch] in
  \<open>auto simp: vt_char_def keeps_machine_def machine_ok_def in_state_def split: if_splits\<close>)

lemma vt_run_keeps:
  "machine_ok m \<Longrightarrow> vt_run chs m = Some m' \<Longrightarrow> keeps_machine m (Some m')"
proof (induction chs arbitrary: m)
  case (Cons ch chs)
  then obtain m1 where m1: "vt_char ch m = Some m1" "vt_run chs m1 = Some m'" by (auto split: bind_splits)
  from vt_char_keeps [OF Cons.prems(1) m1(1)] Cons.IH [OF _ m1(2)] show ?case by (auto simp: keeps_machine_def)
qed (simp add: keeps_machine_def)

lemma set_join_lines: "set (join_lines rows) \<subseteq> insert 10 (\<Union> (set ` set rows))"
  by (induction rows rule: join_lines.induct) auto

lemma set_trim_row: "set (trim_row s) \<subseteq> set s" "length (trim_row s) \<le> length s"
  using set_dropWhileD [of _ is_space "rev s"] length_dropWhile_le [of is_space "rev s"]
  by (auto simp: trim_row_def)

text \<open>C40: No control character leaves the screen, the ESC of every escape sequence included. The rows are at most
  as many and as long as the grid's, without blanks at their ends, and no blank rows end them; the text is the
  rows joined by line feeds, its only control characters.\<close>

theorem screen_is_clean:
  assumes "render bytes cols rows = Some s"
  shows "(\<forall>row \<in> set (sc_rows s). \<forall>ch \<in> set row. \<not> is_control ch)
    \<and> (\<forall>ch \<in> set (sc_text s). is_control ch \<longrightarrow> ch = 10)
    \<and> sc_text s = join_lines (sc_rows s)
    \<and> length (sc_rows s) \<le> max rows 1 \<and> (\<forall>row \<in> set (sc_rows s). length row \<le> max cols 1)
    \<and> (\<forall>row \<in> set (sc_rows s). row \<noteq> [] \<longrightarrow> \<not> is_space (last row))
    \<and> (sc_rows s \<noteq> [] \<longrightarrow> last (sc_rows s) \<noteq> [])"
proof -
  from assms obtain m where run: "vt_run (lossy_chars (map byte bytes)) (machine_new cols rows) = Some m"
    and s: "s = into_screen (vm_term m)" by (auto simp: render_def split: bind_splits)
  from vt_run_keeps [OF machine_new_ok(1) run] have t: "term_ok (vm_term m)" "tm_cols (vm_term m) = max cols 1"
    "tm_rows (vm_term m) = max rows 1" by (auto simp: keeps_machine_def machine_ok_def machine_new_ok)
  let ?line = "\<lambda>row. trim_row (filter (\<lambda>c. c \<noteq> 0) row)"
  let ?rows = "map ?line (tm_grid (vm_term m))"
  have sc: "sc_rows s = rev (dropWhile (\<lambda>row. row = []) (rev ?rows))" "sc_text s = join_lines (sc_rows s)"
    by (simp_all add: s into_screen_def Let_def)
  have sub: "set (sc_rows s) \<subseteq> set ?rows" unfolding sc(1) using set_dropWhileD by fastforce
  have clean: "\<not> is_control ch" if row: "row \<in> set (sc_rows s)" and ch: "ch \<in> set row" for row ch
  proof -
    from row sub obtain g where g: "g \<in> set (tm_grid (vm_term m))" "row = ?line g" by auto
    with ch set_trim_row(1) have "ch \<in> set g" "ch \<noteq> 0" by fastforce+
    then show ?thesis using t(1) g(1) by (auto simp: term_ok_def row_ok_def cell_ok_def)
  qed
  have len: "length row \<le> max cols 1" if row: "row \<in> set (sc_rows s)" for row
  proof -
    from row sub obtain g where g: "g \<in> set (tm_grid (vm_term m))" "row = ?line g" by auto
    then have "length row \<le> length g" using set_trim_row(2) length_filter_le le_trans by blast
    then show ?thesis using t(1,2) g(1) by (auto simp: term_ok_def row_ok_def)
  qed
  have ends: "\<not> is_space (last row)" if row: "row \<in> set (sc_rows s)" "row \<noteq> []" for row
  proof -
    from row sub obtain g where "row = trim_row g" by auto
    with row(2) show ?thesis using hd_dropWhile [of is_space "rev g"] by (simp add: trim_row_def last_rev)
  qed
  have "length (sc_rows s) \<le> max rows 1"
    using length_dropWhile_le [of "\<lambda>row. row = []" "rev ?rows"] t(1,3) by (simp add: sc(1) term_ok_def)
  moreover have "last (sc_rows s) \<noteq> []" if "sc_rows s \<noteq> []"
    using that hd_dropWhile [of "\<lambda>row. row = []" "rev ?rows"] by (simp add: sc(1) last_rev)
  moreover have "\<forall>ch \<in> set (sc_text s). is_control ch \<longrightarrow> ch = 10"
    using clean set_join_lines [of "sc_rows s"] unfolding sc(2) by blast
  ultimately show ?thesis using clean len ends sc(2) by blast
qed

section \<open>String sequences\<close>

lemma str_run:
  "vm_state m = StrSeq \<Longrightarrow> \<forall>ch \<in> set body. ch \<notin> {7, 0x9C, 0x1B} \<Longrightarrow> vt_run (body @ chs) m = vt_run chs m"
  by (induction body) (auto simp: vt_char_def)

lemma vt_run_append: "vt_run (xs @ ys) m = do { m \<leftarrow> vt_run xs m; vt_run ys m }"
  by (induction xs arbitrary: m) (auto split: bind_splits)

text \<open>String sequences leave no trace: a title, hyperlink or device control string ended by BEL or by
  ESC and a backslash, whatever its body, changes nothing of what the terminal shows or does next.\<close>

theorem string_sequences_are_skipped:
  assumes "vt_run before (machine_new cols rows) = Some m" and "vm_state m = Ground"
    and "intro \<in> set (map of_char '']PX^_'')" and "\<forall>ch \<in> set body. ch \<notin> {7, 0x9C, 0x1B}"
    and "ending = [7] \<or> ending = [0x9C] \<or> ending = [0x1B, 0x5C]"
  shows "vt_run (before @ 0x1B # intro # body @ ending @ rest) (machine_new cols rows)
    = vt_run (before @ rest) (machine_new cols rows)"
proof -
  let ?m = "in_state StrSeq (in_state Ground (in_state Escape m))"
  have same: "m\<lparr>vm_state := Ground\<rparr> = m" using assms(2) by (cases m) simp
  have "vt_char 0x1B m = Some (in_state Escape m)" using assms(2) by (simp add: vt_char_def ground_char_def)
  moreover have "vt_char intro (in_state Escape m) = Some ?m"
    using assms(3) by (auto simp: vt_char_def escape_char_def in_state_def)
  moreover have "vt_run (body @ ending @ rest) ?m = vt_run (ending @ rest) ?m"
    using assms(4) by (intro str_run) (simp_all add: in_state_def)
  moreover have "vt_run (ending @ rest) ?m = vt_run rest m"
    using assms(2,5) by (auto simp: vt_char_def in_state_def same)
  ultimately have "vt_run (0x1B # intro # body @ ending @ rest) m = vt_run rest m" by simp
  then show ?thesis using assms(1) by (simp add: vt_run_append)
qed

section \<open>Plain text\<close>

definition plain :: "nat \<Rightarrow> bool" where
  "plain ch \<longleftrightarrow> 32 \<le> ch \<and> ch < 127"

lemma plain_facts: "plain ch \<Longrightarrow> char_width ch = 1 \<and> \<not> is_control ch \<and> ch \<noteq> 0 \<and> ch < 128 \<and> ch \<notin> {27, 13, 10, 11, 12, 8, 9, 0x9B}"
  by (auto simp: plain_def char_width_def in_ranges_def ZERO_WIDTH_def DOUBLE_WIDTH_def is_control_def)

definition pad :: "nat \<Rightarrow> nat list \<Rightarrow> nat list" where
  "pad n s = s @ replicate (n - length s) 32"

lemma put_plain:
  assumes "plain ch" "tm_c t < tm_cols t" "tm_r t < length (tm_grid t)" "length (tm_grid t ! tm_r t) = tm_cols t"
  shows "put ch t = Some (t\<lparr>tm_grid := (tm_grid t)[tm_r t := (tm_grid t ! tm_r t)[tm_c t := ch]], tm_c := tm_c t + 1\<rparr>)"
  using assms plain_facts [OF assms(1)] by (simp add: put_def set_cell_def with_row_def vec_set_def)

lemma plain_run:
  assumes "vm_state m = Ground" "list_all plain s" "vm_term m = t" "tm_c t = k" "k + length s \<le> tm_cols t"
    "tm_r t < length (tm_grid t)" "length (tm_grid t ! tm_r t) = tm_cols t"
  shows "vt_run (s @ chs) m = vt_run chs (m\<lparr>vm_term := t\<lparr>tm_c := k + length s,
    tm_grid := (tm_grid t)[tm_r t := take k (tm_grid t ! tm_r t) @ s @ drop (k + length s) (tm_grid t ! tm_r t)]\<rparr>\<rparr>)"
  using assms
proof (induction s arbitrary: m t k)
  case (Cons ch s)
  let ?row = "tm_grid t ! tm_r t"
  let ?t = "t\<lparr>tm_grid := (tm_grid t)[tm_r t := ?row[k := ch]], tm_c := k + 1\<rparr>"
  have "vt_char ch m = Some (m\<lparr>vm_term := ?t\<rparr>)"
    using Cons.prems plain_facts [of ch] put_plain [of ch t]
    by (simp add: vt_char_def ground_char_def on_term_def)
  moreover have "take (k + 1) (?row[k := ch]) = take k ?row @ [ch]"
    using Cons.prems by (simp add: take_Suc_conv_app_nth)
  moreover have "drop (k + 1 + length s) (?row[k := ch]) = drop (k + length (ch # s)) ?row" by simp
  ultimately show ?case
    using Cons.IH [of "m\<lparr>vm_term := ?t\<rparr>" ?t "k + 1"] Cons.prems by (simp add: add.assoc)
next
  case Nil
  then have "m\<lparr>vm_term := t\<lparr>tm_c := k, tm_grid := tm_grid t\<rparr>\<rparr> = m" by (cases m; cases t) auto
  then show ?case by simp
qed

fun crlf_lines :: "nat list list \<Rightarrow> nat list" where
  "crlf_lines [] = []"
| "crlf_lines [s] = s"
| "crlf_lines (s # ls) = s @ [13, 10] @ crlf_lines ls"

lemma lines_run:
  assumes "vm_state m = Ground" "vm_term m = t" "tm_grid t = map (pad (tm_cols t)) before @ replicate (tm_rows t - length before) (replicate (tm_cols t) 32)"
    "tm_r t = length before" "tm_c t = 0" "tm_bottom t = tm_rows t - 1" "length before + length ls \<le> tm_rows t" "ls \<noteq> []"
    "\<forall>s \<in> set ls. list_all plain s \<and> length s \<le> tm_cols t"
  shows "\<exists>m'. vt_run (crlf_lines ls) m = Some m' \<and> tm_grid (vm_term m') = map (pad (tm_cols t)) (before @ ls)
    @ replicate (tm_rows t - length (before @ ls)) (replicate (tm_cols t) 32)"
  using assms
proof (induction ls arbitrary: m t before rule: crlf_lines.induct)
  case (2 s)
  let ?n = "length before"
  obtain k where k: "tm_rows t - ?n = Suc k" using 2(7) by (cases "tm_rows t - ?n") auto
  have row: "tm_grid t ! ?n = replicate (tm_cols t) 32" "?n < length (tm_grid t)"
    using 2(3) k by (simp_all add: nth_append)
  have "(tm_grid t)[?n := pad (tm_cols t) s] = map (pad (tm_cols t)) (before @ [s]) @ replicate k (replicate (tm_cols t) 32)"
    using 2(3) k by (simp add: list_update_append)
  moreover have "drop (length s) (replicate (tm_cols t) (32 :: nat)) = replicate (tm_cols t - length s) 32" by simp
  ultimately show ?case
    using plain_run [OF 2(1) _ 2(2,5), of s "[]"] row 2(4,9) k by (simp add: pad_def)
next
  case (3 s s' ls)
  let ?n = "length before"
  obtain k where k: "tm_rows t - ?n = Suc k" using 3(8) by (cases "tm_rows t - ?n") auto
  have row: "tm_grid t ! ?n = replicate (tm_cols t) 32" "?n < length (tm_grid t)"
    using 3(4) k by (simp_all add: nth_append)
  let ?t1 = "t\<lparr>tm_c := length s, tm_grid := (tm_grid t)[?n := pad (tm_cols t) s]\<rparr>"
  let ?t2 = "t\<lparr>tm_grid := (tm_grid t)[?n := pad (tm_cols t) s], tm_c := 0, tm_r := ?n + 1\<rparr>"
  have g: "(tm_grid t)[?n := pad (tm_cols t) s] = map (pad (tm_cols t)) (before @ [s]) @ replicate k (replicate (tm_cols t) 32)"
    using 3(4) k by (simp add: list_update_append)
  have "vt_run (s @ 13 # 10 # crlf_lines (s' # ls)) m = vt_run (13 # 10 # crlf_lines (s' # ls)) (m\<lparr>vm_term := ?t1\<rparr>)"
    using plain_run [OF 3(2) _ 3(3,6), of s "13 # 10 # crlf_lines (s' # ls)"] row 3(5,10) by (simp add: pad_def)
  also have "\<dots> = vt_run (crlf_lines (s' # ls)) (m\<lparr>vm_term := ?t2\<rparr>)"
    using 3(2,5,7,8) by (auto simp: vt_char_def ground_char_def on_term_def line_feed_def)
  finally have r: "vt_run (crlf_lines (s # s' # ls)) m = vt_run (crlf_lines (s' # ls)) (m\<lparr>vm_term := ?t2\<rparr>)" by simp
  have k': "tm_rows t - length (before @ [s]) = k" using k by simp
  have "\<exists>m'. vt_run (crlf_lines (s' # ls)) (m\<lparr>vm_term := ?t2\<rparr>) = Some m'
      \<and> tm_grid (vm_term m') = map (pad (tm_cols ?t2)) ((before @ [s]) @ s' # ls)
        @ replicate (tm_rows ?t2 - length ((before @ [s]) @ s' # ls)) (replicate (tm_cols ?t2) 32)"
    by (rule 3(1)) (use 3(2,7,8,10) g k' in simp_all)
  with r show ?case by simp
qed simp

lemma trim_row_pad: "trim_row (s @ replicate n 32) = trim_row s"
proof -
  have "dropWhile is_space (replicate n 32 @ xs) = dropWhile is_space xs" for xs
    by (induction n) (simp_all add: is_space_def)
  then show ?thesis by (simp add: trim_row_def)
qed

lemma crlf_lines_ascii: "\<forall>s \<in> set ls. list_all plain s \<Longrightarrow> list_all (\<lambda>b. b < 128) (crlf_lines ls)"
  by (induction ls rule: crlf_lines.induct) (auto simp: list_all_iff plain_def less_trans)

text \<open>Plain text is shown as it is: lines of printable ASCII that fit the screen, separated by CR LF, come out
  as those lines, with the blanks at their ends and blank lines at the end left out.\<close>

theorem plain_text_shows:
  assumes "\<forall>l \<in> set ls. list_all (\<lambda>c. 32 \<le> byte c \<and> byte c < 127) l \<and> length l \<le> cols" and "length ls \<le> rows"
    and "ls \<noteq> []" and "0 < cols"
  shows "map_option sc_rows (render (join [CHR 0x0D, CHR 0x0A] ls) cols rows)
    = Some (rev (dropWhile (\<lambda>row. row = []) (rev (map (\<lambda>l. trim_row (map byte l)) ls))))"
proof -
  let ?ls = "map (map byte) ls"
  have bytes: "map byte (join [CHR 0x0D, CHR 0x0A] ls) = crlf_lines (map (map byte) ls)" for ls
    by (induction "[CHR 0x0D, CHR 0x0A]" ls rule: join.induct) (simp_all add: byte_def)
  have pl: "\<forall>s \<in> set ?ls. list_all plain s \<and> length s \<le> cols"
    using assms(1) by (auto simp: list_all_iff plain_def)
  have "list_all (\<lambda>b. b < 128) (crlf_lines ?ls)"
    using pl by (intro crlf_lines_ascii) blast
  then have chars: "lossy_chars (map byte (join [CHR 0x0D, CHR 0x0A] ls)) = crlf_lines ?ls"
    unfolding bytes by (rule lossy_chars_ascii)
  have rows: "0 < rows" using assms(2,3) by (cases ls) auto
  let ?t = "term_new cols rows"
  have t: "tm_cols ?t = cols" "tm_rows ?t = rows" "tm_grid ?t = replicate rows (replicate cols 32)" "tm_r ?t = 0"
    "tm_c ?t = 0" "tm_bottom ?t = rows - 1"
    using rows assms(4) by (simp_all add: term_new_def Let_def max_def)
  have "\<exists>m'. vt_run (crlf_lines ?ls) (machine_new cols rows) = Some m' \<and> tm_grid (vm_term m') = map (pad (tm_cols ?t)) ([] @ ?ls)
    @ replicate (tm_rows ?t - length ([] @ ?ls)) (replicate (tm_cols ?t) 32)"
    by (rule lines_run) (use t pl assms(2,3) in \<open>simp_all add: machine_new_def\<close>)
  then obtain m where m: "vt_run (crlf_lines ?ls) (machine_new cols rows) = Some m"
    "tm_grid (vm_term m) = map (pad cols) ?ls @ replicate (rows - length ls) (replicate cols 32)"
    by (auto simp: t)
  have line: "trim_row (filter (\<lambda>c. c \<noteq> 0) (pad cols s)) = trim_row s" if "s \<in> set ?ls" for s
  proof -
    have "ch \<noteq> 0" if "ch \<in> set s" for ch using that \<open>s \<in> set ?ls\<close> pl plain_facts by (metis list_all_iff)
    then have "filter (\<lambda>c. c \<noteq> 0) s = s" by (simp add: filter_id_conv)
    then show ?thesis by (simp add: pad_def trim_row_pad)
  qed
  have blank: "trim_row (filter (\<lambda>c. c \<noteq> 0) (replicate cols 32)) = []"
    using trim_row_pad [of "[]" cols] by (simp add: trim_row_def)
  have drop: "dropWhile (\<lambda>row. row = []) (replicate n [] @ xs) = dropWhile (\<lambda>row. row = []) xs" for n and xs :: "nat list list"
    by (induction n) auto
  have "map (\<lambda>row. trim_row (filter (\<lambda>c. c \<noteq> 0) row)) (tm_grid (vm_term m)) = map trim_row ?ls @ replicate (rows - length ls) []"
    using line blank by (simp add: m(2))
  then show ?thesis by (simp add: render_def chars m(1) into_screen_def Let_def drop comp_def)
qed

section \<open>Witnesses\<close>

lemma example_bytes: "map byte ''ab'' = [97, 98]" "lossy_chars (map byte ''ab'') = [97, 98]"
proof -
  show m: "map byte ''ab'' = [97, 98]" by (simp add: byte_def)
  show "lossy_chars (map byte ''ab'') = [97, 98]" unfolding m by (rule lossy_chars_ascii) simp
qed

lemma example_calm: "calm 0 (lossy_chars (map byte ''ab''))" "max 4 1 + 2 + 10 ^ 18 \<le> USIZE"
  by (simp_all only: example_bytes(2)) (simp_all add: next_load_def is_digit_def USIZE_def)


theorem screen_is_clean_witness: "\<exists>s. render ''ab'' 4 2 = Some s \<and> length (sc_rows s) \<le> 2"
proof -
  from calm_render [OF example_calm, of 2] obtain s where s: "render ''ab'' 4 2 = Some s" by blast
  from screen_is_clean [OF s] s show ?thesis by auto
qed

theorem string_sequences_are_skipped_witness:
  "vt_run ([] @ 0x1B # 0x5D # [48, 59, 120] @ [7] @ [97]) (machine_new 4 2) = vt_run ([] @ [97]) (machine_new 4 2)"
  by (rule string_sequences_are_skipped [where m = "machine_new 4 2"]) (simp_all add: machine_new_ok(3))

theorem plain_text_shows_witness:
  "map_option sc_rows (render (join [CHR 0x0D, CHR 0x0A] [''ab '', ''c'']) 4 2) = Some [[97, 98], [99]]"
proof -
  have "rev (dropWhile (\<lambda>row. row = []) (rev (map (\<lambda>l. trim_row (map byte l)) [''ab '', ''c'']))) = [[97, 98], [99]]"
    by (simp add: byte_def trim_row_def is_space_def)
  moreover have "\<forall>l \<in> set [''ab '', ''c'']. list_all (\<lambda>c. 32 \<le> byte c \<and> byte c < 127) l \<and> length l \<le> 4"
    by (simp add: byte_def)
  ultimately show ?thesis using plain_text_shows [of "[''ab '', ''c'']" 4 2] by simp
qed

end
