(* ===== verification/PushEngine.thy ===== *)
theory PushEngine
  imports PendingModel
begin

text \<open>
  \<open>server/push/engine.rs\<close> and the part of \<open>server/push/store.rs\<close> it reads: the events worth a
  notification, the suppression of duplicates, the coalescing per session, the choice of devices, and the
  events derived from the session list and the transcripts. Clocks are arguments in milliseconds.
\<close>

section \<open>Preferences\<close>

record prefs =
  pf_permission :: bool
  pf_question :: bool
  pf_plan :: bool
  pf_finished :: bool
  pf_failed :: bool
  pf_claude :: bool
  pf_idle :: bool
  pf_show_details :: bool

definition prefs_default :: prefs where
  "prefs_default = \<lparr>pf_permission = True, pf_question = True, pf_plan = True, pf_finished = True, pf_failed = True,
     pf_claude = True, pf_idle = False, pf_show_details = False\<rparr>"

datatype session_mode = Follow | Mute

definition mode_parse :: "str \<Rightarrow> session_mode option" where
  "mode_parse s = (if s = ''follow'' then Some Follow else if s = ''mute'' then Some Mute else None)"

definition mode_as_str :: "session_mode \<Rightarrow> str" where
  "mode_as_str m = (case m of Follow \<Rightarrow> ''follow'' | Mute \<Rightarrow> ''mute'')"

record subscription =
  sb_endpoint :: str
  sb_p256dh :: str
  sb_auth :: str
  sb_created_at :: int
  sb_updated_at :: int

record device_push =
  dv_prefs :: prefs
  dv_sessions :: "(str, str) hmap"
  dv_turn_finished :: "(str, int) hmap"
  dv_subscriptions :: "subscription list"

definition device_push_default :: device_push where
  "device_push_default = \<lparr>dv_prefs = prefs_default, dv_sessions = [], dv_turn_finished = [], dv_subscriptions = []\<rparr>"

definition dev_mode :: "device_push \<Rightarrow> str \<Rightarrow> session_mode option" where
  "dev_mode d session = Option.bind (hm_get (dv_sessions d) session) mode_parse"

definition turn_once_active :: "device_push \<Rightarrow> str \<Rightarrow> int \<Rightarrow> bool" where
  "turn_once_active d session now \<longleftrightarrow>
     (case hm_get (dv_turn_finished d) session of Some expires \<Rightarrow> expires > now | None \<Rightarrow> False)"

section \<open>Events\<close>

definition FINISHED_MIN_MS :: nat where "FINISHED_MIN_MS = 30000"
definition WINDOW_MS :: int where "WINDOW_MS = 10000"
definition WAITING_AFTER_PENDING_MS :: int where "WAITING_AFTER_PENDING_MS = 60000"
definition FINISHED_DEDUPE_MS :: int where "FINISHED_DEDUPE_MS = 30000"
definition FAILED_DEDUPE_MS :: int where "FAILED_DEDUPE_MS = 60000"
definition IDLE_DEDUPE_MS :: int where "IDLE_DEDUPE_MS = 60000"
definition RECENT_KEYS :: nat where "RECENT_KEYS = 512"
definition TRANSCRIPT_FRESH_MS :: int where "TRANSCRIPT_FRESH_MS = 10 * 60 * 1000"

datatype push_kind =
  PkPermission | PkQuestion | PkPlan | PkWaiting | PkFinished | PkFailed | PkClaude | PkIdle | PkTest

definition is_attention :: "push_kind \<Rightarrow> bool" where
  "is_attention k \<longleftrightarrow> k \<in> {PkPermission, PkQuestion, PkPlan, PkWaiting}"

record push_event =
  ev_session_id :: str
  ev_kind :: push_kind
  ev_key :: str
  ev_tool :: "str option"
  ev_pending_id :: "str option"
  ev_label :: "str option"
  ev_detail :: "str option"
  ev_worked_ms :: "nat option"
  ev_dangerous :: bool
  ev_derived :: bool

definition push_event_new :: "str \<Rightarrow> push_kind \<Rightarrow> str \<Rightarrow> push_event" where
  "push_event_new session kind key = \<lparr>ev_session_id = session, ev_kind = kind, ev_key = key, ev_tool = None,
     ev_pending_id = None, ev_label = None, ev_detail = None, ev_worked_ms = None, ev_dangerous = False,
     ev_derived = False\<rparr>"

text \<open>\<open>str::lines\<close> and \<open>trim_start_matches('#')\<close>.\<close>

definition str_lines :: "str \<Rightarrow> str list" where
  "str_lines s =
     (let ps = split_byte (char_of (10 :: nat)) s;
          ps = (if last ps = [] then butlast ps else ps)
      in map (\<lambda>l. if l \<noteq> [] \<and> byte (last l) = 13 then butlast l else l) ps)"

definition plan_line :: "str \<Rightarrow> str option" where
  "plan_line plan =
     find (\<lambda>l. l \<noteq> []) (map (\<lambda>l. trim (dropWhile (\<lambda>c. c = CHR ''#'') (trim l))) (str_lines plan))"

definition kind_of_pending :: "pending_kind \<Rightarrow> push_kind" where
  "kind_of_pending k = (case k of Permission \<Rightarrow> PkPermission | AskQuestion \<Rightarrow> PkQuestion
     | Elicitation \<Rightarrow> PkQuestion | Plan \<Rightarrow> PkPlan)"

definition from_pending :: "pending_item \<Rightarrow> push_event" where
  "from_pending item =
     (let detail = (case pi_kind item of
            AskQuestion \<Rightarrow> or_else (case pi_questions item of Some (q # _) \<Rightarrow> Some (qu_question q) | _ \<Rightarrow> None)
                             (pi_detail item)
          | Plan \<Rightarrow> Option.bind (pi_plan item) plan_line
          | _ \<Rightarrow> or_else (pi_detail item) (Some (pi_title item)));
          tool = (if pi_kind item \<in> {Permission, Elicitation} then pi_tool_name item else None)
      in (push_event_new (pi_session_id item) (kind_of_pending (pi_kind item)) (''pending:'' @ pi_id item))
           \<lparr>ev_tool := tool, ev_pending_id := Some (pi_id item),
            ev_detail := opt_filter (\<lambda>d. \<not> is_blank d) detail, ev_dangerous := pi_dangerous item\<rparr>)"

section \<open>Suppression\<close>

record marks =
  mk_pending :: "int option"
  mk_finished :: "int option"
  mk_failed :: "int option"
  mk_idle :: "int option"

definition marks_default :: marks where
  "marks_default = \<lparr>mk_pending = None, mk_finished = None, mk_failed = None, mk_idle = None\<rparr>"

definition within :: "int option \<Rightarrow> int \<Rightarrow> int \<Rightarrow> bool" where
  "within mark now ms \<longleftrightarrow> (case mark of Some t \<Rightarrow> now - t < ms | None \<Rightarrow> False)"

definition admit_once :: "int option \<Rightarrow> int \<Rightarrow> int \<Rightarrow> int option \<times> bool" where
  "admit_once mark now ms = (if within mark now ms then (mark, False) else (Some now, True))"

record suppressor =
  su_marks :: "(str, marks) hmap"
  su_recent :: "str list"
  su_recent_set :: "str set"

definition suppressor_new :: suppressor where
  "suppressor_new = \<lparr>su_marks = [], su_recent = [], su_recent_set = {}\<rparr>"

text \<open>\<open>remember\<close>: the key is appended, and the oldest keys leave beyond \<open>RECENT_KEYS\<close>.\<close>

function forget_old :: "str list \<Rightarrow> str set \<Rightarrow> str list \<times> str set" where
  "forget_old recent keys =
     (if length recent > RECENT_KEYS then forget_old (tl recent) (keys - {hd recent}) else (recent, keys))"
  by pat_completeness auto
termination
  by (relation "measure (\<lambda>(recent, _). length recent)") auto

declare forget_old.simps [simp del]

definition remember_key :: "str \<Rightarrow> suppressor \<Rightarrow> suppressor" where
  "remember_key key s =
     (let s = (if key \<in> su_recent_set s then s
               else s\<lparr>su_recent := su_recent s @ [key], su_recent_set := insert key (su_recent_set s)\<rparr>);
          (recent, keys) = forget_old (su_recent s) (su_recent_set s)
      in s\<lparr>su_recent := recent, su_recent_set := keys\<rparr>)"

definition is_keyed :: "push_kind \<Rightarrow> bool" where
  "is_keyed k \<longleftrightarrow> k \<in> {PkPermission, PkQuestion, PkPlan, PkClaude}"

definition admit_marked :: "int \<Rightarrow> push_kind \<Rightarrow> bool \<Rightarrow> marks \<Rightarrow> marks \<times> bool" where
  "admit_marked now kind has_answerable m =
     (case kind of
        PkPermission \<Rightarrow> (m\<lparr>mk_pending := Some now\<rparr>, True)
      | PkQuestion \<Rightarrow> (m\<lparr>mk_pending := Some now\<rparr>, True)
      | PkPlan \<Rightarrow> (m\<lparr>mk_pending := Some now\<rparr>, True)
      | PkWaiting \<Rightarrow> (m, \<not> (has_answerable \<or> within (mk_pending m) now WAITING_AFTER_PENDING_MS))
      | PkFinished \<Rightarrow> (let (t, ok) = admit_once (mk_finished m) now FINISHED_DEDUPE_MS in (m\<lparr>mk_finished := t\<rparr>, ok))
      | PkFailed \<Rightarrow> (let (t, ok) = admit_once (mk_failed m) now FAILED_DEDUPE_MS in (m\<lparr>mk_failed := t\<rparr>, ok))
      | PkIdle \<Rightarrow> (let (t, ok) = admit_once (mk_idle m) now IDLE_DEDUPE_MS in (m\<lparr>mk_idle := t\<rparr>, ok))
      | PkClaude \<Rightarrow> (m, True)
      | PkTest \<Rightarrow> (m, True))"

definition admit :: "int \<Rightarrow> push_event \<Rightarrow> bool \<Rightarrow> suppressor \<Rightarrow> suppressor \<times> bool" where
  "admit now ev has_answerable s =
     (if is_keyed (ev_kind ev) \<and> ev_key ev \<in> su_recent_set s then (s, False)
      else let s = (if is_keyed (ev_kind ev) then remember_key (ev_key ev) s else s);
               m = (case hm_get (su_marks s) (ev_session_id ev) of Some m \<Rightarrow> m | None \<Rightarrow> marks_default);
               (m, ok) = admit_marked now (ev_kind ev) has_answerable m
           in (s\<lparr>su_marks := hm_put (ev_session_id ev) m (su_marks s)\<rparr>, ok))"

definition su_forget :: "str \<Rightarrow> suppressor \<Rightarrow> suppressor" where
  "su_forget session s = s\<lparr>su_marks := hm_del session (su_marks s)\<rparr>"

section \<open>Coalescing\<close>

record batch =
  ba_session :: str
  ba_events :: "push_event list"

record window =
  wi_opened :: int
  wi_sent :: "str set"
  wi_held :: "push_event list"

record coalescer =
  co_window :: int
  co_windows :: "(str, window) hmap"

definition coalescer_new :: "int \<Rightarrow> coalescer" where
  "coalescer_new window_ms = \<lparr>co_window = max window_ms 1, co_windows = []\<rparr>"

definition hold_event :: "push_event \<Rightarrow> window \<Rightarrow> window" where
  "hold_event ev w =
     (if ev_key ev \<notin> wi_sent w \<and> \<not> list_ex (\<lambda>h. ev_key h = ev_key ev) (wi_held w)
      then w\<lparr>wi_held := wi_held w @ [ev]\<rparr> else w)"

definition open_window :: "int \<Rightarrow> push_event \<Rightarrow> coalescer \<Rightarrow> coalescer \<times> batch option" where
  "open_window now ev c =
     (c\<lparr>co_windows := hm_put (ev_session_id ev) \<lparr>wi_opened = now, wi_sent = {ev_key ev}, wi_held = []\<rparr>
          (co_windows c)\<rparr>,
      Some \<lparr>ba_session = ev_session_id ev, ba_events = [ev]\<rparr>)"

definition offer :: "int \<Rightarrow> push_event \<Rightarrow> coalescer \<Rightarrow> coalescer \<times> batch option" where
  "offer now ev c =
     (case hm_get (co_windows c) (ev_session_id ev) of
        Some w \<Rightarrow>
          if now - wi_opened w < co_window c
          then (c\<lparr>co_windows := hm_put (ev_session_id ev) (hold_event ev w) (co_windows c)\<rparr>, None)
          else open_window now ev c
      | None \<Rightarrow> open_window now ev c)"

text \<open>What \<open>due\<close> leaves of a window and what it sends for it.\<close>

definition due_window :: "int \<Rightarrow> int \<Rightarrow> window \<Rightarrow> window option \<times> push_event list" where
  "due_window width now w =
     (if now - wi_opened w < width then (Some w, [])
      else if wi_held w = [] then (None, [])
      else (Some \<lparr>wi_opened = now, wi_sent = set (map ev_key (wi_held w)), wi_held = []\<rparr>, wi_held w))"

definition due :: "int \<Rightarrow> coalescer \<Rightarrow> coalescer \<times> batch list" where
  "due now c =
     (let rs = map (\<lambda>(s, w). (s, due_window (co_window c) now w)) (co_windows c)
      in (c\<lparr>co_windows := concat (map (\<lambda>(s, w, _). case w of Some w \<Rightarrow> [(s, w)] | None \<Rightarrow> []) rs)\<rparr>,
          sort_key ba_session
            (concat (map (\<lambda>(s, _, evs). if evs = [] then [] else [\<lparr>ba_session = s, ba_events = evs\<rparr>]) rs))))"

definition next_deadline :: "coalescer \<Rightarrow> int option" where
  "next_deadline c =
     (case map (\<lambda>(_, w). wi_opened w + co_window c) (co_windows c) of
        [] \<Rightarrow> None | d # ds \<Rightarrow> Some (fold min ds d))"

section \<open>Selection\<close>

definition asks_input :: "push_event \<Rightarrow> bool" where
  "asks_input ev \<longleftrightarrow>
     (case ev_label ev of
        Some l \<Rightarrow> let l = to_ascii_lowercase l in contains l ''input'' \<or> contains l ''question''
      | None \<Rightarrow> False)"

definition wants :: "device_push \<Rightarrow> push_event \<Rightarrow> int \<Rightarrow> bool" where
  "wants dev ev now =
     (if ev_kind ev = PkTest then True
      else if ev_kind ev = PkFinished \<and> turn_once_active dev (ev_session_id ev) now then True
      else let mode = dev_mode dev (ev_session_id ev); follow = (mode = Some Follow); p = dv_prefs dev
           in if mode = Some Mute then False
              else case ev_kind ev of
                 PkPermission \<Rightarrow> follow \<or> pf_permission p
               | PkQuestion \<Rightarrow> follow \<or> pf_question p
               | PkPlan \<Rightarrow> follow \<or> pf_plan p
               | PkWaiting \<Rightarrow> follow \<or> (if asks_input ev then pf_question p else pf_permission p)
               | PkFinished \<Rightarrow> (follow \<or> pf_finished p)
                   \<and> (case ev_worked_ms ev of Some n \<Rightarrow> n | None \<Rightarrow> 0) \<ge> FINISHED_MIN_MS
               | PkFailed \<Rightarrow> follow \<or> pf_failed p
               | PkClaude \<Rightarrow> follow \<or> pf_claude p
               | PkIdle \<Rightarrow> pf_idle p
               | PkTest \<Rightarrow> True)"

section \<open>Derived events\<close>

datatype session_status = Working | Waiting | Idle | Starting | Ended | Failed | Stopped

record last_error =
  le_kind :: str
  le_text :: str
  le_at :: int

text \<open>What is read of a \<open>SessionSummary\<close> and of a \<open>UiEvent\<close>.\<close>

record session_summary =
  ss_id :: str
  ss_name :: str
  ss_project_name :: str
  ss_status :: session_status
  ss_waiting_for :: "str option"
  ss_last_message :: "str option"
  ss_last_error :: "last_error option"

record ui_tool =
  ut_id :: str
  ut_name :: str
  ut_input :: "json option"

record ui_event =
  ue_id :: str
  ue_ts :: "int option"
  ue_tool :: "ui_tool option"

record seen =
  sn_status :: session_status
  sn_turn_started :: "int option"
  sn_last_error_at :: "int option"

definition busy :: "session_status \<Rightarrow> bool" where
  "busy s \<longleftrightarrow> s \<in> {Working, Waiting, Starting}"

type_synonym tracker = "(str, seen) hmap"

definition derived_event :: "str \<Rightarrow> push_kind \<Rightarrow> str \<Rightarrow> push_event" where
  "derived_event session kind key = (push_event_new session kind key)\<lparr>ev_derived := True\<rparr>"

definition waiting_event :: "session_summary \<Rightarrow> push_event" where
  "waiting_event s = (derived_event (ss_id s) PkWaiting ''waiting'')\<lparr>ev_label := ss_waiting_for s\<rparr>"

definition finished_event :: "session_summary \<Rightarrow> int \<Rightarrow> int \<Rightarrow> push_event" where
  "finished_event s now t = (derived_event (ss_id s) PkFinished ''finished'')
     \<lparr>ev_worked_ms := Some (nat (max (now - t) 0)), ev_detail := ss_last_message s\<rparr>"

definition failed_event :: "session_summary \<Rightarrow> push_event" where
  "failed_event s = (derived_event (ss_id s) PkFailed ''failed'')
     \<lparr>ev_label := map_option le_kind (ss_last_error s), ev_detail := map_option le_text (ss_last_error s)\<rparr>"

text \<open>The first part of \<open>observe_summary\<close>: a change of status, with the start of the turn after it.\<close>

definition status_change :: "session_status \<Rightarrow> int option \<Rightarrow> session_summary \<Rightarrow> int \<Rightarrow> int option \<times> push_event list"
where
  "status_change prev started s now =
     (if ss_status s = prev then (started, [])
      else let started = (if busy (ss_status s) \<and> started = None then Some now else started)
           in case ss_status s of
                Waiting \<Rightarrow> (started, [waiting_event s])
              | Idle \<Rightarrow> if busy prev
                       then (None, case started of Some t \<Rightarrow> [finished_event s now t] | None \<Rightarrow> [])
                       else (None, [])
              | Failed \<Rightarrow> (None, [failed_event s])
              | Ended \<Rightarrow> (None, [])
              | Stopped \<Rightarrow> (None, [])
              | _ \<Rightarrow> (started, []))"

definition new_error :: "int option \<Rightarrow> int option \<Rightarrow> bool" where
  "new_error at before \<longleftrightarrow>
     (case (at, before) of (Some a, Some b) \<Rightarrow> a > b | (Some _, None) \<Rightarrow> True | _ \<Rightarrow> False)"

definition observe_summary :: "session_summary \<Rightarrow> int \<Rightarrow> tracker \<Rightarrow> tracker \<times> push_event list" where
  "observe_summary s now m =
     (let error_at = map_option le_at (ss_last_error s)
      in case hm_get m (ss_id s) of
           None \<Rightarrow> (hm_put (ss_id s) \<lparr>sn_status = ss_status s,
                       sn_turn_started = (if busy (ss_status s) then Some now else None),
                       sn_last_error_at = error_at\<rparr> m, [])
         | Some prev \<Rightarrow>
             let (started, out) = status_change (sn_status prev) (sn_turn_started prev) s now;
                 out = (if new_error error_at (sn_last_error_at prev) \<and> \<not> busy (ss_status s)
                           \<and> \<not> list_ex (\<lambda>e. ev_kind e = PkFailed) out
                        then out @ [failed_event s] else out)
             in (hm_put (ss_id s) \<lparr>sn_status = ss_status s, sn_turn_started = started,
                   sn_last_error_at = or_else error_at (sn_last_error_at prev)\<rparr> m, out))"

fun observe_list :: "session_summary list \<Rightarrow> int \<Rightarrow> tracker \<Rightarrow> tracker \<times> push_event list" where
  "observe_list [] now m = (m, [])"
| "observe_list (s # ss) now m =
     (let (m, out) = observe_summary s now m; (m, outs) = observe_list ss now m in (m, out @ outs))"

fun remove_seen :: "str list \<Rightarrow> tracker \<Rightarrow> tracker \<times> str list" where
  "remove_seen [] m = (m, [])"
| "remove_seen (i # ids) m =
     (if hm_has m i then let (m, gone) = remove_seen ids (hm_del i m) in (m, i # gone) else remove_seen ids m)"

definition unwrap_list :: "'a list option \<Rightarrow> 'a list" where
  "unwrap_list xs = (case xs of Some ys \<Rightarrow> ys | None \<Rightarrow> [])"

definition observe_sessions :: "bool \<Rightarrow> session_summary list option \<Rightarrow> session_summary list option \<Rightarrow> str list option
  \<Rightarrow> int \<Rightarrow> tracker \<Rightarrow> tracker \<times> push_event list \<times> str list" where
  "observe_sessions full sessions upsert remove now m =
     (let stale = (case sessions of
            Some ss \<Rightarrow> if full then filter (\<lambda>k. k \<notin> set (map ss_id ss)) (map fst m) else []
          | None \<Rightarrow> []);
          m = fold hm_del stale m;
          (m, out) = observe_list (unwrap_list sessions) now m;
          (m, out') = observe_list (unwrap_list upsert) now m;
          (m, gone) = remove_seen (unwrap_list remove) m
      in (m, out @ out', stale @ gone))"

definition push_notification_tool :: "str \<Rightarrow> ui_event \<Rightarrow> int \<Rightarrow> push_event option" where
  "push_notification_tool session e now =
     (case (ue_tool e, ue_ts e) of
        (Some tool, Some ts) \<Rightarrow>
          if ut_name tool \<noteq> ''PushNotification'' \<or> \<bar>now - ts\<bar> > TRANSCRIPT_FRESH_MS then None
          else let message = Option.bind (ut_input tool) (\<lambda>i. jget_str i ''message'');
                   key = ''tool:'' @ (if ut_id tool = [] then ue_id e else ut_id tool)
               in Some ((derived_event session PkClaude key)\<lparr>ev_detail := message\<rparr>)
      | _ \<Rightarrow> None)"

definition observe_transcript :: "str \<Rightarrow> ui_event list \<Rightarrow> int \<Rightarrow> push_event list" where
  "observe_transcript session events now =
     concat (map (\<lambda>e. case push_notification_tool session e now of Some ev \<Rightarrow> [ev] | None \<Rightarrow> []) events)"

datatype bus_event =
    BusSessions bool "session_summary list option" "session_summary list option" "str list option"
  | BusTranscript str "ui_event list"
  | BusOther

fun observe :: "bus_event \<Rightarrow> int \<Rightarrow> tracker \<Rightarrow> tracker \<times> push_event list \<times> str list" where
  "observe (BusSessions full sessions upsert remove) now m = observe_sessions full sessions upsert remove now m"
| "observe (BusTranscript session events) now m = (m, observe_transcript session events now, [])"
| "observe BusOther now m = (m, [], [])"

end
