(* ===== verification/PushStore.thy ===== *)
theory PushStore
  imports PushEngine
begin

text \<open>
  \<open>server/push/store.rs\<close>: the subscriptions and preferences of the paired devices (\<open>push.json\<close>). A
  \<open>BTreeMap\<close> is a map of the prelude; where the code depends on its order, the keys are sorted. The decoders
  of the \<open>base64\<close> crate and the check of a P-256 point are parameters.
\<close>

definition MAX_SUBSCRIPTIONS_PER_DEVICE :: nat where "MAX_SUBSCRIPTIONS_PER_DEVICE = 5"
definition MAX_SESSION_MODES :: nat where "MAX_SESSION_MODES = 500"
definition MAX_TURN_ONCE :: nat where "MAX_TURN_ONCE = 50"
definition TURN_ONCE_TTL_MS :: int where "TURN_ONCE_TTL_MS = 24 * 60 * 60 * 1000"
definition PUSH_VERSION :: nat where "PUSH_VERSION = 1"

record push_file =
  pl_version :: nat
  pl_vapid_public_key :: "str option"
  pl_devices :: "(str, device_push) hmap"

definition push_file_default :: push_file where
  "push_file_default = \<lparr>pl_version = 0, pl_vapid_public_key = None, pl_devices = []\<rparr>"

section \<open>Keys\<close>

definition valid_session_id :: "str \<Rightarrow> bool" where
  "valid_session_id i \<longleftrightarrow> i \<noteq> [] \<and> length i \<le> 80
     \<and> list_all (\<lambda>c. is_ascii_alnum c \<or> c = CHR ''-'' \<or> c = CHR ''_'') i"

definition decode_b64 :: "(str \<Rightarrow> nat list option) \<Rightarrow> (str \<Rightarrow> nat list option) \<Rightarrow> str \<Rightarrow> nat list option" where
  "decode_b64 url std s =
     (let s = trim s
      in if s = [] \<or> length s > 256 then None else or_else (url s) (std s))"

definition canonical_keys :: "(str \<Rightarrow> nat list option) \<Rightarrow> (nat list \<Rightarrow> bool) \<Rightarrow> (nat list \<Rightarrow> str) \<Rightarrow> str \<Rightarrow> str
  \<Rightarrow> str + (str \<times> str)" where
  "canonical_keys decode on_curve encode p256dh auth =
     (case decode p256dh of
        None \<Rightarrow> Inl ''keys.p256dh is not base64.''
      | Some point \<Rightarrow>
          if length point \<noteq> 65 \<or> hd point \<noteq> 4
          then Inl ''keys.p256dh must be an uncompressed P-256 public key (65 bytes).''
          else if \<not> on_curve point then Inl ''keys.p256dh is not a valid P-256 public key.''
          else case decode auth of
                 None \<Rightarrow> Inl ''keys.auth is not base64.''
               | Some secret \<Rightarrow>
                   if length secret \<noteq> 16 then Inl ''keys.auth must be 16 bytes.''
                   else Inr (encode point, encode secret))"

section \<open>Subscriptions\<close>

definition device_is_used :: "device_push \<Rightarrow> bool" where
  "device_is_used d \<longleftrightarrow> dv_subscriptions d \<noteq> [] \<or> dv_prefs d \<noteq> prefs_default \<or> dv_sessions d \<noteq> []
     \<or> dv_turn_finished d \<noteq> []"

definition prune_empty :: "push_file \<Rightarrow> push_file" where
  "prune_empty f = f\<lparr>pl_devices := hm_retain (\<lambda>_ d. device_is_used d) (pl_devices f)\<rparr>"

definition device_or_default :: "str \<Rightarrow> push_file \<Rightarrow> device_push" where
  "device_or_default device f = (case hm_get (pl_devices f) device of Some d \<Rightarrow> d | None \<Rightarrow> device_push_default)"

record subscribe_outcome =
  so_added :: bool
  so_evicted :: nat
  so_moved_from :: "str option"
  so_count :: nat

text \<open>The cap of a device: the least recently updated subscription is replaced.\<close>

definition drop_oldest :: "subscription list \<Rightarrow> subscription list" where
  "drop_oldest subs = remove_first (\<lambda>s. sb_updated_at s = min_list (map sb_updated_at subs)) subs"

lemma min_list_mem: "xs \<noteq> [] \<Longrightarrow> min_list xs \<in> set (xs :: 'a::linorder list)"
  by (induction xs rule: induct_list012) (auto simp: min_def)

lemma length_drop_oldest: "subs \<noteq> [] \<Longrightarrow> length (drop_oldest subs) < length subs"
proof -
  assume "subs \<noteq> []"
  then have "min_list (map sb_updated_at subs) \<in> set (map sb_updated_at subs)" by (intro min_list_mem) simp
  then have "\<exists>s \<in> set subs. sb_updated_at s = min_list (map sb_updated_at subs)" by fastforce
  with \<open>subs \<noteq> []\<close> show ?thesis by (simp add: drop_oldest_def length_remove_first)
qed

function evict_subs :: "subscription list \<Rightarrow> nat \<Rightarrow> subscription list \<times> nat" where
  "evict_subs subs evicted =
     (if length subs > MAX_SUBSCRIPTIONS_PER_DEVICE then evict_subs (drop_oldest subs) (evicted + 1)
      else (subs, evicted))"
  by pat_completeness auto
termination
  by (relation "measure (\<lambda>(subs, _). length subs)") (auto intro!: length_drop_oldest)

declare evict_subs.simps [simp del]

definition has_endpoint :: "str \<Rightarrow> device_push \<Rightarrow> bool" where
  "has_endpoint e d \<longleftrightarrow> list_ex (\<lambda>s. sb_endpoint s = e) (dv_subscriptions d)"

definition detach :: "str \<Rightarrow> device_push \<Rightarrow> device_push" where
  "detach e d = d\<lparr>dv_subscriptions := remove_first (\<lambda>s. sb_endpoint s = e) (dv_subscriptions d)\<rparr>"

definition pl_subscribe :: "str \<Rightarrow> subscription \<Rightarrow> int \<Rightarrow> push_file \<Rightarrow> push_file \<times> subscribe_outcome" where
  "pl_subscribe device sub now f =
     (let e = sb_endpoint sub;
          owners = map fst (filter (\<lambda>(_, d). has_endpoint e d) (sort_key fst (pl_devices f)));
          others = filter (\<lambda>i. i \<noteq> device) owners;
          old = find (\<lambda>s. sb_endpoint s = e) (dv_subscriptions (device_or_default device f));
          f = f\<lparr>pl_devices := hm_map (detach e) (pl_devices f)\<rparr>;
          dev = device_or_default device f;
          created_at = (case old of Some s \<Rightarrow> sb_created_at s | None \<Rightarrow> now);
          sub = sub\<lparr>sb_created_at := created_at, sb_updated_at := now\<rparr>;
          (subs, evicted) = evict_subs (dv_subscriptions dev @ [sub]) 0
      in (prune_empty (f\<lparr>pl_devices := hm_put device (dev\<lparr>dv_subscriptions := subs\<rparr>) (pl_devices f)\<rparr>),
          \<lparr>so_added = (old = None), so_evicted = evicted,
           so_moved_from = (if others = [] then None else Some (last others)), so_count = length subs\<rparr>))"

definition without_endpoint :: "str \<Rightarrow> device_push \<Rightarrow> device_push" where
  "without_endpoint e d = d\<lparr>dv_subscriptions := filter (\<lambda>s. sb_endpoint s \<noteq> e) (dv_subscriptions d)\<rparr>"

definition pl_unsubscribe :: "str \<Rightarrow> str \<Rightarrow> push_file \<Rightarrow> push_file \<times> bool" where
  "pl_unsubscribe device e f =
     (case hm_get (pl_devices f) device of
        None \<Rightarrow> (prune_empty f, False)
      | Some d \<Rightarrow> (prune_empty (f\<lparr>pl_devices := hm_put device (without_endpoint e d) (pl_devices f)\<rparr>),
                   has_endpoint e d))"

definition pl_remove_endpoint :: "str \<Rightarrow> push_file \<Rightarrow> push_file \<times> str option" where
  "pl_remove_endpoint e f =
     (let owners = map fst (filter (\<lambda>(_, d). has_endpoint e d) (sort_key fst (pl_devices f)))
      in (prune_empty (f\<lparr>pl_devices := hm_map (without_endpoint e) (pl_devices f)\<rparr>),
          if owners = [] then None else Some (last owners)))"

definition pl_drop_device :: "str \<Rightarrow> push_file \<Rightarrow> push_file \<times> bool" where
  "pl_drop_device device f =
     (f\<lparr>pl_devices := hm_del device (pl_devices f)\<rparr>, hm_has (pl_devices f) device)"

definition has_subscriptions :: "push_file \<Rightarrow> bool" where
  "has_subscriptions f \<longleftrightarrow> list_ex (\<lambda>(_, d). dv_subscriptions d \<noteq> []) (pl_devices f)"

text \<open>\<open>sanitize\<close>, on a file just loaded.\<close>

definition sanitize_device :: "bool \<Rightarrow> int \<Rightarrow> (subscription \<Rightarrow> bool) \<Rightarrow> device_push \<Rightarrow> device_push" where
  "sanitize_device key_changed now valid d =
     (let d = (if key_changed then d\<lparr>dv_subscriptions := []\<rparr> else d)
      in d\<lparr>dv_subscriptions := filter valid (dv_subscriptions d),
           dv_turn_finished := hm_retain (\<lambda>_ expires. expires > now) (dv_turn_finished d),
           dv_sessions := hm_retain (\<lambda>i m. valid_session_id i \<and> mode_parse m \<noteq> None) (dv_sessions d)\<rparr>)"

definition pl_sanitize :: "str \<Rightarrow> int \<Rightarrow> (subscription \<Rightarrow> bool) \<Rightarrow> push_file \<Rightarrow> push_file \<times> bool" where
  "pl_sanitize vapid_key now valid f =
     (let key_changed = (case pl_vapid_public_key f of Some k \<Rightarrow> k \<noteq> vapid_key | None \<Rightarrow> False);
          f' = \<lparr>pl_version = PUSH_VERSION, pl_vapid_public_key = Some vapid_key,
                pl_devices = hm_retain (\<lambda>i d. i \<noteq> [] \<and> device_is_used d)
                  (hm_map (sanitize_device key_changed now valid) (pl_devices f))\<rparr>
      in (f', f' \<noteq> f))"

section \<open>Preferences\<close>

record prefs_patch =
  pt_permission :: "bool option"
  pt_question :: "bool option"
  pt_plan :: "bool option"
  pt_finished :: "bool option"
  pt_failed :: "bool option"
  pt_claude :: "bool option"
  pt_idle :: "bool option"
  pt_show_details :: "bool option"
  pt_sessions :: "(str, str option) hmap option"
  pt_turn_finished :: "(str, bool) hmap option"

definition set_opt :: "'a option \<Rightarrow> 'a \<Rightarrow> 'a" where
  "set_opt v old = (case v of Some x \<Rightarrow> x | None \<Rightarrow> old)"

definition patch_prefs :: "prefs_patch \<Rightarrow> prefs \<Rightarrow> prefs" where
  "patch_prefs pt p =
     \<lparr>pf_permission = set_opt (pt_permission pt) (pf_permission p), pf_question = set_opt (pt_question pt) (pf_question p),
      pf_plan = set_opt (pt_plan pt) (pf_plan p), pf_finished = set_opt (pt_finished pt) (pf_finished p),
      pf_failed = set_opt (pt_failed pt) (pf_failed p), pf_claude = set_opt (pt_claude pt) (pf_claude p),
      pf_idle = set_opt (pt_idle pt) (pf_idle p), pf_show_details = set_opt (pt_show_details pt) (pf_show_details p)\<rparr>"

fun patch_sessions :: "(str \<times> str option) list \<Rightarrow> (str, str) hmap \<Rightarrow> str + (str, str) hmap" where
  "patch_sessions [] m = Inr m"
| "patch_sessions ((i, mode) # es) m =
     (if \<not> valid_session_id i then Inl (''Invalid session id in sessions: '' @ take_chars 80 i)
      else case mode of
             None \<Rightarrow> patch_sessions es (hm_del i m)
           | Some s \<Rightarrow>
               if s = ''default'' then patch_sessions es (hm_del i m)
               else case mode_parse s of
                      Some mode \<Rightarrow> patch_sessions es (hm_put i (mode_as_str mode) m)
                    | None \<Rightarrow> Inl (''Unknown session mode '' @ take_chars 20 s @ '': use follow, mute or default.''))"

fun patch_turns :: "int \<Rightarrow> (str \<times> bool) list \<Rightarrow> (str, int) hmap \<Rightarrow> str + (str, int) hmap" where
  "patch_turns now [] m = Inr m"
| "patch_turns now ((i, on) # es) m =
     (if \<not> valid_session_id i then Inl (''Invalid session id in turnFinished: '' @ take_chars 80 i)
      else patch_turns now es (if on then hm_put i (now + TURN_ONCE_TTL_MS) m else hm_del i m))"

definition patch_device :: "prefs_patch \<Rightarrow> int \<Rightarrow> device_push \<Rightarrow> str + device_push" where
  "patch_device pt now d =
     (case patch_sessions (sort_key fst (unwrap_list (pt_sessions pt))) (dv_sessions d) of
        Inl e \<Rightarrow> Inl e
      | Inr sessions \<Rightarrow>
          if length sessions > MAX_SESSION_MODES then Inl ''At most 500 sessions can be followed or muted.''
          else case patch_turns now (sort_key fst (unwrap_list (pt_turn_finished pt)))
                      (hm_retain (\<lambda>_ expires. expires > now) (dv_turn_finished d)) of
                 Inl e \<Rightarrow> Inl e
               | Inr turns \<Rightarrow>
                   if length turns > MAX_TURN_ONCE then Inl ''At most 50 turn-finished alerts can be armed at once.''
                   else Inr (d\<lparr>dv_prefs := patch_prefs pt (dv_prefs d), dv_sessions := sessions,
                               dv_turn_finished := turns\<rparr>))"

definition pl_apply_patch :: "str \<Rightarrow> prefs_patch \<Rightarrow> int \<Rightarrow> push_file \<Rightarrow> push_file \<times> (str + unit)" where
  "pl_apply_patch device pt now f =
     (case patch_device pt now (device_or_default device f) of
        Inl e \<Rightarrow> (f, Inl e)
      | Inr d \<Rightarrow> (prune_empty (f\<lparr>pl_devices := hm_put device d (pl_devices f)\<rparr>), Inr ()))"

record prefs_view =
  pv_prefs :: prefs
  pv_sessions :: "(str, str) hmap"
  pv_turn_finished :: "str list"
  pv_subscriptions :: nat
  pv_available :: bool

definition pl_view :: "str \<Rightarrow> int \<Rightarrow> bool \<Rightarrow> push_file \<Rightarrow> prefs_view" where
  "pl_view device now available f =
     (let d = device_or_default device f
      in \<lparr>pv_prefs = dv_prefs d, pv_sessions = dv_sessions d,
          pv_turn_finished = map fst (filter (\<lambda>(_, expires). expires > now) (sort_key fst (dv_turn_finished d))),
          pv_subscriptions = length (dv_subscriptions d), pv_available = available\<rparr>)"

end
