(* ===== verification/PushPayload.thy ===== *)
theory PushPayload
  imports PushStore VtProofs Auth
begin

text \<open>
  \<open>server/push/payload.rs\<close>: what a notification says. The text of a notification is a list of code points
  (\<open>chars\<close>), since it is cut and cleaned by characters; every other string is its bytes.
\<close>

definition TITLE_MAX :: nat where "TITLE_MAX = 80"
definition BODY_MAX :: nat where "BODY_MAX = 240"
definition DETAIL_MAX :: nat where "DETAIL_MAX = 140"

datatype urgency = UrgNormal | UrgHigh

type_synonym chars = "nat list"

definition to_chars :: "str \<Rightarrow> chars" where
  "to_chars s = lossy_chars (map byte s)"

text \<open>A literal of the source in ASCII, and the middle dot between two parts.\<close>

definition lit :: "str \<Rightarrow> chars" where
  "lit s = map byte s"

definition dot :: chars where
  "dot = [32, 0xB7, 32]"

record notification =
  no_title :: chars
  no_body :: chars
  no_kind :: push_kind
  no_kinds :: "push_kind list"
  no_tag :: str
  no_renotify :: bool
  no_actionable :: bool
  no_pending_ids :: "str list"
  no_session_id :: "str option"
  no_urgency :: urgency
  no_ttl_secs :: nat

section \<open>Cleaning\<close>

definition is_invisible :: "nat \<Rightarrow> bool" where
  "is_invisible c \<longleftrightarrow> (0x200B \<le> c \<and> c \<le> 0x200F) \<or> (0x202A \<le> c \<and> c \<le> 0x202E) \<or> (0x2060 \<le> c \<and> c \<le> 0x2069)
     \<or> c = 0xFEFF"

definition blank_char :: "nat \<Rightarrow> nat" where
  "blank_char c = (if is_control c \<or> is_space c \<or> is_invisible c then 32 else c)"

fun clean_loop :: "nat \<Rightarrow> bool \<Rightarrow> nat \<Rightarrow> chars \<Rightarrow> chars \<Rightarrow> chars" where
  "clean_loop mx last_space n out [] = trim_row out"
| "clean_loop mx last_space n out (c # cs) =
     (let c = blank_char c
      in if c = 32 \<and> last_space then clean_loop mx last_space n out cs
         else if n = mx then trim_row (butlast out @ [0x2026])
         else clean_loop mx (c = 32) (n + 1) (out @ [c]) cs)"

definition clean :: "chars \<Rightarrow> nat \<Rightarrow> chars" where
  "clean s mx = clean_loop mx True 0 [] s"

section \<open>Labels\<close>

definition plain_char :: "nat \<Rightarrow> bool" where
  "plain_char c \<longleftrightarrow> (48 \<le> c \<and> c \<le> 57) \<or> (65 \<le> c \<and> c \<le> 90) \<or> (97 \<le> c \<and> c \<le> 122) \<or> c = 32 \<or> c = 95 \<or> c = 45"

definition safe_label :: "str option \<Rightarrow> chars option" where
  "safe_label l =
     (case l of
        None \<Rightarrow> None
      | Some l \<Rightarrow>
          let s = clean (to_chars l) 40
          in if s \<noteq> [] \<and> list_all plain_char s then Some (map (\<lambda>c. if c = 95 then 32 else c) s) else None)"

definition tool_label :: "str option \<Rightarrow> chars option" where
  "tool_label tool =
     (case tool of
        None \<Rightarrow> None
      | Some t \<Rightarrow>
          let t = trim t
          in if t = [] then None
             else let t = (case strip_prefix t ''mcp__'' of
                        Some rest \<Rightarrow>
                          (case split_once rest ''__'' of
                             Some (server, tool) \<Rightarrow> to_chars server @ dot @ to_chars tool
                           | None \<Rightarrow> to_chars rest)
                      | None \<Rightarrow> to_chars t);
                      t = clean t 60
                  in if t = [] then None else Some t)"

definition duration_label :: "nat \<Rightarrow> chars option" where
  "duration_label ms =
     (let s = ms div 1000
      in if s = 0 then None
         else Some (lit (if s < 60 then show_nat s @ '' s''
                    else if s < 3600 then show_nat (s div 60) @ '' min''
                    else let m = s mod 3600 div 60
                         in if m = 0 then show_nat (s div 3600) @ '' h''
                            else show_nat (s div 3600) @ '' h '' @ show_nat m @ '' min'')))"

section \<open>Lines\<close>

definition with_label :: "str \<Rightarrow> chars option \<Rightarrow> chars" where
  "with_label s l = lit s @ (case l of Some l \<Rightarrow> dot @ l | None \<Rightarrow> [])"

definition short_line :: "push_event \<Rightarrow> chars" where
  "short_line e =
     (case ev_kind e of
        PkPermission \<Rightarrow> with_label ''Needs approval'' (tool_label (ev_tool e))
      | PkQuestion \<Rightarrow> lit ''Has a question''
      | PkPlan \<Rightarrow> lit ''Plan ready for review''
      | PkWaiting \<Rightarrow> with_label ''Waiting at the Mac'' (safe_label (ev_label e))
      | PkFinished \<Rightarrow> (case Option.bind (ev_worked_ms e) duration_label of
                        Some d \<Rightarrow> lit ''Finished after '' @ d | None \<Rightarrow> lit ''Finished'')
      | PkFailed \<Rightarrow> with_label ''Stopped on an error'' (safe_label (ev_label e))
      | PkClaude \<Rightarrow> lit ''Claude sent a notification''
      | PkIdle \<Rightarrow> lit ''Waiting for your input''
      | PkTest \<Rightarrow> lit ''Test notification '' @ [0x2014] @ lit '' notifications work.'')"

definition detailed_line :: "push_event \<Rightarrow> chars" where
  "detailed_line e =
     (case map_option (\<lambda>d. clean (to_chars d) DETAIL_MAX) (ev_detail e) of
        None \<Rightarrow> short_line e
      | Some detail \<Rightarrow>
          if detail = [] then short_line e
          else case ev_kind e of
                 PkClaude \<Rightarrow> detail
               | PkQuestion \<Rightarrow> lit ''Question: '' @ detail
               | PkPlan \<Rightarrow> lit ''Plan ready: '' @ detail
               | PkFinished \<Rightarrow> short_line e @ dot @ detail
               | PkFailed \<Rightarrow> short_line e @ dot @ detail
               | _ \<Rightarrow> short_line e @ lit '': '' @ detail)"

fun join_comma :: "chars list \<Rightarrow> chars" where
  "join_comma [] = []"
| "join_comma [l] = l"
| "join_comma (l # ls) = l @ lit '', '' @ join_comma ls"

definition render_body :: "push_event list \<Rightarrow> bool \<Rightarrow> chars" where
  "render_body events show_details =
     (case events of
        [] \<Rightarrow> []
      | [e] \<Rightarrow> if show_details then detailed_line e else short_line e
      | _ \<Rightarrow> lit (show_nat (length events)) @ lit '' updates'' @ dot @ join_comma (map short_line events))"

definition optional_list :: "'a option \<Rightarrow> 'a list" where
  "optional_list x = (case x of Some y \<Rightarrow> [y] | None \<Rightarrow> [])"

definition render_notification :: "str option \<Rightarrow> str \<Rightarrow> push_event list \<Rightarrow> bool \<Rightarrow> notification" where
  "render_notification name session_id events show_details =
     (let test = list_all (\<lambda>e. ev_kind e = PkTest) events;
          title = (case map_option (\<lambda>n. clean (to_chars n) TITLE_MAX) name of
                     Some n \<Rightarrow> if n \<noteq> [] \<and> \<not> test then n else lit ''Mother Claude''
                   | None \<Rightarrow> lit ''Mother Claude'');
          pending_ids = concat (map (\<lambda>e. optional_list (ev_pending_id e)) events);
          attention = list_ex (\<lambda>e. is_attention (ev_kind e)) events
      in \<lparr>no_title = title,
          no_body = clean (render_body events show_details) BODY_MAX,
          no_kind = (case events of e # _ \<Rightarrow> ev_kind e | [] \<Rightarrow> PkTest),
          no_kinds = map ev_kind events,
          no_tag = (if test then ''mother-claude-test''
                    else case (events, pending_ids) of ([_], i # _) \<Rightarrow> i | _ \<Rightarrow> session_id),
          no_renotify = attention,
          no_actionable = (case events of
              [e] \<Rightarrow> ev_kind e = PkPermission \<and> \<not> ev_dangerous e \<and> ev_pending_id e \<noteq> None | _ \<Rightarrow> False),
          no_pending_ids = pending_ids,
          no_session_id = (if test then None else Some session_id),
          no_urgency = (if test \<or> attention \<or> list_ex (\<lambda>e. ev_kind e \<in> {PkFailed, PkClaude}) events
                        then UrgHigh else UrgNormal),
          no_ttl_secs = (if test then 300 else if attention then 3600 else 4 * 3600)\<rparr>)"

definition topic_for :: "(str \<Rightarrow> str) \<Rightarrow> str \<Rightarrow> str" where
  "topic_for sha session_id = take 32 (sha256_hex sha (''mother-claude-topic:'' @ session_id))"

section \<open>The request\<close>

text \<open>\<open>build_request\<close> up to the encryption, which is a parameter, as are the parser of the URI, the decoder of the
  keys and the check of the point.\<close>

record push_request =
  rq_endpoint :: str
  rq_body :: str
  rq_ttl :: nat
  rq_urgency :: urgency
  rq_topic :: "str option"

definition build_request :: "(str \<Rightarrow> bool) \<Rightarrow> (str \<Rightarrow> nat list option) \<Rightarrow> (nat list \<Rightarrow> bool)
  \<Rightarrow> (nat list \<Rightarrow> nat list \<Rightarrow> notification \<Rightarrow> str + str) \<Rightarrow> subscription \<Rightarrow> notification \<Rightarrow> str option \<Rightarrow> str + push_request"
where
  "build_request uri_ok decode on_curve encrypt sub n topic =
     (if \<not> uri_ok (sb_endpoint sub) then Inl ''endpoint is not a valid URI''
      else case decode (sb_p256dh sub) of
        None \<Rightarrow> Inl ''bad p256dh''
      | Some point \<Rightarrow>
          if \<not> on_curve point then Inl ''bad p256dh''
          else case decode (sb_auth sub) of
            None \<Rightarrow> Inl ''bad auth''
          | Some secret \<Rightarrow>
              if length secret \<noteq> 16 then Inl ''bad auth''
              else case encrypt point secret n of
                Inl e \<Rightarrow> Inl (''could not encrypt: '' @ e)
              | Inr body \<Rightarrow> Inr \<lparr>rq_endpoint = sb_endpoint sub, rq_body = body, rq_ttl = no_ttl_secs n,
                              rq_urgency = no_urgency n, rq_topic = topic\<rparr>)"

section \<open>Lemmas\<close>

text \<open>The loop of \<open>clean\<close>: what it has put out has no blank but single spaces, none in front.\<close>

definition clean_char :: "nat \<Rightarrow> bool" where
  "clean_char c \<longleftrightarrow> c = 32 \<or> (\<not> is_control c \<and> \<not> is_space c \<and> \<not> is_invisible c)"

definition clean_text :: "chars \<Rightarrow> bool" where
  "clean_text s \<longleftrightarrow> list_all clean_char s \<and> (s = [] \<or> (hd s \<noteq> 32 \<and> last s \<noteq> 32))"

lemma blank_char_clean: "clean_char (blank_char c)"
  by (simp add: blank_char_def clean_char_def)

lemma trim_row_prefix: "\<exists>r. s = trim_row s @ r \<and> (\<forall>c \<in> set r. is_space c)"
proof -
  have "rev s = takeWhile is_space (rev s) @ dropWhile is_space (rev s)" by simp
  then have "s = rev (dropWhile is_space (rev s)) @ rev (takeWhile is_space (rev s))"
    by (metis rev_append rev_rev_ident)
  moreover have "\<forall>c \<in> set (rev (takeWhile is_space (rev s))). is_space c" by (auto dest: set_takeWhileD)
  ultimately show ?thesis unfolding trim_row_def by blast
qed

lemma trim_row_last: "trim_row s \<noteq> [] \<Longrightarrow> \<not> is_space (last (trim_row s))"
  using hd_dropWhile [of is_space "rev s"] by (simp add: trim_row_def last_rev)

lemma clean_text_trim:
  assumes "list_all clean_char s" "s = [] \<or> hd s \<noteq> 32"
  shows "clean_text (trim_row s)"
proof -
  obtain r where r: "s = trim_row s @ r" using trim_row_prefix by blast
  have "list_all clean_char (trim_row s)" using assms(1) by (subst (asm) r) simp
  moreover have "trim_row s \<noteq> [] \<longrightarrow> hd (trim_row s) \<noteq> 32" using assms(2) r by (metis append_is_Nil_conv hd_append2)
  moreover have "is_space 32" by (simp add: is_space_def)
  ultimately show ?thesis using trim_row_last [of s] by (auto simp: clean_text_def)
qed

lemma length_trim_row: "length (trim_row s) \<le> length s"
  by (simp add: trim_row_def) (metis length_dropWhile_le length_rev)

lemma clean_loop_clean:
  assumes "list_all clean_char out" "out = [] \<or> hd out \<noteq> 32" "out = [] \<longrightarrow> last_space" "length out = n" "n \<le> mx" "0 < mx"
  shows "clean_text (clean_loop mx last_space n out s) \<and> length (clean_loop mx last_space n out s) \<le> mx"
  using assms
proof (induction mx last_space n out s rule: clean_loop.induct)
  case (1 mx last_space n out)
  then show ?case using length_trim_row [of out] clean_text_trim by fastforce
next
  case (2 mx last_space n out c cs)
  let ?c = "blank_char c"
  consider "?c = 32 \<and> last_space" | "\<not> (?c = 32 \<and> last_space)" "n = mx" | "\<not> (?c = 32 \<and> last_space)" "n \<noteq> mx" by blast
  then show ?case
  proof cases
    case 1
    then show ?thesis using "2.IH"(1) [OF refl 1] "2.prems" by (simp add: Let_def)
  next
    case 2
    let ?o = "butlast out @ [0x2026]"
    have "list_all clean_char (butlast out)" using "2.prems"(1) by (auto simp: list_all_iff dest: in_set_butlastD)
    then have "list_all clean_char ?o"
      by (simp add: clean_char_def is_control_def is_space_def is_invisible_def)
    moreover have "hd ?o \<noteq> 32" using "2.prems"(2) by (cases out; cases "tl out") auto
    ultimately have "clean_text (trim_row ?o)" by (intro clean_text_trim) simp_all
    moreover have "length (trim_row ?o) \<le> mx" using length_trim_row [of ?o] "2.prems"(4-6) 2 by simp
    ultimately show ?thesis using 2 by (auto simp: Let_def)
  next
    case 3
    have o: "list_all clean_char (out @ [?c])" "out @ [?c] = [] \<or> hd (out @ [?c]) \<noteq> 32"
      using "2.prems"(1-3) 3 blank_char_clean [of c] by (cases out; auto)+
    from "2.IH"(2) [OF refl 3(1,2) o] "2.prems" 3 show ?thesis by (auto simp: Let_def)
  qed
qed

lemma clean_is_clean: "0 < mx \<Longrightarrow> clean_text (clean s mx) \<and> length (clean s mx) \<le> mx"
  unfolding clean_def by (rule clean_loop_clean) simp_all

end
