(* ===== verification/PushEndpoint.thy ===== *)
theory PushEndpoint
  imports Context
begin

text \<open>
  \<open>server/push/endpoint.rs\<close>: which push endpoints are accepted, and which addresses a push may be sent to.
  The URL parser of the \<open>url\<close> crate is a parameter; a \<open>url\<close> is what the code reads of its result. The
  resolver is a parameter too.
\<close>

unbundle bit_operations_syntax

definition MAX_ENDPOINT_LEN :: nat where "MAX_ENDPOINT_LEN = 2048"

definition ALLOWED_HOSTS :: "str list" where
  "ALLOWED_HOSTS = [''*.push.apple.com'', ''fcm.googleapis.com'', ''updates.push.services.mozilla.com'',
     ''*.notify.windows.com'']"

datatype endpoint_error =
  TooLong | Unparseable | NotHttps | Credentials | Fragment | IpLiteral | Port | BadHost | NotAllowed | PrivateAddress

definition endpoint_message :: "endpoint_error \<Rightarrow> str" where
  "endpoint_message e = (case e of
     TooLong \<Rightarrow> ''The push endpoint URL is too long.''
   | Unparseable \<Rightarrow> ''The push endpoint is not a valid URL.''
   | NotHttps \<Rightarrow> ''The push endpoint must use https.''
   | Credentials \<Rightarrow> ''The push endpoint must not contain credentials.''
   | Fragment \<Rightarrow> ''The push endpoint must not contain a fragment.''
   | IpLiteral \<Rightarrow> ''The push endpoint must be a host name, not an IP address.''
   | Port \<Rightarrow> ''The push endpoint must use the default https port.''
   | BadHost \<Rightarrow> ''The push endpoint host name is not valid.''
   | NotAllowed \<Rightarrow> ''The push endpoint is not a known browser push service (Apple, Google FCM, Mozilla or Windows).''
   | PrivateAddress \<Rightarrow> ''The push endpoint resolves to a private or local address.'')"

record url =
  ur_text :: str
  ur_scheme :: str
  ur_username :: str
  ur_password :: "str option"
  ur_fragment :: "str option"
  ur_port :: "nat option"
  ur_host :: "str option"

section \<open>Names\<close>

definition is_ascii_lower :: "char \<Rightarrow> bool" where
  "is_ascii_lower c \<longleftrightarrow> 97 \<le> byte c \<and> byte c \<le> 122"

definition label_ok :: "str \<Rightarrow> bool" where
  "label_ok l \<longleftrightarrow> l \<noteq> [] \<and> length l \<le> 63 \<and> \<not> starts_with l ''-'' \<and> \<not> ends_with l ''-''
     \<and> list_all (\<lambda>c. is_ascii_lower c \<or> is_ascii_digit c \<or> c = CHR ''-'') l"

definition valid_dns_name :: "str \<Rightarrow> bool" where
  "valid_dns_name host \<longleftrightarrow>
     (if host = [] \<or> length host > 253 then False
      else let labels = split_byte (CHR ''.'') host
           in if length labels < 2 then False
              else if \<not> list_all label_ok labels then False
              else \<not> list_all is_ascii_digit (last labels))"

definition host_matches :: "str \<Rightarrow> str \<Rightarrow> bool" where
  "host_matches host pattern \<longleftrightarrow>
     (case strip_prefix pattern ''*.'' of
        Some suffix \<Rightarrow>
          (case Option.bind (strip_suffix host suffix) (\<lambda>head. strip_suffix head ''.'') of
             Some head \<Rightarrow> head \<noteq> [] | None \<Rightarrow> False)
      | None \<Rightarrow> host = pattern)"

definition host_allowed :: "str \<Rightarrow> bool" where
  "host_allowed host \<longleftrightarrow> list_ex (host_matches host) ALLOWED_HOSTS"

definition validate_endpoint :: "(str \<Rightarrow> url option) \<Rightarrow> str \<Rightarrow> endpoint_error + url" where
  "validate_endpoint parse raw =
     (let raw = trim raw
      in if length raw > MAX_ENDPOINT_LEN then Inl TooLong
         else case parse raw of
           None \<Rightarrow> Inl Unparseable
         | Some u \<Rightarrow>
             if ur_scheme u \<noteq> ''https'' then Inl NotHttps
             else if ur_username u \<noteq> [] \<or> ur_password u \<noteq> None then Inl Credentials
             else if ur_fragment u \<noteq> None then Inl Fragment
             else if ur_port u \<noteq> None then Inl Port
             else case ur_host u of
               None \<Rightarrow> Inl BadHost
             | Some host \<Rightarrow>
                 if starts_with host ''['' \<or> parse_ipv4 host \<noteq> None then Inl IpLiteral
                 else if \<not> valid_dns_name host then Inl BadHost
                 else if \<not> host_allowed host then Inl NotAllowed
                 else Inr u)"

definition log_host :: "(str \<Rightarrow> url option) \<Rightarrow> str \<Rightarrow> str" where
  "log_host parse endpoint = (case Option.bind (parse endpoint) ur_host of Some h \<Rightarrow> h | None \<Rightarrow> ''?'')"

section \<open>Addresses\<close>

definition v4_is_documentation :: "32 word \<Rightarrow> bool" where
  "v4_is_documentation v \<longleftrightarrow>
     (v4_octet v 0 = 192 \<and> v4_octet v 1 = 0 \<and> v4_octet v 2 = 2)
     \<or> (v4_octet v 0 = 198 \<and> v4_octet v 1 = 51 \<and> v4_octet v 2 = 100)
     \<or> (v4_octet v 0 = 203 \<and> v4_octet v 1 = 0 \<and> v4_octet v 2 = 113)"

definition v6_is_unique_local :: "128 word \<Rightarrow> bool" where
  "v6_is_unique_local v \<longleftrightarrow> v6_segment v 0 AND 0xfe00 = 0xfc00"

definition v6_is_unicast_link_local :: "128 word \<Rightarrow> bool" where
  "v6_is_unicast_link_local v \<longleftrightarrow> v6_segment v 0 AND 0xffc0 = 0xfe80"

definition is_public_v4 :: "32 word \<Rightarrow> bool" where
  "is_public_v4 v \<longleftrightarrow>
     (let o0 = v4_octet v 0; o1 = v4_octet v 1; o2 = v4_octet v 2
      in \<not> (ip_is_unspecified (V4 v) \<or> ip_is_loopback (V4 v) \<or> v4_is_private v \<or> v4_is_link_local v
            \<or> v4_is_broadcast v \<or> ip_is_multicast (V4 v) \<or> v4_is_documentation v
            \<or> o0 = 0
            \<or> (o0 = 100 \<and> o1 AND 0xc0 = 64)
            \<or> (o0 = 192 \<and> o1 = 0 \<and> o2 = 0)
            \<or> (o0 = 198 \<and> o1 AND 0xfe = 18)
            \<or> o0 \<ge> 240))"

definition v4_of_segments :: "nat \<Rightarrow> nat \<Rightarrow> 32 word" where
  "v4_of_segments a b = v4_of_octets [a div 256, a mod 256, b div 256, b mod 256]"

definition is_public_v6 :: "128 word \<Rightarrow> bool" where
  "is_public_v6 v \<longleftrightarrow>
     (let s = v6_segment v
      in if ip_is_unspecified (V6 v) \<or> ip_is_loopback (V6 v) \<or> ip_is_multicast (V6 v) \<or> v6_is_unique_local v
            \<or> v6_is_unicast_link_local v then False
         else if s 0 AND 0xffc0 = 0xfec0 then False
         else if s 0 = 0x2001 \<and> (s 1 = 0x0db8 \<or> s 1 = 0) then False
         else if s 0 = 0x64 \<and> s 1 = 0xff9b \<and> list_all (\<lambda>i. s i = 0) [2..<6]
              then is_public_v4 (v4_of_segments (s 6) (s 7))
         else if s 0 = 0x2002 then is_public_v4 (v4_of_segments (s 1) (s 2))
         else if list_all (\<lambda>i. s i = 0) [0..<6] then False
         else True)"

definition is_public_ip :: "ip_addr \<Rightarrow> bool" where
  "is_public_ip ip \<longleftrightarrow> (case to_canonical ip of V4 v \<Rightarrow> is_public_v4 v | V6 v \<Rightarrow> is_public_v6 v)"

section \<open>Resolution\<close>

text \<open>The answer of a lookup: addresses, an error, or nothing in time.\<close>

datatype lookup_result = Addresses "ip_addr list" | LookupFailed | LookupTimedOut

text \<open>\<open>PublicOnlyResolver\<close>: what a push may be connected to; \<open>None\<close> is an error.\<close>

definition resolve_public :: "lookup_result \<Rightarrow> ip_addr list option" where
  "resolve_public r =
     (case r of
        Addresses ips \<Rightarrow> let public = filter is_public_ip ips in if public = [] then None else Some public
      | _ \<Rightarrow> None)"

definition check_resolution :: "lookup_result \<Rightarrow> endpoint_error option" where
  "check_resolution r =
     (case r of
        Addresses ips \<Rightarrow> if list_ex (\<lambda>ip. \<not> is_public_ip ip) ips then Some PrivateAddress else None
      | _ \<Rightarrow> None)"

section \<open>Exact descriptions\<close>

subsection \<open>Accepted endpoints\<close>

text \<open>A subdomain of \<open>d\<close>: at least one label in front of it.\<close>

definition subdomain_of :: "str \<Rightarrow> str \<Rightarrow> bool" where
  "subdomain_of d host \<longleftrightarrow> (\<exists>head. head \<noteq> [] \<and> host = head @ ''.'' @ d)"

lemma strip_suffix_Some: "strip_suffix s p = Some h \<longleftrightarrow> s = h @ p"
  by (auto simp: strip_suffix_def ends_with_iff)

lemma host_matches_wildcard: "host_matches host (''*.'' @ d) \<longleftrightarrow> subdomain_of d host"
proof -
  have "strip_prefix (''*.'' @ d) ''*.'' = Some d" by (simp add: strip_prefix_def)
  moreover have "(case Option.bind (strip_suffix host d) (\<lambda>head. strip_suffix head ''.'') of
      Some head \<Rightarrow> head \<noteq> [] | None \<Rightarrow> False) \<longleftrightarrow> (\<exists>head. head \<noteq> []
      \<and> Option.bind (strip_suffix host d) (\<lambda>head. strip_suffix head ''.'') = Some head)"
    by (auto split: option.splits)
  ultimately show ?thesis
    by (auto simp: host_matches_def subdomain_of_def strip_suffix_Some bind_eq_Some_conv)
qed

lemma host_allowed_iff:
  "host_allowed host \<longleftrightarrow> subdomain_of ''push.apple.com'' host \<or> host = ''fcm.googleapis.com''
     \<or> host = ''updates.push.services.mozilla.com'' \<or> subdomain_of ''notify.windows.com'' host"
proof -
  have "host_matches host ''fcm.googleapis.com'' \<longleftrightarrow> host = ''fcm.googleapis.com''"
    "host_matches host ''updates.push.services.mozilla.com'' \<longleftrightarrow> host = ''updates.push.services.mozilla.com''"
    by (simp_all add: host_matches_def strip_prefix_def starts_with_def)
  then show ?thesis
    using host_matches_wildcard [of host "''push.apple.com''"] host_matches_wildcard [of host "''notify.windows.com''"]
    by (simp add: host_allowed_def ALLOWED_HOSTS_def)
qed


text \<open>An endpoint is accepted exactly when it is an https URL without user, password, fragment and port on
  a well-formed name of one of the four services.\<close>

definition accepted_url :: "url \<Rightarrow> bool" where
  "accepted_url u \<longleftrightarrow> ur_scheme u = ''https'' \<and> ur_username u = [] \<and> ur_password u = None \<and> ur_fragment u = None
     \<and> ur_port u = None
     \<and> (\<exists>host. ur_host u = Some host \<and> valid_dns_name host
          \<and> (subdomain_of ''push.apple.com'' host \<or> host = ''fcm.googleapis.com''
             \<or> host = ''updates.push.services.mozilla.com'' \<or> subdomain_of ''notify.windows.com'' host))"

lemma valid_dns_name_chars:
  assumes "valid_dns_name host" shows "\<not> starts_with host ''[''"
proof
  assume "starts_with host ''[''"
  then obtain r where host: "host = CHR ''['' # r" by (auto simp: starts_with_iff)
  have "label_ok (hd (split_byte (CHR ''.'') host))"
    using assms by (auto simp: valid_dns_name_def Let_def list_all_iff split: if_splits)
  then show False
    by (auto simp: host label_ok_def is_ascii_lower_def is_ascii_digit_def byte_def split: list.splits)
qed

text \<open>The hosts of the services have a letter in them, so none is the text of an IPv4 address.\<close>

lemma allowed_host_not_ipv4: "host_allowed host \<Longrightarrow> parse_ipv4 host = None"
proof (rule ccontr)
  assume h: "host_allowed host" and "parse_ipv4 host \<noteq> None"
  then have "CHR ''m'' \<in> set host \<longrightarrow> False"
    by (auto dest!: parse_ipv4_chars simp: is_ascii_digit_def byte_def)
  moreover have "CHR ''m'' \<in> set host" using h by (auto simp: host_allowed_iff subdomain_of_def)
  ultimately show False by blast
qed

lemma validate_endpoint_exact:
  "validate_endpoint parse raw = Inr u
     \<longleftrightarrow> length (trim raw) \<le> MAX_ENDPOINT_LEN \<and> parse (trim raw) = Some u \<and> accepted_url u"
  using valid_dns_name_chars [of "the (ur_host u)"]
  by (auto simp: validate_endpoint_def Let_def accepted_url_def host_allowed_iff [symmetric]
    allowed_host_not_ipv4 simp del: starts_with_Cons split: option.splits if_splits)

subsection \<open>Public addresses\<close>

text \<open>The networks no push may be sent to, as the IANA registries list them.\<close>

type_synonym net4 = "nat list \<times> nat"

definition in_net4 :: "32 word \<Rightarrow> net4 \<Rightarrow> bool" where
  "in_net4 v n \<longleftrightarrow> drop_bit (32 - snd n) v = drop_bit (32 - snd n) (v4_of_octets (fst n))"

definition SPECIAL_V4 :: "net4 list" where
  "SPECIAL_V4 = [([0, 0, 0, 0], 8), ([10, 0, 0, 0], 8), ([100, 64, 0, 0], 10), ([127, 0, 0, 0], 8),
     ([169, 254, 0, 0], 16), ([172, 16, 0, 0], 12), ([192, 0, 0, 0], 24), ([192, 0, 2, 0], 24),
     ([192, 168, 0, 0], 16), ([198, 18, 0, 0], 15), ([198, 51, 100, 0], 24), ([203, 0, 113, 0], 24),
     ([224, 0, 0, 0], 4), ([240, 0, 0, 0], 4)]"

lemma v4_octet_div: "i < 4 \<Longrightarrow> v4_octet v i = (unat v div 2 ^ (24 - 8 * i)) mod 256"
  by (simp add: v4_octet_def unsigned_take_bit_eq unat_drop_bit_eq take_bit_eq_mod [where 'a = nat]
    drop_bit_eq_div [where 'a = nat])

lemma in_net4_iff:
  "in_net4 v (os, n) \<longleftrightarrow> unat v div 2 ^ (32 - n) = unat (v4_of_octets os) div 2 ^ (32 - n)"
  by (simp add: in_net4_def word_eq_iff_unsigned [where 'a = nat] unat_drop_bit_eq drop_bit_eq_div [where 'a = nat])

lemma octets_of:
  obtains a b c d where "a < 256" "b < 256" "c < 256" "d < 256" "unat (v :: 32 word) = ((a * 256 + b) * 256 + c) * 256 + d"
    "v4_octet v 0 = a" "v4_octet v 1 = b" "v4_octet v 2 = c" "v4_octet v 3 = d"
proof -
  let ?n = "unat v"
  have n: "?n < 2 ^ 32" using unsigned_less [of v] by simp
  have "?n div 2 ^ 24 < 256" using n by simp
  moreover have "?n = ?n div 2 ^ 8 * 256 + ?n mod 256" "?n div 2 ^ 8 = ?n div 2 ^ 16 * 256 + ?n div 2 ^ 8 mod 256"
    "?n div 2 ^ 16 = ?n div 2 ^ 24 * 256 + ?n div 2 ^ 16 mod 256"
    using div_mult_mod_eq [of ?n 256] div_mult_mod_eq [of "?n div 2 ^ 8" 256] div_mult_mod_eq [of "?n div 2 ^ 16" 256]
    by (simp_all add: div_mult2_eq [symmetric])
  then have "?n = ((?n div 2 ^ 24 * 256 + ?n div 2 ^ 16 mod 256) * 256 + ?n div 2 ^ 8 mod 256) * 256 + ?n mod 256"
    by presburger
  ultimately show ?thesis
    by (intro that [of "?n div 2 ^ 24" "?n div 2 ^ 16 mod 256" "?n div 2 ^ 8 mod 256" "?n mod 256"])
      (simp_all add: v4_octet_div)
qed

text \<open>Masks of adjacent bits.\<close>

lemma and_push_mask: "x AND push_bit k (mask m) = push_bit k (take_bit m (drop_bit k x))" for x :: nat
  by (rule bit_eqI) (auto simp: bit_simps)

lemma and_mask_eq_iff:
  assumes "x < 2 ^ (k + m)" shows "x AND push_bit k (mask m) = push_bit k c \<longleftrightarrow> x div 2 ^ k = (c :: nat)"
proof -
  have "x div 2 ^ k < 2 ^ m" using assms by (simp add: less_mult_imp_div_less power_add mult.commute)
  then have "x AND push_bit k (mask m) = push_bit k (x div 2 ^ k)"
    by (simp add: and_push_mask take_bit_nat_eq_self drop_bit_eq_div)
  then show ?thesis by (simp add: push_bit_eq_mult)
qed

lemma mask_c0: "b < 256 \<Longrightarrow> b AND 0xc0 = (64 :: nat) \<longleftrightarrow> b div 64 = 1"
  using and_mask_eq_iff [of b 6 2 1] by (simp add: mask_eq_exp_minus_1 push_bit_eq_mult)

lemma mask_fe: "b < 256 \<Longrightarrow> b AND 0xfe = (18 :: nat) \<longleftrightarrow> b div 2 = 9"
  using and_mask_eq_iff [of b 1 7 9] by (simp add: mask_eq_exp_minus_1 push_bit_eq_mult)

lemma unat_v4_of_octets:
  "a < 256 \<Longrightarrow> b < 256 \<Longrightarrow> c < 256 \<Longrightarrow> d < 256
     \<Longrightarrow> unat (v4_of_octets [a, b, c, d]) = ((a * 256 + b) * 256 + c) * 256 + d"
  by (simp add: v4_of_octets_def unat_word_ariths unsigned_of_nat take_bit_eq_mod)

lemma net_splits:
  assumes "b < 256" "c < 256" "d < (256 :: nat)"
  shows "(((a * 256 + b) * 256 + c) * 256 + d) div 2 ^ 8 = (a * 256 + b) * 256 + c"
    "(((a * 256 + b) * 256 + c) * 256 + d) div 2 ^ 16 = a * 256 + b"
    "(((a * 256 + b) * 256 + c) * 256 + d) div 2 ^ 17 = (a * 256 + b) div 2"
    "(((a * 256 + b) * 256 + c) * 256 + d) div 2 ^ 20 = (a * 256 + b) div 16"
    "(((a * 256 + b) * 256 + c) * 256 + d) div 2 ^ 22 = (a * 256 + b) div 64"
    "(((a * 256 + b) * 256 + c) * 256 + d) div 2 ^ 24 = a"
    "(((a * 256 + b) * 256 + c) * 256 + d) div 2 ^ 28 = a div 16"
proof -
  define n where "n = ((a * 256 + b) * 256 + c) * 256 + d"
  have 1: "n div 256 = (a * 256 + b) * 256 + c" using assms(3) by (simp add: n_def)
  have 2: "((a * 256 + b) * 256 + c) div 256 = a * 256 + b" using assms(2) by simp
  have 3: "(a * 256 + b) div 256 = a" using assms(1) by simp
  have "n div 65536 = n div 256 div 256" by (simp add: div_mult2_eq [symmetric])
  then have 4: "n div 65536 = a * 256 + b" by (simp only: 1 2)
  have "n div 16777216 = n div 65536 div 256" by (simp add: div_mult2_eq [symmetric])
  then have 5: "n div 16777216 = a" by (simp only: 4 3)
  show "(((a * 256 + b) * 256 + c) * 256 + d) div 2 ^ 8 = (a * 256 + b) * 256 + c"
    "(((a * 256 + b) * 256 + c) * 256 + d) div 2 ^ 16 = a * 256 + b"
    "(((a * 256 + b) * 256 + c) * 256 + d) div 2 ^ 24 = a"
    unfolding n_def [symmetric] using 1 4 5 by simp_all
  show "(((a * 256 + b) * 256 + c) * 256 + d) div 2 ^ 17 = (a * 256 + b) div 2"
    unfolding n_def [symmetric] using div_mult2_eq [of n 65536 2] by (simp add: 4)
  show "(((a * 256 + b) * 256 + c) * 256 + d) div 2 ^ 20 = (a * 256 + b) div 16"
    unfolding n_def [symmetric] using div_mult2_eq [of n 65536 16] by (simp add: 4)
  show "(((a * 256 + b) * 256 + c) * 256 + d) div 2 ^ 22 = (a * 256 + b) div 64"
    unfolding n_def [symmetric] using div_mult2_eq [of n 65536 64] by (simp add: 4)
  show "(((a * 256 + b) * 256 + c) * 256 + d) div 2 ^ 28 = a div 16"
    unfolding n_def [symmetric] using div_mult2_eq [of n 16777216 16] by (simp add: 5)
qed

lemma digits_eq:
  fixes k :: nat
  assumes "q < k" "q' < k" shows "a * k + q = a' * k + q' \<longleftrightarrow> a = a' \<and> q = q'"
proof
  assume e: "a * k + q = a' * k + q'"
  have "(a * k + q) div k = a" "(a' * k + q') div k = a'" using assms by simp_all
  then have "a = a'" using e by simp
  with e show "a = a' \<and> q = q'" by simp
qed simp

lemma is_public_v4_exact: "is_public_v4 v \<longleftrightarrow> \<not> list_ex (in_net4 v) SPECIAL_V4"
proof -
  obtain a b c d where r: "a < 256" "b < 256" "c < 256" "d < 256"
    and n: "unat v = ((a * 256 + b) * 256 + c) * 256 + d"
    and o: "v4_octet v 0 = a" "v4_octet v 1 = b" "v4_octet v 2 = c" "v4_octet v 3 = d"
    by (rule octets_of)
  have z: "v = 0 \<Longrightarrow> a = 0" "v = 0xffffffff \<Longrightarrow> 240 \<le> a"
    using o(1) by (auto simp: v4_octet_div)
  have net: "in_net4 v ([w, x, y, 0], k) \<longleftrightarrow> (((a * 256 + b) * 256 + c) * 256 + d) div 2 ^ (32 - k)
      = (((w * 256 + x) * 256 + y) * 256 + 0) div 2 ^ (32 - k)" if "w < 256" "x < 256" "y < 256" for w x y k
    using that by (simp add: in_net4_iff n unat_v4_of_octets)
  note s = net_splits [OF r(2,3,4), of a]
  have d: "(x * 256 + y) div 64 = x * 4 + y div 64" "(x * 256 + y) div 16 = x * 16 + y div 16"
    "(x * 256 + y) div 2 = x * 128 + y div 2" for x y :: nat by simp_all
  have e: "y div 64 < 4" "y div 16 < 16" "y div 2 < 128" if "y < 256" for y :: nat using that by simp_all
  note u = net_splits
  have p8: "in_net4 v ([w, 0, 0, 0], 8) \<longleftrightarrow> a = w" if "w < 256" for w
    using net [of w 0 0 8] u(6) [of 0 0 0 w] s(6) that by simp
  have p4: "in_net4 v ([w, 0, 0, 0], 4) \<longleftrightarrow> a div 16 = w div 16" if "w < 256" for w
    using net [of w 0 0 4] u(7) [of 0 0 0 w] s(7) that by simp
  have p10: "in_net4 v ([w, x, 0, 0], 10) \<longleftrightarrow> a = w \<and> b div 64 = x div 64" if "w < 256" "x < 256" for w x
    using net [of w x 0 10] u(5) [of x 0 0 w] s(5) digits_eq [OF e(1) [OF r(2)] e(1) [OF that(2)], of a w] that
    by (simp add: d)
  have p12: "in_net4 v ([w, x, 0, 0], 12) \<longleftrightarrow> a = w \<and> b div 16 = x div 16" if "w < 256" "x < 256" for w x
    using net [of w x 0 12] u(4) [of x 0 0 w] s(4) digits_eq [OF e(2) [OF r(2)] e(2) [OF that(2)], of a w] that
    by (simp add: d)
  have p15: "in_net4 v ([w, x, 0, 0], 15) \<longleftrightarrow> a = w \<and> b div 2 = x div 2" if "w < 256" "x < 256" for w x
    using net [of w x 0 15] u(3) [of x 0 0 w] s(3) digits_eq [OF e(3) [OF r(2)] e(3) [OF that(2)], of a w] that
    by (simp add: d)
  have p16: "in_net4 v ([w, x, 0, 0], 16) \<longleftrightarrow> a = w \<and> b = x" if "w < 256" "x < 256" for w x
    using net [of w x 0 16] u(2) [of x 0 0 w] s(2) digits_eq [OF r(2) that(2), of a w] that by (simp add: mult.commute)
  have p24: "in_net4 v ([w, x, y, 0], 24) \<longleftrightarrow> a = w \<and> b = x \<and> c = y"
    if "w < 256" "x < 256" "y < 256" for w x y
    using net [of w x y 24, simplified] u(1) [of x y 0 w] s(1) digits_eq [OF r(2) that(2), of a w]
      digits_eq [OF r(3) that(3), of "a * 256 + b" "w * 256 + x"] that
    by (simp add: mult.commute)
  have q: "b div 16 = 1 \<longleftrightarrow> 16 \<le> b \<and> b \<le> 31" "a div 16 = 14 \<longleftrightarrow> 224 \<le> a \<and> a \<le> 239" by arith+
  have q': "a div 16 = 15 \<longleftrightarrow> 240 \<le> a" using r(1) by arith
  have nets:
    "in_net4 v ([0, 0, 0, 0], 8) \<longleftrightarrow> a = 0" "in_net4 v ([10, 0, 0, 0], 8) \<longleftrightarrow> a = 10"
    "in_net4 v ([100, 64, 0, 0], 10) \<longleftrightarrow> a = 100 \<and> b div 64 = 1"
    "in_net4 v ([127, 0, 0, 0], 8) \<longleftrightarrow> a = 127"
    "in_net4 v ([169, 254, 0, 0], 16) \<longleftrightarrow> a = 169 \<and> b = 254"
    "in_net4 v ([172, 16, 0, 0], 12) \<longleftrightarrow> a = 172 \<and> 16 \<le> b \<and> b \<le> 31"
    "in_net4 v ([192, 0, 0, 0], 24) \<longleftrightarrow> a = 192 \<and> b = 0 \<and> c = 0"
    "in_net4 v ([192, 0, 2, 0], 24) \<longleftrightarrow> a = 192 \<and> b = 0 \<and> c = 2"
    "in_net4 v ([192, 168, 0, 0], 16) \<longleftrightarrow> a = 192 \<and> b = 168"
    "in_net4 v ([198, 18, 0, 0], 15) \<longleftrightarrow> a = 198 \<and> b div 2 = 9"
    "in_net4 v ([198, 51, 100, 0], 24) \<longleftrightarrow> a = 198 \<and> b = 51 \<and> c = 100"
    "in_net4 v ([203, 0, 113, 0], 24) \<longleftrightarrow> a = 203 \<and> b = 0 \<and> c = 113"
    "in_net4 v ([224, 0, 0, 0], 4) \<longleftrightarrow> 224 \<le> a \<and> a \<le> 239" "in_net4 v ([240, 0, 0, 0], 4) \<longleftrightarrow> 240 \<le> a"
    by (simp_all add: p8 p10 p12 p15 p16 p24 p4 q [simplified] q')
  have "list_ex (in_net4 v) SPECIAL_V4 \<longleftrightarrow> a = 0 \<or> a = 10 \<or> (a = 100 \<and> b div 64 = 1) \<or> a = 127
      \<or> (a = 169 \<and> b = 254) \<or> (a = 172 \<and> 16 \<le> b \<and> b \<le> 31) \<or> (a = 192 \<and> b = 0 \<and> c = 0)
      \<or> (a = 192 \<and> b = 0 \<and> c = 2) \<or> (a = 192 \<and> b = 168) \<or> (a = 198 \<and> b div 2 = 9)
      \<or> (a = 198 \<and> b = 51 \<and> c = 100) \<or> (a = 203 \<and> b = 0 \<and> c = 113) \<or> (224 \<le> a \<and> a \<le> 239) \<or> 240 \<le> a"
    by (simp add: SPECIAL_V4_def nets)
  then show ?thesis
    unfolding is_public_v4_def Let_def ip_is_unspecified.simps ip_is_loopback.simps
      ip_is_multicast.simps v4_is_private_def v4_is_link_local_def v4_is_broadcast_def v4_is_documentation_def o
      mask_c0 [OF r(2)] mask_fe [OF r(2)]
    using z by satx
qed

text \<open>The networks of IPv6, and those that stand for an IPv4 address.\<close>

definition in_net6 :: "128 word \<Rightarrow> nat list \<times> nat \<Rightarrow> bool" where
  "in_net6 v n \<longleftrightarrow> drop_bit (128 - snd n) v = drop_bit (128 - snd n) (v6_of_groups (fst n))"

definition SPECIAL_V6 :: "(nat list \<times> nat) list" where
  "SPECIAL_V6 = [([0, 0, 0, 0, 0, 0, 0, 0], 96), ([0x2001, 0, 0, 0, 0, 0, 0, 0], 32),
     ([0x2001, 0xdb8, 0, 0, 0, 0, 0, 0], 32), ([0xfc00, 0, 0, 0, 0, 0, 0, 0], 7),
     ([0xfe80, 0, 0, 0, 0, 0, 0, 0], 10), ([0xfec0, 0, 0, 0, 0, 0, 0, 0], 10),
     ([0xff00, 0, 0, 0, 0, 0, 0, 0], 8)]"

definition NAT64 :: "nat list \<times> nat" where "NAT64 = ([0x64, 0xff9b, 0, 0, 0, 0, 0, 0], 96)"
definition SIX_TO_FOUR :: "nat list \<times> nat" where "SIX_TO_FOUR = ([0x2002, 0, 0, 0, 0, 0, 0, 0], 16)"

lemma v6_segment_div: "i < 8 \<Longrightarrow> v6_segment v i = (unat v div 2 ^ (112 - 16 * i)) mod 65536"
  by (simp add: v6_segment_def unsigned_take_bit_eq unat_drop_bit_eq take_bit_eq_mod [where 'a = nat]
    drop_bit_eq_div [where 'a = nat])

lemma in_net6_iff:
  "in_net6 v (gs, n) \<longleftrightarrow> unat v div 2 ^ (128 - n) = unat (v6_of_groups gs) div 2 ^ (128 - n)"
  by (simp add: in_net6_def word_eq_iff_unsigned [where 'a = nat] unat_drop_bit_eq drop_bit_eq_div [where 'a = nat])


definition MAPPED :: "nat list \<times> nat" where "MAPPED = ([0, 0, 0, 0, 0, 0xffff, 0, 0], 96)"

lemma unat_v6_of_groups:
  assumes "list_all (\<lambda>g. g < 65536) gs" and "length gs \<le> 8"
  shows "unat (v6_of_groups gs) = foldl (\<lambda>a g. 65536 * a + g) 0 gs"
proof -
  have "unat (foldl (\<lambda>a g. 65536 * a + of_nat g) (of_nat x :: 128 word) gs) = foldl (\<lambda>a g. 65536 * a + g) x gs"
    if "x < 2 ^ (128 - 16 * length gs)" for x
    using assms that
  proof (induction gs arbitrary: x)
    case Nil
    then show ?case by (simp add: unsigned_of_nat take_bit_nat_eq_self)
  next
    case (Cons g gs)
    let ?k = "128 - 16 * length (g # gs)"
    have e: "(2 :: nat) ^ (128 - 16 * length gs) = 65536 * 2 ^ ?k"
    proof -
      have "128 - 16 * length gs = 16 + ?k" using Cons.prems(2) by simp
      then show ?thesis by (simp only: power_add) simp
    qed
    have "65536 * x + g < 65536 * (x + 1)" using Cons.prems(1) by simp
    also have "\<dots> \<le> 65536 * 2 ^ ?k" using Cons.prems(3) by (intro mult_le_mono) auto
    finally have "65536 * x + g < 2 ^ (128 - 16 * length gs)" by (simp only: e)
    from Cons.IH [OF _ _ this] Cons.prems show ?case by simp
  qed
  from this [of 0] show ?thesis by (simp add: v6_of_groups_def)
qed

lemma groups_of:
  fixes v :: "128 word"
  defines "s \<equiv> v6_segment v" and "n \<equiv> unat v"
  shows "n div 2 ^ 112 = s 0" "n div 2 ^ 96 = s 0 * 65536 + s 1" "n div 2 ^ 80 = (s 0 * 65536 + s 1) * 65536 + s 2"
    "n div 2 ^ 32 = ((((s 0 * 65536 + s 1) * 65536 + s 2) * 65536 + s 3) * 65536 + s 4) * 65536 + s 5"
    "n mod 2 ^ 32 = s 6 * 65536 + s 7" "s i < 65536"
proof -
  have n: "n < 2 ^ 128" using unsigned_less [of v] by (simp add: n_def)
  have seg: "s i = n div 2 ^ (112 - 16 * i) mod 65536" if "i < 8" for i
    using that by (simp add: s_def n_def v6_segment_div)
  show 0: "n div 2 ^ 112 = s 0" using n seg [of 0] by simp
  have step: "n div 2 ^ k = n div 2 ^ (k + 16) * 65536 + n div 2 ^ k mod 65536" for k
    using div_mult_mod_eq [of "n div 2 ^ k" 65536] by (simp add: power_add div_mult2_eq)
  show 1: "n div 2 ^ 96 = s 0 * 65536 + s 1" using step [of 96] 0 seg [of 1] by simp
  show 2: "n div 2 ^ 80 = (s 0 * 65536 + s 1) * 65536 + s 2" using step [of 80] 1 seg [of 2] by simp
  have 3: "n div 2 ^ 64 = ((s 0 * 65536 + s 1) * 65536 + s 2) * 65536 + s 3" using step [of 64] 2 seg [of 3] by simp
  have 4: "n div 2 ^ 48 = (((s 0 * 65536 + s 1) * 65536 + s 2) * 65536 + s 3) * 65536 + s 4"
    using step [of 48] 3 seg [of 4] by simp
  show "n div 2 ^ 32 = ((((s 0 * 65536 + s 1) * 65536 + s 2) * 65536 + s 3) * 65536 + s 4) * 65536 + s 5"
    using step [of 32] 4 seg [of 5] by simp
  have "n mod (65536 * 65536) = 65536 * (n div 65536 mod 65536) + n mod 65536" by (rule mod_mult2_eq)
  then show "n mod 2 ^ 32 = s 6 * 65536 + s 7" using seg [of 6] seg [of 7] by simp
  show "s i < 65536"
    using take_bit_nat_less_exp [of 16 "unat (drop_bit (112 - 16 * i) v)"]
    by (simp add: s_def v6_segment_def unsigned_take_bit_eq)
qed


lemma v4_of_segments_word:
  assumes "a < 65536" "b < 65536" "n mod 2 ^ 32 = a * 65536 + b"
  shows "v4_of_segments a b = of_nat n"
proof -
  have "unat (v4_of_segments a b) = a * 65536 + b"
    using assms(1,2) by (simp add: v4_of_segments_def unat_v4_of_octets algebra_simps)
  then show ?thesis using assms(3) by (simp add: word_eq_iff_unsigned [where 'a = nat] unsigned_of_nat take_bit_eq_mod)
qed

lemma embedded_v4:
  "v4_of_segments (v6_segment v 6) (v6_segment v 7) = ucast v"
  "v4_of_segments (v6_segment v 1) (v6_segment v 2) = ucast (drop_bit 80 v)"
proof -
  note g = groups_of [of v]
  show "v4_of_segments (v6_segment v 6) (v6_segment v 7) = ucast v"
    by (subst v4_of_segments_word [OF g(6) g(6) g(5)]) simp
  have "unat v div 2 ^ 80 mod 2 ^ 32 = v6_segment v 1 * 65536 + v6_segment v 2"
  proof -
    have "unat v div 2 ^ 80 = v6_segment v 0 * 2 ^ 32 + (v6_segment v 1 * 65536 + v6_segment v 2)" using g(3) by simp
    moreover have "v6_segment v 1 * 65536 + v6_segment v 2 < 2 ^ 32" using g(6) [of 1] g(6) [of 2] by simp
    ultimately show ?thesis by (simp only: mod_mult_self3 mod_less)
  qed
  then show "v4_of_segments (v6_segment v 1) (v6_segment v 2) = ucast (drop_bit 80 v)"
    by (subst v4_of_segments_word [OF g(6) g(6)])
      (simp_all add: word_eq_iff_unsigned [where 'a = nat] unsigned_of_nat unsigned_ucast_eq unat_drop_bit_eq
        drop_bit_eq_div [where 'a = nat])
qed


lemma shift_digits: "(x * 65536 + y) div 65536 = x" if "y < 65536" for x y :: nat
  using that by simp

lemma is_public_v6_exact:
  "is_public_v6 v \<longleftrightarrow>
     (if in_net6 v NAT64 then is_public_v4 (ucast v)
      else if in_net6 v SIX_TO_FOUR then is_public_v4 (ucast (drop_bit 80 v))
      else \<not> list_ex (in_net6 v) SPECIAL_V6)"
proof -
  define s where "s = v6_segment v"
  note g = groups_of [of v, folded s_def]
  have net: "in_net6 v (gs, k) \<longleftrightarrow> unat v div 2 ^ (128 - k) = foldl (\<lambda>a g. 65536 * a + g) 0 gs div 2 ^ (128 - k)"
    if "list_all (\<lambda>g. g < 65536) gs" "length gs \<le> 8" for gs k
    using that by (simp add: in_net6_iff unat_v6_of_groups)
  have hi: "unat v div 2 ^ (112 + j) = s 0 div 2 ^ j" for j
    by (simp only: power_add div_mult2_eq g(1))
  have n16: "in_net6 v ([x, 0, 0, 0, 0, 0, 0, 0], k) \<longleftrightarrow> s 0 div 2 ^ (16 - k) = x div 2 ^ (16 - k)"
    if "x < 65536" "k \<le> 16" for x k
  proof -
    have e: "128 - k = 112 + (16 - k)" using that by simp
    have "foldl (\<lambda>a g. 65536 * a + g) 0 [x, 0, 0, 0, 0, 0, 0, 0] div 2 ^ (112 + (16 - k)) = x div 2 ^ (16 - k)"
      by (simp only: power_add div_mult2_eq) simp
    then show ?thesis using net [of "[x, 0, 0, 0, 0, 0, 0, 0]" k] that by (simp only: e hi) simp
  qed
  have n32: "in_net6 v ([x, y, 0, 0, 0, 0, 0, 0], 32) \<longleftrightarrow> s 0 = x \<and> s 1 = y" if "x < 65536" "y < 65536" for x y
  proof -
    have "foldl (\<lambda>a g. 65536 * a + g) 0 [x, y, 0, 0, 0, 0, 0, 0] div 2 ^ 96 = x * 65536 + y" by simp
    then show ?thesis using net [of "[x, y, 0, 0, 0, 0, 0, 0]" 32] digits_eq [OF g(6) [of 1] that(2), of "s 0" x] that g(2)
      by (simp add: mult.commute)
  qed
  have n96: "in_net6 v ([x, y, 0, 0, 0, z, 0, 0], 96) \<longleftrightarrow> s 0 = x \<and> s 1 = y \<and> s 2 = 0 \<and> s 3 = 0 \<and> s 4 = 0 \<and> s 5 = z"
    if "x < 65536" "y < 65536" "z < 65536" for x y z
  proof -
    have "foldl (\<lambda>a g. 65536 * a + g) 0 [x, y, 0, 0, 0, z, 0, 0] div 2 ^ 32
        = ((((x * 65536 + y) * 65536 + 0) * 65536 + 0) * 65536 + 0) * 65536 + z" by simp
    moreover have z: "0 < (65536 :: nat)" by simp
    moreover have "list_all (\<lambda>g. g < 65536) [x, y, 0, 0, 0, z, 0, 0]" using that by simp
    moreover have "((((s 0 * 65536 + s 1) * 65536 + s 2) * 65536 + s 3) * 65536 + s 4) * 65536 + s 5
        = ((((x * 65536 + y) * 65536 + 0) * 65536 + 0) * 65536 + 0) * 65536 + z
        \<longleftrightarrow> s 0 = x \<and> s 1 = y \<and> s 2 = 0 \<and> s 3 = 0 \<and> s 4 = 0 \<and> s 5 = z"
      unfolding digits_eq [OF g(6) that(3)] digits_eq [OF g(6) z] digits_eq [OF g(6) that(2)] by blast
    ultimately show ?thesis using net [of "[x, y, 0, 0, 0, z, 0, 0]" 96] g(4) by (simp add: mult.commute)
  qed
  have l: "[2..<6] = [2, 3, 4, 5 :: nat]" "[0..<6] = [0, 1, 2, 3, 4, 5 :: nat]" by code_simp+
  have z: "list_all (\<lambda>i. s i = 0) [2..<6] \<longleftrightarrow> s 2 = 0 \<and> s 3 = 0 \<and> s 4 = 0 \<and> s 5 = 0"
    "list_all (\<lambda>i. s i = 0) [0..<6] \<longleftrightarrow> s 0 = 0 \<and> s 1 = 0 \<and> s 2 = 0 \<and> s 3 = 0 \<and> s 4 = 0 \<and> s 5 = 0"
    by (simp_all add: l)
  have m: "s 0 AND 0xfe00 = 0xfc00 \<longleftrightarrow> s 0 div 2 ^ 9 = 0x7e" "s 0 AND 0xffc0 = 0xfe80 \<longleftrightarrow> s 0 div 2 ^ 6 = 0x3fa"
    "s 0 AND 0xffc0 = 0xfec0 \<longleftrightarrow> s 0 div 2 ^ 6 = 0x3fb"
    using and_mask_eq_iff [of "s 0" 9 7 "0x7e"] and_mask_eq_iff [of "s 0" 6 10 "0x3fa"]
      and_mask_eq_iff [of "s 0" 6 10 "0x3fb"] g(6) [of 0]
    by (simp_all add: mask_eq_exp_minus_1 push_bit_eq_mult)
  have low: "s 0 = 0 \<and> s 1 = 0 \<and> s 2 = 0 \<and> s 3 = 0 \<and> s 4 = 0 \<and> s 5 = 0" if "v = 0 \<or> v = 1"
    using that by (auto simp: s_def v6_segment_div)
  have mc: "ip_is_multicast (V6 v) \<longleftrightarrow> s 0 div 2 ^ 8 = 0xff"
    using hi [of 8] by (simp add: word_eq_iff_unsigned [where 'a = nat] unat_drop_bit_eq drop_bit_eq_div [where 'a = nat])
  have nets: "in_net6 v NAT64 \<longleftrightarrow> s 0 = 0x64 \<and> s 1 = 0xff9b \<and> s 2 = 0 \<and> s 3 = 0 \<and> s 4 = 0 \<and> s 5 = 0"
    "in_net6 v SIX_TO_FOUR \<longleftrightarrow> s 0 = 0x2002"
    "list_ex (in_net6 v) SPECIAL_V6 \<longleftrightarrow> (s 0 = 0 \<and> s 1 = 0 \<and> s 2 = 0 \<and> s 3 = 0 \<and> s 4 = 0 \<and> s 5 = 0)
       \<or> (s 0 = 0x2001 \<and> s 1 = 0) \<or> (s 0 = 0x2001 \<and> s 1 = 0xdb8) \<or> s 0 div 2 ^ 9 = 0x7e
       \<or> s 0 div 2 ^ 6 = 0x3fa \<or> s 0 div 2 ^ 6 = 0x3fb \<or> s 0 div 2 ^ 8 = 0xff"
    by (simp_all add: NAT64_def SIX_TO_FOUR_def SPECIAL_V6_def n16 n32 n96)
  have ex: "s 0 = 0x64 \<Longrightarrow> \<not> (s 0 = 0x2002 \<or> s 0 = 0 \<or> s 0 = 0x2001 \<or> s 0 div 2 ^ 9 = 0x7e \<or> s 0 div 2 ^ 6 = 0x3fa
      \<or> s 0 div 2 ^ 6 = 0x3fb \<or> s 0 div 2 ^ 8 = 0xff)"
    "s 0 = 0x2002 \<Longrightarrow> \<not> (s 0 = 0 \<or> s 0 = 0x2001 \<or> s 0 div 2 ^ 9 = 0x7e \<or> s 0 div 2 ^ 6 = 0x3fa
      \<or> s 0 div 2 ^ 6 = 0x3fb \<or> s 0 div 2 ^ 8 = 0xff)" by simp_all
  show ?thesis
    unfolding is_public_v6_def Let_def s_def [symmetric] nets mc v6_is_unique_local_def v6_is_unicast_link_local_def m z
      ip_is_unspecified.simps ip_is_loopback.simps embedded_v4 [of v, folded s_def] if_bool_eq_conj
    using low ex by satx
qed


end
