(* ===== verification/PushService.thy ===== *)
theory PushService
  imports PushPayload PushEndpoint Hub Pending
begin

text \<open>
  \<open>server/push.rs\<close>: the service, the triggers, the loop of the engine and the delivery of a batch. What other
  tasks do to the pending items, the devices and the presence between two steps is in the arguments; the HTTP
  client and the encryption are parameters. What is sent is returned.
\<close>

definition TEST_INTERVAL :: nat where "TEST_INTERVAL = 5 * SECOND"
definition MAX_REJECTIONS :: nat where "MAX_REJECTIONS = 5"

datatype push_msg = MsgEvent push_event | MsgForget str

record health =
  he_rejections :: nat
  he_failures :: nat
  he_retry_after :: "nat option"

definition health_default :: health where
  "health_default = \<lparr>he_rejections = 0, he_failures = 0, he_retry_after = None\<rparr>"

record push_service =
  sv_data :: push_file
  sv_health :: "(str, health) hmap"
  sv_last_test :: "(str, nat) hmap"
  sv_public_url :: "str option"

definition push_service_new :: push_service where
  "push_service_new = \<lparr>sv_data = push_file_default, sv_health = [], sv_last_test = [], sv_public_url = None\<rparr>"

section \<open>Triggers\<close>

text \<open>The message a trigger enqueues, if any.\<close>

definition if_subscribed :: "push_service \<Rightarrow> push_event \<Rightarrow> push_msg option" where
  "if_subscribed sv e = (if has_subscriptions (sv_data sv) then Some (MsgEvent e) else None)"

definition on_pending_added :: "push_service \<Rightarrow> pending_item \<Rightarrow> push_msg option" where
  "on_pending_added sv item = if_subscribed sv (from_pending item)"

definition on_turn_finished :: "push_service \<Rightarrow> str \<Rightarrow> nat \<Rightarrow> push_msg option" where
  "on_turn_finished sv session worked_ms =
     if_subscribed sv ((push_event_new session PkFinished ''finished'')\<lparr>ev_worked_ms := Some worked_ms\<rparr>)"

definition on_session_failed :: "push_service \<Rightarrow> str \<Rightarrow> str \<Rightarrow> push_msg option" where
  "on_session_failed sv session txt =
     if_subscribed sv ((push_event_new session PkFailed ''failed'')
       \<lparr>ev_detail := opt_filter (\<lambda>t. \<not> is_blank t) (Some txt)\<rparr>)"

definition on_claude_notification :: "push_service \<Rightarrow> str \<Rightarrow> str \<Rightarrow> str option \<Rightarrow> str option \<Rightarrow> push_msg option" where
  "on_claude_notification sv uuid session message key =
     (let key = (case opt_filter (\<lambda>k. k \<noteq> []) key of Some k \<Rightarrow> ''tool:'' @ k | None \<Rightarrow> ''claude:'' @ uuid)
      in if_subscribed sv ((push_event_new session PkClaude key)\<lparr>ev_detail := opt_filter (\<lambda>m. \<not> is_blank m) message\<rparr>))"

definition on_notification_hook :: "push_service \<Rightarrow> str \<Rightarrow> str \<Rightarrow> str option \<Rightarrow> str option \<Rightarrow> push_msg option" where
  "on_notification_hook sv uuid session notification_type message =
     (let ty = (case notification_type of Some t \<Rightarrow> t | None \<Rightarrow> [])
      in if ty = ''permission_prompt'' \<or> ty = ''auth_success'' then None
         else if_subscribed sv
           (if ty = ''idle_prompt'' then push_event_new session PkIdle ''idle''
            else if starts_with ty ''elicitation''
            then (push_event_new session PkWaiting ''waiting'')\<lparr>ev_label := Some ''input needed''\<rparr>
            else (push_event_new session PkClaude (''claude:'' @ uuid))
                   \<lparr>ev_detail := opt_filter (\<lambda>m. \<not> is_blank m) message\<rparr>))"

section \<open>The loop of the engine\<close>

record engine =
  eg_suppressor :: suppressor
  eg_coalescer :: coalescer

definition engine_new :: "int \<Rightarrow> engine" where
  "engine_new window_ms = \<lparr>eg_suppressor = suppressor_new, eg_coalescer = coalescer_new window_ms\<rparr>"

text \<open>One wake-up: the clock of the loop, the time of day, the pending items, the devices' settings, and the message
  received, if any.\<close>

record wake_up =
  wk_now :: int
  wk_wall :: int
  wk_pending :: store
  wk_file :: push_file
  wk_msg :: "push_msg option"

definition wanted_by_any :: "push_file \<Rightarrow> push_event \<Rightarrow> int \<Rightarrow> bool" where
  "wanted_by_any f ev now \<longleftrightarrow> list_ex (\<lambda>(_, d). dv_subscriptions d \<noteq> [] \<and> wants d ev now) (pl_devices f)"

definition has_answerable :: "store \<Rightarrow> push_event \<Rightarrow> bool" where
  "has_answerable st ev \<longleftrightarrow> ev_kind ev = PkWaiting \<and> list_ex pi_answerable (store_list (ev_session_id ev) st)"

definition engine_step :: "wake_up \<Rightarrow> engine \<Rightarrow> engine \<times> batch list" where
  "engine_step w g =
     (let (c, batches) = due (wk_now w) (eg_coalescer g); g = g\<lparr>eg_coalescer := c\<rparr>
      in case wk_msg w of
           None \<Rightarrow> (g, batches)
         | Some (MsgForget session) \<Rightarrow> (g\<lparr>eg_suppressor := su_forget session (eg_suppressor g)\<rparr>, batches)
         | Some (MsgEvent ev) \<Rightarrow>
             let (s, ok) = admit (wk_now w) ev (has_answerable (wk_pending w) ev) (eg_suppressor g);
                 g = g\<lparr>eg_suppressor := s\<rparr>
             in if \<not> ok then (g, batches)
                else if \<not> wanted_by_any (wk_file w) ev (wk_wall w) then (g, batches)
                else let (c, b) = offer (wk_now w) ev (eg_coalescer g)
                     in (g\<lparr>eg_coalescer := c\<rparr>, batches @ optional_list b))"

text \<open>The batches of a run, each with the time it left at.\<close>

fun engine_run :: "wake_up list \<Rightarrow> engine \<Rightarrow> engine \<times> (int \<times> batch) list" where
  "engine_run [] g = (g, [])"
| "engine_run (w # ws) g =
     (let (g, bs) = engine_step w g; (g, out) = engine_run ws g in (g, map (Pair (wk_now w)) bs @ out))"

section \<open>Targets\<close>

record target =
  tg_device :: str
  tg_show_details :: bool
  tg_events :: "push_event list"
  tg_subs :: "subscription list"

definition picked :: "device_push \<Rightarrow> push_event list \<Rightarrow> int \<Rightarrow> push_event list" where
  "picked d events now = (if dv_subscriptions d = [] then [] else filter (\<lambda>e. wants d e now) events)"

definition consume_once :: "push_event list \<Rightarrow> int \<Rightarrow> device_push \<Rightarrow> device_push" where
  "consume_once events now d =
     d\<lparr>dv_turn_finished := fold hm_del
         (map ev_session_id (filter (\<lambda>e. ev_kind e = PkFinished) (picked d events now))) (dv_turn_finished d)\<rparr>"

definition not_limited :: "nat \<Rightarrow> (str, health) hmap \<Rightarrow> subscription \<Rightarrow> bool" where
  "not_limited instant hs s \<longleftrightarrow>
     (case Option.bind (hm_get hs (sb_endpoint s)) he_retry_after of Some t \<Rightarrow> t \<le> instant | None \<Rightarrow> True)"

definition targets :: "push_event list \<Rightarrow> int \<Rightarrow> nat \<Rightarrow> push_service \<Rightarrow> push_service \<times> target list" where
  "targets events now instant sv =
     (sv\<lparr>sv_data := (sv_data sv)\<lparr>pl_devices := hm_map (consume_once events now) (pl_devices (sv_data sv))\<rparr>\<rparr>,
      concat (map (\<lambda>(i, d).
          let es = picked d events now
          in if es = [] then []
             else [\<lparr>tg_device = i, tg_show_details = pf_show_details (dv_prefs d), tg_events = es,
                    tg_subs = filter (not_limited instant (sv_health sv)) (dv_subscriptions d)\<rparr>])
        (sort_key fst (pl_devices (sv_data sv)))))"

section \<open>Sending\<close>

text \<open>The answer of the push service: a status with the \<open>Retry-After\<close> header, or no answer.\<close>

datatype send_answer = Answer nat "str option" | NoAnswer str

datatype push_outcome =
  Delivered | Gone | Invalid str | Rejected nat | RateLimited nat | SendFailed str

definition outcome_of :: "send_answer \<Rightarrow> push_outcome" where
  "outcome_of a =
     (case a of
        NoAnswer e \<Rightarrow> SendFailed e
      | Answer code retry \<Rightarrow>
          if 200 \<le> code \<and> code \<le> 299 then Delivered
          else if code = 404 \<or> code = 410 then Gone
          else if code = 429
          then RateLimited (case Option.bind retry (\<lambda>v. parse_uint (2 ^ 64 - 1) (trim v)) of Some s \<Rightarrow> s | None \<Rightarrow> 60)
          else if (300 \<le> code \<and> code \<le> 399) \<or> code \<in> {400, 401, 403, 413} then Rejected code
          else SendFailed (''HTTP '' @ show_nat code))"

text \<open>What the code of others does: the URL and URI parsers, the decoder of keys, the curve, the encryption, and
  the answer to a request.\<close>

record outside =
  os_parse_url :: "str \<Rightarrow> url option"
  os_uri_ok :: "str \<Rightarrow> bool"
  os_decode :: "str \<Rightarrow> nat list option"
  os_on_curve :: "nat list \<Rightarrow> bool"
  os_encrypt :: "nat list \<Rightarrow> nat list \<Rightarrow> notification \<Rightarrow> str + str"
  os_answer :: "push_request \<Rightarrow> send_answer"

definition send_one :: "outside \<Rightarrow> subscription \<Rightarrow> notification \<Rightarrow> str option \<Rightarrow> push_request option \<times> push_outcome"
where
  "send_one os sub n topic =
     (case validate_endpoint (os_parse_url os) (sb_endpoint sub) of
        Inl e \<Rightarrow> (None, Invalid (endpoint_message e))
      | Inr _ \<Rightarrow>
          case build_request (os_uri_ok os) (os_decode os) (os_on_curve os) (os_encrypt os) sub n topic of
            Inl e \<Rightarrow> (None, Invalid e)
          | Inr req \<Rightarrow> (Some req, outcome_of (os_answer os req)))"

definition health_of :: "str \<Rightarrow> push_service \<Rightarrow> health" where
  "health_of e sv = (case hm_get (sv_health sv) e of Some h \<Rightarrow> h | None \<Rightarrow> health_default)"

definition set_health :: "str \<Rightarrow> health \<Rightarrow> push_service \<Rightarrow> push_service" where
  "set_health e h sv = sv\<lparr>sv_health := hm_put e h (sv_health sv)\<rparr>"

definition clear_health :: "str \<Rightarrow> push_service \<Rightarrow> push_service" where
  "clear_health e sv = sv\<lparr>sv_health := hm_del e (sv_health sv)\<rparr>"

definition remove_subscription :: "str \<Rightarrow> push_service \<Rightarrow> push_service" where
  "remove_subscription e sv =
     (let sv = clear_health e sv in sv\<lparr>sv_data := fst (pl_remove_endpoint e (sv_data sv))\<rparr>)"

definition record_outcome :: "nat \<Rightarrow> str \<Rightarrow> push_outcome \<Rightarrow> push_service \<Rightarrow> push_service" where
  "record_outcome instant e outcome sv =
     (let h = health_of e sv
      in case outcome of
           Delivered \<Rightarrow> clear_health e sv
         | Gone \<Rightarrow> remove_subscription e sv
         | Invalid _ \<Rightarrow> remove_subscription e sv
         | Rejected _ \<Rightarrow>
             let h = h\<lparr>he_rejections := he_rejections h + 1\<rparr>; sv = set_health e h sv
             in if he_rejections h \<ge> MAX_REJECTIONS then remove_subscription e sv else sv
         | RateLimited secs \<Rightarrow>
             set_health e (h\<lparr>he_retry_after := Some (instant + max 1 (min secs 3600) * SECOND)\<rparr>) sv
         | SendFailed _ \<Rightarrow> set_health e (h\<lparr>he_failures := he_failures h + 1\<rparr>) sv)"

text \<open>\<open>send_to\<close>: the requests of all the subscriptions are made, then their outcomes are recorded in order. Returned
  are the requests that left and whether one was accepted.\<close>

definition send_to :: "outside \<Rightarrow> nat \<Rightarrow> subscription list \<Rightarrow> notification \<Rightarrow> str option \<Rightarrow> push_service
  \<Rightarrow> push_service \<times> push_request list \<times> bool" where
  "send_to os instant subs n topic sv =
     (let results = map (\<lambda>s. (s, send_one os s n topic)) subs
      in (foldl (\<lambda>sv (s, _, outcome). record_outcome instant (sb_endpoint s) outcome sv) sv results,
          concat (map (\<lambda>(_, req, _). optional_list req) results),
          list_ex (\<lambda>(_, _, outcome). outcome = Delivered) results))"

section \<open>Delivery\<close>

definition forget_device :: "str \<Rightarrow> push_service \<Rightarrow> push_service" where
  "forget_device device sv =
     (let es = map sb_endpoint (dv_subscriptions (device_or_default device (sv_data sv)))
      in sv\<lparr>sv_data := fst (pl_drop_device device (sv_data sv)), sv_health := fold hm_del es (sv_health sv)\<rparr>)"

text \<open>The state of the rest of the server when a target is reached.\<close>

record moment =
  mo_devices :: device_store
  mo_presence :: presence
  mo_now :: int
  mo_instant :: nat

definition device_active :: "device_store \<Rightarrow> str \<Rightarrow> bool" where
  "device_active ds device \<longleftrightarrow> (case ds_get device ds of Some d \<Rightarrow> \<not> di_revoked d | None \<Rightarrow> False)"

definition still_pending :: "store \<Rightarrow> push_event \<Rightarrow> bool" where
  "still_pending st e \<longleftrightarrow> (case ev_pending_id e of Some i \<Rightarrow> store_get i st \<noteq> None | None \<Rightarrow> True)"

definition deliver_target :: "outside \<Rightarrow> (str \<Rightarrow> moment) \<Rightarrow> str option \<Rightarrow> str \<Rightarrow> str \<Rightarrow> target \<Rightarrow> push_service
  \<Rightarrow> push_service \<times> (str \<times> notification \<times> push_request) list" where
  "deliver_target os at name session topic t sv =
     (let m = at (tg_device t)
      in if \<not> device_active (mo_devices m) (tg_device t) then (forget_device (tg_device t) sv, [])
         else if is_foreground (mo_now m) (tg_device t) (mo_presence m) then (sv, [])
         else let n = render_notification name session (tg_events t) (tg_show_details t);
                  (sv, reqs, _) = send_to os (mo_instant m) (tg_subs t) n (Some topic) sv
              in (sv, map (\<lambda>r. (tg_device t, n, r)) reqs))"

fun deliver_each :: "outside \<Rightarrow> (str \<Rightarrow> moment) \<Rightarrow> str option \<Rightarrow> str \<Rightarrow> str \<Rightarrow> target list \<Rightarrow> push_service
  \<Rightarrow> push_service \<times> (str \<times> notification \<times> push_request) list" where
  "deliver_each os at name session topic [] sv = (sv, [])"
| "deliver_each os at name session topic (t # ts) sv =
     (let (sv, sent) = deliver_target os at name session topic t sv;
          (sv, more) = deliver_each os at name session topic ts sv
      in (sv, sent @ more))"

text \<open>\<open>display_name\<close> of the session, if it is known.\<close>

definition display_name :: "session_summary \<Rightarrow> str" where
  "display_name s =
     (if \<not> is_blank (ss_name s) then ss_name s
      else if \<not> is_blank (ss_project_name s) then ss_project_name s else ''Claude session'')"

definition deliver_batch :: "outside \<Rightarrow> (str \<Rightarrow> str) \<Rightarrow> store \<Rightarrow> session_summary option \<Rightarrow> int \<Rightarrow> nat \<Rightarrow> (str \<Rightarrow> moment) \<Rightarrow> batch
  \<Rightarrow> push_service \<Rightarrow> push_service \<times> (str \<times> notification \<times> push_request) list" where
  "deliver_batch os sha pending session now instant at b sv =
     (let events = filter (still_pending pending) (ba_events b)
      in if events = [] then (sv, [])
         else let (sv, ts) = targets events now instant sv
              in deliver_each os at (map_option display_name session) (ba_session b) (topic_for sha (ba_session b)) ts sv)"

section \<open>The routes\<close>

datatype push_error =
  InvalidEndpoint str | InvalidKeys str | VapidKeyMismatch str | InvalidPrefs str | TooManyTests nat | NotSubscribed

definition sv_subscribe :: "outside \<Rightarrow> (nat list \<Rightarrow> str) \<Rightarrow> str \<Rightarrow> (str \<Rightarrow> lookup_result) \<Rightarrow> str \<Rightarrow> str \<Rightarrow> str \<Rightarrow> str
  \<Rightarrow> str option \<Rightarrow> int \<Rightarrow> push_service \<Rightarrow> push_service \<times> (push_error + subscribe_outcome)" where
  "sv_subscribe os encode public_key lookup device endpoint p256dh auth server_key now sv =
     (case validate_endpoint (os_parse_url os) endpoint of
        Inl e \<Rightarrow> (sv, Inl (InvalidEndpoint (endpoint_message e)))
      | Inr u \<Rightarrow>
          case canonical_keys (os_decode os) (os_on_curve os) encode p256dh auth of
            Inl m \<Rightarrow> (sv, Inl (InvalidKeys m))
          | Inr (p256dh, auth) \<Rightarrow>
              let mismatch = (case opt_filter (\<lambda>k. k \<noteq> []) (map_option trim server_key) of
                    Some k \<Rightarrow> os_decode os k = None \<or> os_decode os k \<noteq> os_decode os public_key
                  | None \<Rightarrow> False)
              in if mismatch then (sv, Inl (VapidKeyMismatch public_key))
                 else case check_resolution (lookup (case ur_host u of Some h \<Rightarrow> h | None \<Rightarrow> [])) of
                   Some e \<Rightarrow> (sv, Inl (InvalidEndpoint (endpoint_message e)))
                 | None \<Rightarrow>
                     let sub = \<lparr>sb_endpoint = ur_text u, sb_p256dh = p256dh, sb_auth = auth, sb_created_at = 0,
                                sb_updated_at = 0\<rparr>;
                         (f, out) = pl_subscribe device sub now (sv_data sv)
                     in (clear_health (ur_text u) (sv\<lparr>sv_data := f\<rparr>), Inr out))"

definition sv_unsubscribe :: "outside \<Rightarrow> str \<Rightarrow> str \<Rightarrow> push_service \<Rightarrow> push_service \<times> bool" where
  "sv_unsubscribe os device endpoint sv =
     (let canonical = (case validate_endpoint (os_parse_url os) endpoint of Inr u \<Rightarrow> ur_text u | Inl _ \<Rightarrow> trim endpoint);
          (f, removed) = pl_unsubscribe device canonical (sv_data sv);
          sv = sv\<lparr>sv_data := f\<rparr>
      in (if removed then clear_health canonical sv else sv, removed))"

definition sv_update_prefs :: "str \<Rightarrow> prefs_patch \<Rightarrow> int \<Rightarrow> push_service \<Rightarrow> push_service \<times> (push_error + prefs_view)" where
  "sv_update_prefs device pt now sv =
     (case pl_apply_patch device pt now (sv_data sv) of
        (_, Inl m) \<Rightarrow> (sv, Inl (InvalidPrefs m))
      | (f, Inr _) \<Rightarrow> (sv\<lparr>sv_data := f\<rparr>, Inr (pl_view device now True f)))"

definition send_test :: "outside \<Rightarrow> nat \<Rightarrow> str \<Rightarrow> push_service
  \<Rightarrow> push_service \<times> push_request list \<times> (push_error + bool)" where
  "send_test os instant device sv =
     (let since = (case hm_get (sv_last_test sv) device of Some t \<Rightarrow> instant - t | None \<Rightarrow> TEST_INTERVAL)
      in if since < TEST_INTERVAL
         then (sv, [], Inl (TooManyTests (max ((TEST_INTERVAL - since) div SECOND) 1)))
         else let last = hm_put device instant (sv_last_test sv);
                  last = (if length last > 1024 then hm_retain (\<lambda>_ t. instant - t < TEST_INTERVAL) last else last);
                  sv = sv\<lparr>sv_last_test := last\<rparr>;
                  subs = dv_subscriptions (device_or_default device (sv_data sv))
              in if subs = [] then (sv, [], Inl NotSubscribed)
                 else let n = render_notification None [] [push_event_new [] PkTest ''test''] False;
                          (sv, reqs, any) = send_to os instant subs n None sv
                      in (sv, reqs, Inr any))"

section \<open>Loading, and the contact of the keys\<close>

text \<open>\<open>PushService::new\<close> on the file as it was read, and whether it is written back.\<close>

definition service_load :: "outside \<Rightarrow> (nat list \<Rightarrow> str) \<Rightarrow> str \<Rightarrow> int \<Rightarrow> push_file option \<Rightarrow> push_service \<times> bool" where
  "service_load os encode public_key now file =
     (let valid = (\<lambda>s. (case validate_endpoint (os_parse_url os) (sb_endpoint s) of Inr _ \<Rightarrow> True | Inl _ \<Rightarrow> False)
            \<and> (case canonical_keys (os_decode os) (os_on_curve os) encode (sb_p256dh s) (sb_auth s) of
                 Inr _ \<Rightarrow> True | Inl _ \<Rightarrow> False));
          (f, changed) = pl_sanitize public_key now valid (set_opt file push_file_default)
      in (push_service_new\<lparr>sv_data := f\<rparr>, changed))"

definition https_origin :: "(str \<Rightarrow> url option) \<Rightarrow> str \<Rightarrow> str option" where
  "https_origin parse u =
     (case parse (trim u) of
        None \<Rightarrow> None
      | Some u \<Rightarrow>
          if ur_scheme u \<noteq> ''https'' \<or> ur_username u \<noteq> [] \<or> ur_password u \<noteq> None then None
          else case ur_host u of
            None \<Rightarrow> None
          | Some host \<Rightarrow>
              if starts_with host ''['' \<or> parse_ipv4 host \<noteq> None \<or> \<not> valid_dns_name host
                 \<or> ends_with host ''.localhost'' then None
              else Some (''https://'' @ host @ (case ur_port u of Some p \<Rightarrow> '':'' @ show_nat p | None \<Rightarrow> [])))"

definition valid_subject :: "(str \<Rightarrow> url option) \<Rightarrow> str \<Rightarrow> bool" where
  "valid_subject parse s \<longleftrightarrow>
     (case strip_prefix s ''mailto:'' of
        Some addr \<Rightarrow>
          (case split_byte (CHR ''@'') addr of
             [user, domain] \<Rightarrow>
               user \<noteq> [] \<and> contains domain ''.'' \<and> \<not> ends_with domain ''.invalid'' \<and> domain \<noteq> ''localhost''
               \<and> \<not> list_ex (\<lambda>c. is_space c \<or> is_control c) (to_chars s)
           | _ \<Rightarrow> False)
      | None \<Rightarrow> https_origin parse s \<noteq> None)"

definition DEFAULT_CONTACT :: str where
  "DEFAULT_CONTACT = ''mailto:mother-claude@users.noreply.github.com''"

text \<open>\<open>contact\<close>, given the value of the environment variable.\<close>

definition contact :: "(str \<Rightarrow> url option) \<Rightarrow> str option \<Rightarrow> push_service \<Rightarrow> str" where
  "contact parse subject sv =
     (case opt_filter (valid_subject parse) (map_option trim subject) of
        Some s \<Rightarrow> s
      | None \<Rightarrow> (case sv_public_url sv of Some u \<Rightarrow> u | None \<Rightarrow> DEFAULT_CONTACT))"

definition set_public_url :: "(str \<Rightarrow> url option) \<Rightarrow> str option \<Rightarrow> push_service \<Rightarrow> push_service" where
  "set_public_url parse u sv = sv\<lparr>sv_public_url := Option.bind u (https_origin parse)\<rparr>"

end
