(* ===== verification/PushProofs.thy ===== *)
theory PushProofs
  imports PushService
begin

text \<open>
  The theorems on Web Push: the throttle of a session and that nothing is lost in it, the memory of the
  suppressor, the stored subscriptions, who is sent a notification and what it can say.
\<close>

section \<open>One session in the coalescer\<close>

text \<open>The windows of the sessions are independent: what a wake-up does to the window of one session, with the event
  accepted for it, and the batches it sends.\<close>

definition fresh_window :: "int \<Rightarrow> push_event \<Rightarrow> window" where
  "fresh_window now ev = \<lparr>wi_opened = now, wi_sent = {ev_key ev}, wi_held = []\<rparr>"

definition window_due :: "int \<Rightarrow> int \<Rightarrow> window option \<Rightarrow> window option \<times> push_event list list" where
  "window_due W now wo =
     (case wo of
        None \<Rightarrow> (None, [])
      | Some w \<Rightarrow> let (w', evs) = due_window W now w in (w', if evs = [] then [] else [evs]))"

definition window_step :: "int \<Rightarrow> int \<Rightarrow> push_event option \<Rightarrow> window option \<Rightarrow> window option \<times> push_event list list"
where
  "window_step W now evo wo =
     (let (wo, out) = window_due W now wo
      in case evo of
           None \<Rightarrow> (wo, out)
         | Some ev \<Rightarrow>
             (case wo of
                Some w \<Rightarrow> if now - wi_opened w < W then (Some (hold_event ev w), out) else (Some (fresh_window now ev), out @ [[ev]])
              | None \<Rightarrow> (Some (fresh_window now ev), out @ [[ev]])))"

fun window_run :: "int \<Rightarrow> (int \<times> push_event option) list \<Rightarrow> window option \<Rightarrow> window option \<times> (int \<times> push_event list) list"
where
  "window_run W [] wo = (wo, [])"
| "window_run W ((now, evo) # ins) wo =
     (let (wo, out) = window_step W now evo wo; (wo, rest) = window_run W ins wo in (wo, map (Pair now) out @ rest))"

lemma window_run_out:
  "snd (window_run W ((now, evo) # ins) wo)
     = map (Pair now) (snd (window_step W now evo wo)) @ snd (window_run W ins (fst (window_step W now evo wo)))"
  by (simp add: split_def Let_def)

lemma window_run_append:
  "window_run W (xs @ ys) wo =
     (let (wo, out) = window_run W xs wo; (wo, rest) = window_run W ys wo in (wo, out @ rest))"
  by (induction xs arbitrary: wo) (auto simp: split_def Let_def)

lemma wi_opened_hold [simp]: "wi_opened (hold_event ev w) = wi_opened w" "wi_sent (hold_event ev w) = wi_sent w"
  by (simp_all add: hold_event_def)

text \<open>Either the window is still open, and nothing leaves, or it is over, and at most one batch leaves and opens the
  next window.\<close>

lemma window_step_open:
  assumes "wo = Some w" "now - wi_opened w < W"
  shows "window_step W now evo wo = (Some (case evo of Some ev \<Rightarrow> hold_event ev w | None \<Rightarrow> w), [])"
  using assms by (simp add: window_step_def window_due_def due_window_def split: option.splits)

lemma window_step_over:
  assumes "1 \<le> W" "\<forall>w. wo = Some w \<longrightarrow> \<not> now - wi_opened w < W"
  shows "(snd (window_step W now evo wo) = [] \<and> fst (window_step W now evo wo) = None \<and> evo = None)
    \<or> (\<exists>evs w. snd (window_step W now evo wo) = [evs] \<and> fst (window_step W now evo wo) = Some w \<and> wi_opened w = now
         \<and> wi_sent w = ev_key ` set evs \<and> evs \<noteq> []
         \<and> (\<forall>ev. evo = Some ev \<longrightarrow> ev_key ev \<in> wi_sent w \<or> ev_key ev \<in> ev_key ` set (wi_held w)))"
proof (cases "wo = None \<or> (\<exists>w. wo = Some w \<and> wi_held w = [])")
  case True
  then have "window_due W now wo = (None, [])"
    using assms(2) by (auto simp: window_due_def due_window_def)
  then show ?thesis by (cases evo) (simp_all add: window_step_def fresh_window_def)
next
  case False
  then obtain w where w: "wo = Some w" "wi_held w \<noteq> []" by auto
  let ?w = "\<lparr>wi_opened = now, wi_sent = set (map ev_key (wi_held w)), wi_held = []\<rparr>"
  have "window_due W now wo = (Some ?w, [wi_held w])"
    using assms(2) w by (simp add: window_due_def due_window_def)
  then show ?thesis using assms(1) w(2)
    by (cases evo) (auto simp: window_step_def hold_event_def image_iff)
qed

lemma window_step_cases:
  assumes "1 \<le> W"
  obtains (held) w where "wo = Some w" "now - wi_opened w < W"
      "window_step W now evo wo = (Some (case evo of Some ev \<Rightarrow> hold_event ev w | None \<Rightarrow> w), [])"
    | (closed) "\<forall>w. wo = Some w \<longrightarrow> wi_opened w + W \<le> now" "window_step W now evo wo = (None, [])" "evo = None"
    | (sent) evs w where "\<forall>w. wo = Some w \<longrightarrow> wi_opened w + W \<le> now" "window_step W now evo wo = (Some w, [evs])"
        "wi_opened w = now" "wi_sent w = ev_key ` set evs" "evs \<noteq> []"
        "\<forall>ev. evo = Some ev \<longrightarrow> ev_key ev \<in> wi_sent w \<or> ev_key ev \<in> ev_key ` set (wi_held w)"
proof (cases "\<exists>w. wo = Some w \<and> now - wi_opened w < W")
  case True
  then obtain w where w: "wo = Some w" "now - wi_opened w < W" by blast
  show ?thesis by (rule held [OF w window_step_open [OF w]])
next
  case False
  then have o: "\<forall>w. wo = Some w \<longrightarrow> \<not> now - wi_opened w < W" by blast
  then have o': "\<forall>w. wo = Some w \<longrightarrow> wi_opened w + W \<le> now" by auto
  from window_step_over [OF assms o, of evo] show ?thesis
  proof (elim disjE exE conjE)
    assume "snd (window_step W now evo wo) = []" "fst (window_step W now evo wo) = None" "evo = None"
    then show ?thesis by (intro closed [OF o']) (simp_all add: prod_eq_iff)
  next
    fix evs w
    assume "snd (window_step W now evo wo) = [evs]" "fst (window_step W now evo wo) = Some w" "wi_opened w = now"
      "wi_sent w = ev_key ` set evs" "evs \<noteq> []"
      "\<forall>ev. evo = Some ev \<longrightarrow> ev_key ev \<in> wi_sent w \<or> ev_key ev \<in> ev_key ` set (wi_held w)"
    then show ?thesis by (intro sent [OF o', of w evs]) (simp_all add: prod_eq_iff)
  qed
qed

lemma window_run_gaps:
  assumes "1 \<le> W" "sorted (map fst ins)"
  shows "sorted_wrt (\<lambda>a b. a + W \<le> b) (map fst (snd (window_run W ins wo)))
    \<and> (\<forall>p \<in> set (snd (window_run W ins wo)). fst p \<in> fst ` set ins \<and> snd p \<noteq> []
         \<and> (\<forall>w. wo = Some w \<longrightarrow> wi_opened w + W \<le> fst p))"
  using assms(2)
proof (induction ins arbitrary: wo)
  case (Cons i ins)
  obtain now evo where i: "i = (now, evo)" by (cases i)
  have s: "sorted (map fst ins)" "\<forall>t \<in> fst ` set ins. now \<le> t" using Cons.prems by (auto simp: i)
  note IH = Cons.IH [OF s(1)]
  show ?case
  proof (cases rule: window_step_cases [OF assms(1), where wo = wo and now = now and evo = evo,
      case_names held closed sent])
    case (held w)
    let ?wo = "Some (case evo of Some ev \<Rightarrow> hold_event ev w | None \<Rightarrow> w)"
    have "wi_opened (the ?wo) = wi_opened w" by (cases evo) simp_all
    then show ?thesis using IH [of ?wo] held by (simp add: i window_run_out del: window_run.simps)
  next
    case closed
    have "now \<le> fst p" if "p \<in> set (snd (window_run W ins None))" for p
      using IH [of None] s(2) that by blast
    then show ?thesis using IH [of None] closed
      by (simp add: i window_run_out del: window_run.simps) (meson order_trans)
  next
    case (sent evs w)
    have "now \<le> fst p" if "p \<in> set (snd (window_run W ins (Some w)))" for p
      using IH [of "Some w"] s(2) that by blast
    then show ?thesis using IH [of "Some w"] sent
      by (simp add: i window_run_out del: window_run.simps) (meson order_trans)
  qed
qed simp

text \<open>Nothing accepted is lost: its key was sent in the window, or is held and leaves when the window is over.\<close>

definition window_ok :: "int \<Rightarrow> (int \<times> push_event list) list \<Rightarrow> window option \<Rightarrow> bool" where
  "window_ok now out wo \<longleftrightarrow>
     (\<forall>w. wo = Some w \<longrightarrow> wi_opened w \<le> now
        \<and> (\<exists>evs. (wi_opened w, evs) \<in> set out \<and> wi_sent w = ev_key ` set evs))"

lemma window_step_ok:
  assumes "1 \<le> W" "window_ok t out wo" "t \<le> now" "window_step W now evo wo = (wo', sent)"
  shows "window_ok now (out @ map (Pair now) sent) wo'"
proof (cases rule: window_step_cases [OF assms(1), where wo = wo and now = now and evo = evo,
    case_names held closed sent])
  case (held w)
  then show ?thesis using assms(2-4) by (cases evo) (fastforce simp: window_ok_def)+
qed (use assms(4) in \<open>auto simp: window_ok_def\<close>)

lemma window_run_ok:
  assumes "1 \<le> W"
  shows "window_ok t out wo \<Longrightarrow> sorted (t # map fst ins) \<Longrightarrow> window_run W ins wo = (wo', rest)
    \<Longrightarrow> window_ok (last (t # map fst ins)) (out @ rest) wo'"
proof (induction ins arbitrary: t out wo rest)
  case (Cons i ins)
  obtain now evo where i: "i = (now, evo)" by (cases i)
  obtain wo1 s where st: "window_step W now evo wo = (wo1, s)" by (cases "window_step W now evo wo")
  obtain m where m: "window_run W ins wo1 = (wo', m)" "rest = map (Pair now) s @ m"
    using Cons.prems(3) by (auto simp: i st split: prod.splits)
  have "window_ok now (out @ map (Pair now) s) wo1"
    using window_step_ok [OF assms Cons.prems(1) _ st] Cons.prems(2) by (simp add: i)
  from Cons.IH [OF this _ m(1)] Cons.prems(2) show ?case by (simp add: i m(2))
qed simp

lemma held_leaves:
  assumes W: "1 \<le> W"
  shows "sorted (map fst ins) \<Longrightarrow> e \<in> set (wi_held w) \<Longrightarrow> T \<in> fst ` set ins \<Longrightarrow> wi_opened w + W \<le> T
    \<Longrightarrow> \<exists>p \<in> set (snd (window_run W ins (Some w))). e \<in> set (snd p) \<and> wi_opened w + W \<le> fst p \<and> fst p \<le> T"
proof (induction ins arbitrary: w)
  case (Cons i ins)
  obtain now evo where i: "i = (now, evo)" by (cases i)
  show ?case
  proof (cases "now - wi_opened w < W")
    case True
    let ?w = "case evo of Some ev \<Rightarrow> hold_event ev w | None \<Rightarrow> w"
    have w: "wi_opened ?w = wi_opened w" "e \<in> set (wi_held ?w)"
      using Cons.prems(2) by (auto simp: hold_event_def split: option.splits)
    have "T \<in> fst ` set ins" using Cons.prems(3,4) True by (auto simp: i)
    from Cons.IH [OF _ w(2) this] w(1) Cons.prems show ?thesis
      using window_step_open [OF refl True, of evo]
      by (simp add: i window_run_out del: window_run.simps)
  next
    case False
    then have "window_due W now (Some w) = (Some \<lparr>wi_opened = now, wi_sent = set (map ev_key (wi_held w)), wi_held = []\<rparr>,
        [wi_held w])"
      using Cons.prems(2) by (auto simp: window_due_def due_window_def)
    then have "wi_held w \<in> set (snd (window_step W now evo (Some w)))"
      by (simp add: window_step_def split: option.splits)
    then have "(now, wi_held w) \<in> set (snd (window_run W (i # ins) (Some w)))"
      by (simp add: i window_run_out del: window_run.simps)
    moreover have "now \<le> T" using Cons.prems(1,3) by (auto simp: i)
    ultimately show ?thesis using Cons.prems(2) False by (intro bexI [of _ "(now, wi_held w)"]) simp_all
  qed
qed simp

lemma window_run_keeps:
  assumes W: "1 \<le> W" and s: "sorted (map fst (xs @ (t, Some e) # ys))" and T: "T \<in> fst ` set ys" "t + W \<le> T"
  shows "\<exists>p \<in> set (snd (window_run W (xs @ (t, Some e) # ys) None)).
    ev_key e \<in> ev_key ` set (snd p) \<and> t - W < fst p \<and> fst p \<le> T"
proof -
  obtain wo out where x: "window_run W xs None = (wo, out)" by (cases "window_run W xs None")
  obtain wo' o' where st: "window_step W t (Some e) wo = (wo', o')" by (cases "window_step W t (Some e) wo")
  obtain wo'' rest where y: "window_run W ys wo' = (wo'', rest)" by (cases "window_run W ys wo'")
  have run: "snd (window_run W (xs @ (t, Some e) # ys) None) = out @ map (Pair t) o' @ rest"
    by (simp add: window_run_append x st y)
  let ?t = "if xs = [] then t else fst (hd xs)"
  have "window_ok ?t [] None" by (simp add: window_ok_def)
  from window_run_ok [OF W this _ x] s have ok: "window_ok (last (?t # map fst xs)) out wo"
    by (cases xs) (auto simp: sorted_append)
  have le: "last (?t # map fst xs) \<le> t" using s by (cases xs rule: rev_cases) (auto simp: sorted_append)
  have tT: "t \<le> T" using W T(2) by simp
  show ?thesis
  proof (cases rule: window_step_cases [OF W, where wo = wo and now = t and evo = "Some e",
      case_names held closed sent])
    case (held w)
    then have wo': "wo' = Some (hold_event e w)" "o' = []" using st by simp_all
    have o: "wi_opened w \<le> t" using ok le held(1) by (simp add: window_ok_def)
    obtain evs where evs: "(wi_opened w, evs) \<in> set out" "wi_sent w = ev_key ` set evs"
      using ok held(1) by (auto simp: window_ok_def)
    show ?thesis
    proof (cases "ev_key e \<in> wi_sent w")
      case True
      then show ?thesis using evs o held(2) tT by (intro bexI [of _ "(wi_opened w, evs)"]) (auto simp: run)
    next
      case False
      then obtain h where h: "h \<in> set (wi_held (hold_event e w))" "ev_key h = ev_key e"
        by (cases "\<exists>h \<in> set (wi_held w). ev_key h = ev_key e") (auto simp: hold_event_def list_ex_iff)
      have "\<exists>p \<in> set (snd (window_run W ys (Some (hold_event e w)))). h \<in> set (snd p)
          \<and> wi_opened (hold_event e w) + W \<le> fst p \<and> fst p \<le> T"
        by (rule held_leaves [OF W _ h(1) T(1)]) (use s o T(2) in \<open>simp_all add: sorted_append\<close>)
      then obtain p where p: "p \<in> set rest" "h \<in> set (snd p)" "wi_opened w + W \<le> fst p" "fst p \<le> T"
        using y by (auto simp: wo')
      then show ?thesis using h(2) held(2) o W by (intro bexI [of _ p]) (auto simp: run image_iff intro!: bexI [of _ h])
    qed
  next
    case (sent evs w)
    then have wo': "wo' = Some w" "o' = [evs]" using st by simp_all
    show ?thesis
    proof (cases "ev_key e \<in> wi_sent w")
      case True
      then show ?thesis using sent(3,4) tT W by (intro bexI [of _ "(t, evs)"]) (auto simp: run wo')
    next
      case False
      then obtain h where h: "h \<in> set (wi_held w)" "ev_key h = ev_key e" using sent(6) by auto
      have "\<exists>p \<in> set (snd (window_run W ys (Some w))). h \<in> set (snd p) \<and> wi_opened w + W \<le> fst p \<and> fst p \<le> T"
        by (rule held_leaves [OF W _ h(1) T(1)]) (use s sent(3) T(2) in \<open>simp_all add: sorted_append\<close>)
      then obtain p where p: "p \<in> set rest" "h \<in> set (snd p)" "wi_opened w + W \<le> fst p" "fst p \<le> T"
        using y by (auto simp: wo')
      then show ?thesis using h(2) sent(3) W by (intro bexI [of _ p]) (auto simp: run image_iff intro!: bexI [of _ h])
    qed
  qed simp
qed

section \<open>The engine\<close>

definition engine_ok :: "int \<Rightarrow> engine \<Rightarrow> bool" where
  "engine_ok W g \<longleftrightarrow> 1 \<le> W \<and> co_window (eg_coalescer g) = W \<and> hm_wf (co_windows (eg_coalescer g))"

abbreviation window_of :: "str \<Rightarrow> engine \<Rightarrow> window option" where
  "window_of s g \<equiv> hm_get (co_windows (eg_coalescer g)) s"

text \<open>The event a wake-up brings, if the suppressor admits it and some device wants it.\<close>

definition accepted :: "wake_up \<Rightarrow> engine \<Rightarrow> push_event option" where
  "accepted w g =
     (case wk_msg w of
        Some (MsgEvent ev) \<Rightarrow>
          if snd (admit (wk_now w) ev (has_answerable (wk_pending w) ev) (eg_suppressor g))
             \<and> wanted_by_any (wk_file w) ev (wk_wall w) then Some ev else None
      | _ \<Rightarrow> None)"

definition for_session :: "str \<Rightarrow> push_event option \<Rightarrow> push_event option" where
  "for_session s evo = (case evo of Some ev \<Rightarrow> if ev_session_id ev = s then Some ev else None | None \<Rightarrow> None)"

lemma map_of_concat_opt:
  "distinct (map fst m) \<Longrightarrow>
     map_of (concat (map (\<lambda>(k, v). case f v of Some v \<Rightarrow> [(k, v)] | None \<Rightarrow> []) m)) s = Option.bind (map_of m s) f"
proof (induction m)
  case (Cons kv m)
  obtain k v where kv: "kv = (k, v)" by (cases kv)
  have "map_of m k = None" using Cons.prems by (simp add: kv map_of_eq_None_iff)
  then show ?case using Cons by (cases "f v") (auto simp: kv)
qed simp

lemma keys_concat_opt:
  "k \<notin> fst ` set m \<Longrightarrow> k \<notin> fst ` set (concat (map (\<lambda>(k, v). case f v of Some v \<Rightarrow> [(k, v)] | None \<Rightarrow> []) m))"
proof (induction m)
  case (Cons kv m)
  then show ?case by (cases kv; cases "f (snd kv)") simp_all
qed simp

lemma wf_concat_opt:
  "distinct (map fst m) \<Longrightarrow> distinct (map fst (concat (map (\<lambda>(k, v). case f v of Some v \<Rightarrow> [(k, v)] | None \<Rightarrow> []) m)))"
proof (induction m)
  case (Cons kv m)
  obtain k v where kv: "kv = (k, v)" by (cases kv)
  have "k \<notin> fst ` set m" using Cons.prems by (simp add: kv)
  from keys_concat_opt [OF this, of f] Cons show ?case by (cases "f v") (simp_all add: kv)
qed simp

lemma batches_of_session:
  "distinct (map fst m) \<Longrightarrow>
     map ba_events (filter (\<lambda>b. ba_session b = s)
       (concat (map (\<lambda>(k, v). if f v = [] then [] else [\<lparr>ba_session = k, ba_events = f v\<rparr>]) m)))
     = (case map_of m s of Some v \<Rightarrow> if f v = [] then [] else [f v] | None \<Rightarrow> [])"
proof (induction m)
  case (Cons kv m)
  obtain k v where kv: "kv = (k, v)" by (cases kv)
  have "map_of m k = None" using Cons.prems by (simp add: kv map_of_eq_None_iff)
  then show ?case using Cons by (auto simp: kv)
qed simp

definition session_events :: "str \<Rightarrow> batch list \<Rightarrow> push_event list list" where
  "session_events s bs = map ba_events (filter (\<lambda>b. ba_session b = s) bs)"

lemma session_events_append [simp]: "session_events s (xs @ ys) = session_events s xs @ session_events s ys"
  by (simp add: session_events_def)

lemma due_session:
  assumes "hm_wf (co_windows c)"
  shows "hm_get (co_windows (fst (due now c))) s = fst (window_due (co_window c) now (hm_get (co_windows c) s))"
    "session_events s (snd (due now c)) = snd (window_due (co_window c) now (hm_get (co_windows c) s))"
    "hm_wf (co_windows (fst (due now c)))" "co_window (fst (due now c)) = co_window c"
proof -
  let ?f = "due_window (co_window c) now"
  have d: "co_windows (fst (due now c))
      = concat (map (\<lambda>(k, w). case fst (?f w) of Some w \<Rightarrow> [(k, w)] | None \<Rightarrow> []) (co_windows c))"
    by (auto simp: due_def Let_def comp_def split_def intro!: arg_cong [where f = concat] map_cong split: option.splits)
  show "hm_get (co_windows (fst (due now c))) s = fst (window_due (co_window c) now (hm_get (co_windows c) s))"
    unfolding d map_of_concat_opt [OF assms, of "\<lambda>w. fst (?f w)"]
    by (simp add: window_due_def split_def Let_def split: option.splits)
  show "hm_wf (co_windows (fst (due now c)))" unfolding d by (rule wf_concat_opt [OF assms])
  have "snd (due now c) = sort_key ba_session
      (concat (map (\<lambda>(k, w). if snd (?f w) = [] then [] else [\<lparr>ba_session = k, ba_events = snd (?f w)\<rparr>]) (co_windows c)))"
    by (auto simp: due_def Let_def comp_def split_def
      intro!: arg_cong [where f = "sort_key ba_session"] arg_cong [where f = concat] map_cong)
  then show "session_events s (snd (due now c)) = snd (window_due (co_window c) now (hm_get (co_windows c) s))"
    using batches_of_session [OF assms, of s "\<lambda>w. snd (?f w)"]
    by (simp add: session_events_def sort_key_stable window_due_def split_def Let_def split: option.splits)
  show "co_window (fst (due now c)) = co_window c" by (simp add: due_def Let_def)
qed

lemma offer_session:
  assumes "1 \<le> co_window c"
  shows "hm_get (co_windows (fst (offer now ev c))) s
      = (if ev_session_id ev \<noteq> s then hm_get (co_windows c) s
         else case hm_get (co_windows c) s of
           Some w \<Rightarrow> if now - wi_opened w < co_window c then Some (hold_event ev w) else Some (fresh_window now ev)
         | None \<Rightarrow> Some (fresh_window now ev))"
    "session_events s (optional_list (snd (offer now ev c)))
      = (if ev_session_id ev \<noteq> s then []
         else case hm_get (co_windows c) s of
           Some w \<Rightarrow> if now - wi_opened w < co_window c then [] else [[ev]]
         | None \<Rightarrow> [[ev]])"
    "hm_wf (co_windows c) \<Longrightarrow> hm_wf (co_windows (fst (offer now ev c)))" "co_window (fst (offer now ev c)) = co_window c"
  by (auto simp: offer_def open_window_def fresh_window_def session_events_def optional_list_def update_conv
    split: option.splits intro: wf_intros)

lemma engine_step_coalescer:
  "eg_coalescer (fst (engine_step w g))
     = (let c = fst (due (wk_now w) (eg_coalescer g))
        in case accepted w g of Some ev \<Rightarrow> fst (offer (wk_now w) ev c) | None \<Rightarrow> c)"
  "snd (engine_step w g)
     = snd (due (wk_now w) (eg_coalescer g))
       @ (case accepted w g of
            Some ev \<Rightarrow> optional_list (snd (offer (wk_now w) ev (fst (due (wk_now w) (eg_coalescer g))))) | None \<Rightarrow> [])"
  by (auto simp: engine_step_def accepted_def Let_def split_def split: option.splits push_msg.splits)

lemma engine_step_session:
  assumes "engine_ok W g"
  shows "window_of s (fst (engine_step w g)) = fst (window_step W (wk_now w) (for_session s (accepted w g)) (window_of s g))"
    "session_events s (snd (engine_step w g)) = snd (window_step W (wk_now w) (for_session s (accepted w g)) (window_of s g))"
    "engine_ok W (fst (engine_step w g))"
proof -
  let ?c = "eg_coalescer g" and ?d = "fst (due (wk_now w) (eg_coalescer g))"
  have ok: "1 \<le> W" "co_window ?c = W" "hm_wf (co_windows ?c)" using assms by (simp_all add: engine_ok_def)
  note due = due_session [OF ok(3), where now = "wk_now w", unfolded ok(2)]
  have d: "1 \<le> co_window ?d" using due(4) ok(1) by simp
  note offer = offer_session [OF d, where now = "wk_now w"]
  show "window_of s (fst (engine_step w g)) = fst (window_step W (wk_now w) (for_session s (accepted w g)) (window_of s g))"
    by (auto simp: engine_step_coalescer Let_def due offer window_step_def for_session_def split_def
      split: option.splits)
  show "session_events s (snd (engine_step w g)) = snd (window_step W (wk_now w) (for_session s (accepted w g)) (window_of s g))"
    by (auto simp: engine_step_coalescer Let_def due offer window_step_def for_session_def split_def
      split: option.splits) (auto simp: session_events_def)
  show "engine_ok W (fst (engine_step w g))"
    using ok(1) due(3,4) offer(3,4) by (simp add: engine_ok_def engine_step_coalescer Let_def split: option.splits)
qed

fun session_inputs :: "str \<Rightarrow> wake_up list \<Rightarrow> engine \<Rightarrow> (int \<times> push_event option) list" where
  "session_inputs s [] g = []"
| "session_inputs s (w # ws) g = (wk_now w, for_session s (accepted w g)) # session_inputs s ws (fst (engine_step w g))"

lemma times_session_inputs [simp]: "map fst (session_inputs s ws g) = map wk_now ws"
  by (induction ws arbitrary: g) auto

lemma session_inputs_append:
  "session_inputs s (ws @ vs) g = session_inputs s ws g @ session_inputs s vs (fst (engine_run ws g))"
  by (induction ws arbitrary: g) (auto simp: split_def Let_def)

definition session_out :: "str \<Rightarrow> (int \<times> batch) list \<Rightarrow> (int \<times> push_event list) list" where
  "session_out s out = map (\<lambda>(t, b). (t, ba_events b)) (filter (\<lambda>(t, b). ba_session b = s) out)"

lemma session_out_now: "session_out s (map (Pair t) bs @ out) = map (Pair t) (session_events s bs) @ session_out s out"
  by (induction bs) (auto simp: session_out_def session_events_def)

lemma engine_run_session:
  "engine_ok W g \<Longrightarrow> session_out s (snd (engine_run ws g)) = snd (window_run W (session_inputs s ws g) (window_of s g))"
proof (induction ws arbitrary: g)
  case (Cons w ws)
  note st = engine_step_session(1,2) [OF Cons.prems, where s = s and w = w]
  from Cons.IH [OF engine_step_session(3) [OF Cons.prems, of w]] show ?case
    by (simp add: split_def Let_def session_out_now st)
qed (simp add: session_out_def)

lemma engine_new_ok: "engine_ok (max window_ms 1) (engine_new window_ms)" "window_of s (engine_new window_ms) = None"
  by (simp_all add: engine_ok_def engine_new_def coalescer_new_def)

lemma session_out_mem: "(t, evs) \<in> set (session_out s out) \<longleftrightarrow> (\<exists>b. (t, b) \<in> set out \<and> ba_session b = s \<and> ba_events b = evs)"
  by (force simp: session_out_def)

text \<open>C14: The notifications of a session are throttled: whatever wakes the engine, with a clock that does not go
  back, two batches of the same session leave at least the window apart, and none is empty.\<close>

theorem session_is_throttled:
  assumes "sorted (map wk_now ws)"
  shows "sorted_wrt (\<lambda>a b. a + max window_ms 1 \<le> b)
      (map fst (filter (\<lambda>(_, b). ba_session b = s) (snd (engine_run ws (engine_new window_ms)))))
    \<and> (\<forall>(_, b) \<in> set (snd (engine_run ws (engine_new window_ms))). ba_events b \<noteq> [])"
proof -
  let ?W = "max window_ms 1" and ?g = "engine_new window_ms" and ?out = "snd (engine_run ws (engine_new window_ms))"
  have W: "1 \<le> ?W" by simp
  note run = engine_run_session [OF engine_new_ok(1), of _ ws window_ms, unfolded engine_new_ok(2)]
  have gaps: "sorted_wrt (\<lambda>a b. a + ?W \<le> b) (map fst (session_out s ?out))
      \<and> (\<forall>p \<in> set (session_out s ?out). snd p \<noteq> [])" for s
    unfolding run using window_run_gaps [OF W, of "session_inputs s ws ?g" None] assms by simp
  have "map fst (session_out s ?out) = map fst (filter (\<lambda>(_, b). ba_session b = s) ?out)"
    by (simp add: session_out_def comp_def split_def)
  moreover have "ba_events b \<noteq> []" if "(t, b) \<in> set ?out" for t b
    using gaps [of "ba_session b"] session_out_mem [of t "ba_events b" "ba_session b" ?out] that by fastforce
  ultimately show ?thesis using gaps [of s] by auto
qed

text \<open>C13: No accepted event is lost: when the suppressor has admitted an event and a device wants it, a batch of its
  session with an event of the same key leaves, not longer before it than the window, and not later than the first
  wake-up at least a window after it.\<close>

theorem accepted_event_is_sent:
  assumes "sorted (map wk_now (ws @ w # vs))" and "accepted w (fst (engine_run ws (engine_new window_ms))) = Some e"
    and "v \<in> set vs" and "wk_now w + max window_ms 1 \<le> wk_now v"
  shows "\<exists>(t, b) \<in> set (snd (engine_run (ws @ w # vs) (engine_new window_ms))).
    ba_session b = ev_session_id e \<and> ev_key e \<in> ev_key ` set (ba_events b)
    \<and> wk_now w - max window_ms 1 < t \<and> t \<le> wk_now v"
proof -
  let ?W = "max window_ms 1" and ?g = "engine_new window_ms" and ?s = "ev_session_id e"
  let ?g1 = "fst (engine_run ws ?g)"
  have W: "1 \<le> ?W" by simp
  note run = engine_run_session [OF engine_new_ok(1), of ?s "ws @ w # vs" window_ms, unfolded engine_new_ok(2)]
  have ins: "session_inputs ?s (ws @ w # vs) ?g
      = session_inputs ?s ws ?g @ (wk_now w, Some e) # session_inputs ?s vs (fst (engine_step w ?g1))"
    by (simp add: session_inputs_append assms(2) for_session_def)
  have "wk_now v \<in> fst ` set (session_inputs ?s vs (fst (engine_step w ?g1)))"
    using assms(3) times_session_inputs [of ?s vs] by (metis image_eqI list.set_map)
  from window_run_keeps [OF W _ this assms(4), where e = e and xs = "session_inputs ?s ws ?g"]
  obtain p where p: "p \<in> set (snd (window_run ?W (session_inputs ?s (ws @ w # vs) ?g) None))"
    "ev_key e \<in> ev_key ` set (snd p)" "wk_now w - ?W < fst p" "fst p \<le> wk_now v"
    unfolding ins using assms(1) by auto
  then have "(fst p, snd p) \<in> set (session_out ?s (snd (engine_run (ws @ w # vs) ?g)))" by (simp add: run)
  then obtain b where "(fst p, b) \<in> set (snd (engine_run (ws @ w # vs) ?g))" "ba_session b = ?s" "ba_events b = snd p"
    unfolding session_out_mem by blast
  with p(2-4) show ?thesis by (intro bexI [of _ "(fst p, b)"]) auto
qed

section \<open>The memory of the suppressor\<close>

definition suppressor_ok :: "suppressor \<Rightarrow> bool" where
  "suppressor_ok s \<longleftrightarrow> distinct (su_recent s) \<and> su_recent_set s = set (su_recent s) \<and> length (su_recent s) \<le> RECENT_KEYS"

definition newest :: "str list \<Rightarrow> str list" where
  "newest ks = drop (length ks - RECENT_KEYS) ks"

lemma newest_bounds: "distinct ks \<Longrightarrow> distinct (newest ks)" "length (newest ks) \<le> RECENT_KEYS"
  by (simp_all add: newest_def)

lemma newest_append: "newest (newest xs @ ys) = newest (xs @ ys)"
proof (cases "length ys \<le> RECENT_KEYS")
  case True
  then show ?thesis by (cases "length xs \<le> RECENT_KEYS") (auto simp: newest_def add.commute)
next
  case False
  then show ?thesis by (simp add: newest_def)
qed

lemma forget_old_newest:
  "distinct recent \<Longrightarrow> forget_old recent (set recent) = (newest recent, set (newest recent))"
proof (induction recent "set recent" rule: forget_old.induct)
  case (1 recent)
  show ?case
  proof (cases "length recent > RECENT_KEYS")
    case True
    then obtain k ks where r: "recent = k # ks" by (cases recent) auto
    have "set recent - {hd recent} = set (tl recent)" using 1(2) by (auto simp: r)
    moreover have "newest (tl recent) = newest recent" using True by (simp add: r newest_def Suc_diff_le)
    ultimately show ?thesis using 1 True by (subst forget_old.simps) (simp add: r)
  qed (subst forget_old.simps, simp add: newest_def)
qed

lemma remember_newest:
  assumes "suppressor_ok s" "key \<notin> su_recent_set s"
  shows "su_recent (remember_key key s) = newest (su_recent s @ [key])"
    "su_recent_set (remember_key key s) = set (newest (su_recent s @ [key]))"
  using assms forget_old_newest [of "su_recent s @ [key]"]
  by (simp_all add: remember_key_def suppressor_ok_def Let_def)

text \<open>The key an event adds to the memory, and those a run of the engine adds.\<close>

definition new_key :: "wake_up \<Rightarrow> engine \<Rightarrow> str list" where
  "new_key w g =
     (case wk_msg w of
        Some (MsgEvent ev) \<Rightarrow>
          if is_keyed (ev_kind ev) \<and> ev_key ev \<notin> set (su_recent (eg_suppressor g)) then [ev_key ev] else []
      | _ \<Rightarrow> [])"

fun new_keys :: "wake_up list \<Rightarrow> engine \<Rightarrow> str list" where
  "new_keys [] g = []"
| "new_keys (w # ws) g = new_key w g @ new_keys ws (fst (engine_step w g))"

lemma engine_step_suppressor:
  "eg_suppressor (fst (engine_step w g))
     = (case wk_msg w of
          None \<Rightarrow> eg_suppressor g
        | Some (MsgForget s) \<Rightarrow> su_forget s (eg_suppressor g)
        | Some (MsgEvent ev) \<Rightarrow> fst (admit (wk_now w) ev (has_answerable (wk_pending w) ev) (eg_suppressor g)))"
  by (auto simp: engine_step_def Let_def split_def split: option.splits push_msg.splits)

lemma admit_recent:
  "su_recent (fst (admit now ev a s))
     = su_recent (if is_keyed (ev_kind ev) \<and> ev_key ev \<notin> su_recent_set s then remember_key (ev_key ev) s else s)"
  "su_recent_set (fst (admit now ev a s))
     = su_recent_set (if is_keyed (ev_kind ev) \<and> ev_key ev \<notin> su_recent_set s then remember_key (ev_key ev) s else s)"
  by (auto simp: admit_def Let_def split_def)

lemma suppressor_step:
  assumes "suppressor_ok (eg_suppressor g)"
  shows "su_recent (eg_suppressor (fst (engine_step w g))) = newest (su_recent (eg_suppressor g) @ new_key w g)"
    "suppressor_ok (eg_suppressor (fst (engine_step w g)))"
proof -
  let ?s = "eg_suppressor g"
  have s: "su_recent_set ?s = set (su_recent ?s)" "newest (su_recent ?s) = su_recent ?s"
    using assms by (simp_all add: suppressor_ok_def newest_def)
  show r: "su_recent (eg_suppressor (fst (engine_step w g))) = newest (su_recent ?s @ new_key w g)"
    using remember_newest [OF assms] s
    by (auto simp: engine_step_suppressor new_key_def admit_recent su_forget_def split: option.splits push_msg.splits)
  have "su_recent_set (eg_suppressor (fst (engine_step w g))) = set (newest (su_recent ?s @ new_key w g))"
    using remember_newest [OF assms] s
    by (auto simp: engine_step_suppressor new_key_def admit_recent su_forget_def split: option.splits push_msg.splits)
  moreover have "distinct (su_recent ?s @ new_key w g)"
    using assms by (auto simp: suppressor_ok_def new_key_def split: option.splits push_msg.splits)
  ultimately show "suppressor_ok (eg_suppressor (fst (engine_step w g)))"
    using newest_bounds [of "su_recent ?s @ new_key w g"] by (simp add: suppressor_ok_def r)
qed

lemma suppressor_run:
  "suppressor_ok (eg_suppressor g) \<Longrightarrow>
     su_recent (eg_suppressor (fst (engine_run ws g))) = newest (su_recent (eg_suppressor g) @ new_keys ws g)
     \<and> suppressor_ok (eg_suppressor (fst (engine_run ws g)))"
proof (induction ws arbitrary: g)
  case (Cons w ws)
  note st = suppressor_step [OF Cons.prems, of w]
  from Cons.IH [OF st(2)] show ?case
    by (simp add: split_def Let_def st(1) newest_append)
qed (simp add: suppressor_ok_def newest_def)

lemma admit_keyed: "is_keyed (ev_kind ev) \<Longrightarrow> snd (admit now ev a s) \<longleftrightarrow> ev_key ev \<notin> su_recent_set s"
  by (cases "ev_kind ev") (auto simp: admit_def is_keyed_def admit_marked_def Let_def)

text \<open>C18: The memory of the suppressor is exactly the last 512 keys: after any run it holds the newest 512 of the keys
  that were new when they came, without repetition, and a permission, question, plan or notification of Claude is
  admitted exactly when its key is not among them.\<close>

theorem suppressor_remembers_newest:
  "let s = eg_suppressor (fst (engine_run ws (engine_new window_ms))); ks = new_keys ws (engine_new window_ms)
   in su_recent s = drop (length ks - RECENT_KEYS) ks \<and> distinct (su_recent s) \<and> length (su_recent s) \<le> RECENT_KEYS
      \<and> (\<forall>now ev a. is_keyed (ev_kind ev) \<longrightarrow> (snd (admit now ev a s) \<longleftrightarrow> ev_key ev \<notin> set (su_recent s)))"
proof -
  have "suppressor_ok (eg_suppressor (engine_new window_ms))"
    by (simp add: engine_new_def suppressor_new_def suppressor_ok_def)
  note run = suppressor_run [OF this, of ws]
  have "su_recent (eg_suppressor (engine_new window_ms)) = []" by (simp add: engine_new_def suppressor_new_def)
  with run have r: "su_recent (eg_suppressor (fst (engine_run ws (engine_new window_ms))))
      = newest (new_keys ws (engine_new window_ms))" by simp
  note ok = conjunct2 [OF run, unfolded suppressor_ok_def]
  show ?thesis unfolding Let_def
    using r ok by (simp add: newest_def admit_keyed)
qed

section \<open>What a notification says\<close>

definition without_detail :: "push_event \<Rightarrow> push_event" where
  "without_detail e = e\<lparr>ev_detail := None\<rparr>"

lemma without_detail_simps [simp]:
  "ev_kind (without_detail e) = ev_kind e" "ev_pending_id (without_detail e) = ev_pending_id e"
  "ev_dangerous (without_detail e) = ev_dangerous e" "short_line (without_detail e) = short_line e"
  by (cases "ev_kind e"; simp add: without_detail_def short_line_def)+

lemma render_body_details:
  "render_body (map without_detail es) False = render_body es False"
  "length es \<noteq> 1 \<Longrightarrow> render_body es True = render_body es False"
  by (auto simp: render_body_def comp_def split: list.splits)

lemma render_detail_free:
  assumes "\<not> show_details \<or> length es \<noteq> 1"
  shows "render_notification name i es show_details = render_notification name i (map without_detail es) False"
proof -
  have "render_body es show_details = render_body (map without_detail es) False"
    using assms render_body_details [of es] by (cases show_details) simp_all
  moreover have "optional_list (ev_pending_id e) = optional_list (ev_pending_id (without_detail e))" for e by simp
  ultimately show ?thesis
    by (auto simp: render_notification_def Let_def comp_def list_all_iff list_ex_iff split: list.splits)
qed

text \<open>C15: The text of a notification never depends on a detail (a command, a question, a plan, a message) unless the
  device asked for details and the notification is about one event: else it is the notification of the same
  events without their details.\<close>

theorem details_stay_private:
  assumes "\<not> show_details \<or> length es \<noteq> 1" and "map without_detail es = map without_detail fs"
  shows "render_notification name i es show_details = render_notification name i fs False"
proof -
  from assms(2) have len: "length es = length fs" by (rule map_eq_imp_length_eq)
  show ?thesis using render_detail_free [OF assms(1)] render_detail_free [of False fs] assms(2) by simp
qed


section \<open>The deadline\<close>

lemma fold_min_le: "fold min ds d \<le> now \<longleftrightarrow> (\<exists>x \<in> set (d # ds). x \<le> (now :: int))"
  using Min_le_iff [of "set (d # ds)" now] by (simp only: Min.set_eq_fold) simp

lemma due_quiet:
  "(\<And>s w. (s, w) \<in> set (co_windows c) \<Longrightarrow> now - wi_opened w < co_window c) \<Longrightarrow> due now c = (c, [])"
proof -
  assume "\<And>s w. (s, w) \<in> set (co_windows c) \<Longrightarrow> now - wi_opened w < co_window c"
  then have d: "due_window (co_window c) now w = (Some w, [])" if "(s, w) \<in> set (co_windows c)" for s w
    using that by (simp add: due_window_def)
  have "map (\<lambda>(s, w). (s, due_window (co_window c) now w)) (co_windows c) = map (\<lambda>(s, w). (s, Some w, [])) (co_windows c)"
    using d by (intro map_cong) auto
  note eq = this
  have kept: "concat (map (\<lambda>(s, w, _). case w of Some w \<Rightarrow> [(s, w)] | None \<Rightarrow> []) (map (\<lambda>(s, w). (s, Some w, [])) m)) = m"
    for m :: "(str \<times> window) list" by (induction m) auto
  have none: "concat (map (\<lambda>(s, _, evs). if evs = [] then [] else [\<lparr>ba_session = s, ba_events = evs\<rparr>])
      (map (\<lambda>(s, w). (s, Some w, [])) m)) = []" for m :: "(str \<times> window) list" by (induction m) auto
  show ?thesis unfolding due_def Let_def eq kept none by simp
qed

text \<open>C19: The engine sleeps exactly as long as it may: in every state a run reaches, before the deadline it sleeps to a
  wake-up has nothing to do, and from the deadline on it has.\<close>

theorem deadline_is_exact:
  "let c = eg_coalescer (fst (engine_run ws (engine_new window_ms)))
   in due now c = (c, []) \<longleftrightarrow> (case next_deadline c of None \<Rightarrow> True | Some d \<Rightarrow> now < d)"
proof -
  let ?W = "max window_ms 1" and ?c = "eg_coalescer (fst (engine_run ws (engine_new window_ms)))"
  have "engine_ok ?W (fst (engine_run ws g))" if "engine_ok ?W g" for g
    using that by (induction ws arbitrary: g) (simp_all add: split_def Let_def engine_step_session(3))
  from this [OF engine_new_ok(1)] have c: "1 \<le> co_window ?c" "hm_wf (co_windows ?c)" by (simp_all add: engine_ok_def)
  have "due now ?c = (?c, []) \<longleftrightarrow> (\<forall>(s, w) \<in> set (co_windows ?c). now - wi_opened w < co_window ?c)"
  proof
    assume q: "due now ?c = (?c, [])"
    have "now - wi_opened w < co_window ?c" if "(s, w) \<in> set (co_windows ?c)" for s w
    proof -
      have "hm_get (co_windows ?c) s = Some w" using that c(2) by simp
      with due_session(1) [OF c(2), of now s] q have "fst (due_window (co_window ?c) now w) = Some w"
        by (simp add: window_due_def split_def Let_def)
      then show ?thesis using c(1) by (auto simp: due_window_def split: if_splits dest: arg_cong [where f = wi_opened])
    qed
    then show "\<forall>(s, w) \<in> set (co_windows ?c). now - wi_opened w < co_window ?c" by blast
  next
    assume "\<forall>(s, w) \<in> set (co_windows ?c). now - wi_opened w < co_window ?c"
    then show "due now ?c = (?c, [])" by (intro due_quiet) blast
  qed
  also have "\<dots> \<longleftrightarrow> (case next_deadline ?c of None \<Rightarrow> True | Some d \<Rightarrow> now < d)"
  proof (cases "map (\<lambda>(_, w). wi_opened w + co_window ?c) (co_windows ?c)")
    case Nil
    then show ?thesis by (simp add: next_deadline_def)
  next
    case (Cons d ds)
    have "now < fold min ds d \<longleftrightarrow> (\<forall>x \<in> set (d # ds). now < x)" 
      using fold_min_le [of ds d now] by (simp only: not_le [symmetric]) blast
    also have "\<dots> \<longleftrightarrow> (\<forall>(s, w) \<in> set (co_windows ?c). now < wi_opened w + co_window ?c)"
      unfolding Cons [symmetric] by auto
    finally show ?thesis by (auto simp: next_deadline_def Cons algebra_simps)
  qed
  finally show ?thesis by (simp add: Let_def)
qed

section \<open>Derived events\<close>

text \<open>The observations of one session, and the busy ones at the end of them.\<close>

fun observe_run :: "(int \<times> session_summary) list \<Rightarrow> tracker \<Rightarrow> tracker" where
  "observe_run [] m = m"
| "observe_run ((t, s) # ss) m = observe_run ss (fst (observe_summary s t m))"

definition busy_tail :: "(int \<times> session_summary) list \<Rightarrow> (int \<times> session_summary) list" where
  "busy_tail ss = rev (takeWhile (\<lambda>(_, s). busy (ss_status s)) (rev ss))"

lemma busy_tail_snoc:
  "busy_tail (ss @ [(t, s)]) = (if busy (ss_status s) then busy_tail ss @ [(t, s)] else [])"
  by (simp add: busy_tail_def)

lemma observe_run_snoc: "observe_run (ss @ [(t, s)]) m = fst (observe_summary s t (observe_run ss m))"
  by (induction ss arbitrary: m) auto

definition turn_start :: "(int \<times> session_summary) list \<Rightarrow> int option" where
  "turn_start ss = (case busy_tail ss of [] \<Rightarrow> None | (t, _) # _ \<Rightarrow> Some t)"

lemma turn_start_snoc:
  "turn_start (ss @ [(t, s)])
     = (if busy (ss_status s) then (case turn_start ss of None \<Rightarrow> Some t | Some u \<Rightarrow> Some u) else None)"
  by (auto simp: turn_start_def busy_tail_snoc split: list.splits)

lemma turn_start_busy: "turn_start ss \<noteq> None \<longleftrightarrow> ss \<noteq> [] \<and> busy (ss_status (snd (last ss)))"
  by (cases ss rule: rev_cases) (auto simp: turn_start_def busy_tail_def split: list.splits prod.splits)

lemma status_change_start:
  assumes "started \<noteq> None \<longleftrightarrow> busy prev"
  shows "fst (status_change prev started s now)
      = (if busy (ss_status s) then (case started of None \<Rightarrow> Some now | Some u \<Rightarrow> Some u) else None)"
    "filter (\<lambda>e. ev_kind e = PkFinished) (snd (status_change prev started s now))
      = (case started of Some u \<Rightarrow> if ss_status s = Idle then [finished_event s now u] else [] | None \<Rightarrow> [])"
  using assms
  by (auto simp: status_change_def busy_def waiting_event_def finished_event_def failed_event_def derived_event_def
    push_event_new_def Let_def split: session_status.splits option.splits)

lemma observe_run_seen:
  assumes "\<forall>(t, s) \<in> set ss. ss_id s = i"
  shows "case hm_get (observe_run ss []) i of
      None \<Rightarrow> ss = []
    | Some sn \<Rightarrow> ss \<noteq> [] \<and> sn_status sn = ss_status (snd (last ss)) \<and> sn_turn_started sn = turn_start ss"
  using assms
proof (induction ss rule: rev_induct)
  case (snoc x ss)
  obtain t s where x: "x = (t, s)" by (cases x)
  let ?m = "observe_run ss []"
  have id: "ss_id s = i" using snoc.prems by (simp add: x)
  have IH: "case hm_get ?m i of None \<Rightarrow> ss = []
    | Some sn \<Rightarrow> ss \<noteq> [] \<and> sn_status sn = ss_status (snd (last ss)) \<and> sn_turn_started sn = turn_start ss"
    using snoc by simp
  show ?case
  proof (cases "hm_get ?m i")
    case None
    with IH show ?thesis
      by (simp add: x observe_run_snoc observe_summary_def id Let_def update_conv turn_start_snoc)
        (simp add: turn_start_def busy_tail_def)
  next
    case (Some sn)
    with IH have sn: "ss \<noteq> []" "sn_status sn = ss_status (snd (last ss))" "sn_turn_started sn = turn_start ss" by auto
    have "sn_turn_started sn \<noteq> None \<longleftrightarrow> busy (sn_status sn)" using turn_start_busy [of ss] sn by simp
    from status_change_start(1) [OF this, of s t] Some show ?thesis
      by (simp add: x observe_run_snoc observe_summary_def id Let_def split_def update_conv turn_start_snoc sn(3))
  qed
qed simp

text \<open>C20: A finished turn is reported once, with the time it took: when a session is seen for the next time, it is
  reported as finished exactly if it is idle now and was busy when it was seen last, and the reported time is
  that since the first of the sightings from which on it was busy all the time.\<close>

theorem finished_turn_is_measured:
  assumes "\<forall>(t, s) \<in> set ss. ss_id s = ss_id now_s"
  shows "filter (\<lambda>e. ev_kind e = PkFinished) (snd (observe_summary now_s now (observe_run ss [])))
    = (case busy_tail ss of
         (t, _) # _ \<Rightarrow> if ss_status now_s = Idle then [finished_event now_s now t] else []
       | [] \<Rightarrow> [])"
proof -
  note seen = observe_run_seen [OF assms]
  have start: "(case busy_tail ss of (t, _) # _ \<Rightarrow> if ss_status now_s = Idle then [finished_event now_s now t] else [] | [] \<Rightarrow> [])
      = (case turn_start ss of Some t \<Rightarrow> if ss_status now_s = Idle then [finished_event now_s now t] else [] | None \<Rightarrow> [])"
    by (auto simp: turn_start_def split: list.splits)
  have other: "ev_kind (failed_event now_s) = PkFailed" by (simp add: failed_event_def derived_event_def push_event_new_def)
  show ?thesis
  proof (cases "hm_get (observe_run ss []) (ss_id now_s)")
    case None
    with seen have "ss = []" by simp
    with None show ?thesis by (simp add: observe_summary_def Let_def busy_tail_def)
  next
    case (Some sn)
    with seen have sn: "ss \<noteq> []" "sn_status sn = ss_status (snd (last ss))" "sn_turn_started sn = turn_start ss" by auto
    have "sn_turn_started sn \<noteq> None \<longleftrightarrow> busy (sn_status sn)" using turn_start_busy [of ss] sn by simp
    from status_change_start(2) [OF this, of now_s now] Some show ?thesis
      by (simp add: observe_summary_def Let_def split_def start sn(3) other)
  qed
qed

section \<open>Where the documentation says more\<close>

text \<open>A session that is followed sends \<open>every\<close> event, says \<open>SessionMode::Follow\<close>; the idle reminder still depends on its
  own setting, which is off by default.\<close>

lemma follow_leaves_idle_out:
  "dev_mode d (ev_session_id e) = Some Follow \<Longrightarrow> ev_kind e = PkIdle \<Longrightarrow> wants d e now \<longleftrightarrow> pf_idle (dv_prefs d)"
  by (simp add: wants_def Let_def)

text \<open>A label is shown to devices without details because a sentence would never pass, says \<open>safe_label\<close>; one
  without punctuation does.\<close>

lemma sentence_passes_as_label: "safe_label (Some ''delete the prod db'') = Some (lit ''delete the prod db'')"
proof -
  have c: "to_chars ''delete the prod db'' = lit ''delete the prod db''"
    unfolding to_chars_def lit_def by (rule lossy_chars_ascii) (simp add: byte_def)
  have "clean (lit ''delete the prod db'') 40 = lit ''delete the prod db''"
    by (simp add: lit_def byte_def clean_def blank_char_def is_control_def is_space_def is_invisible_def Let_def
      trim_row_def)
  then show ?thesis by (simp add: safe_label_def c Let_def) (simp add: lit_def byte_def plain_char_def)
qed

section \<open>Witnesses\<close>

definition example_device :: device_push where
  "example_device = device_push_default\<lparr>dv_subscriptions := [\<lparr>sb_endpoint = ''https://fcm.googleapis.com/x'',
     sb_p256dh = ''p'', sb_auth = ''a'', sb_created_at = 0, sb_updated_at = 0\<rparr>]\<rparr>"

definition example_file :: push_file where
  "example_file = \<lparr>pl_version = 1, pl_vapid_public_key = None, pl_devices = [(''d'', example_device)]\<rparr>"

definition example_event :: push_event where
  "example_event = push_event_new ''s'' PkClaude ''tool:1''"

definition example_wake :: "int \<Rightarrow> push_msg option \<Rightarrow> wake_up" where
  "example_wake t m = \<lparr>wk_now = t, wk_wall = 0, wk_pending = store_new, wk_file = example_file, wk_msg = m\<rparr>"

lemma example_accepted:
  "accepted (example_wake t (Some (MsgEvent example_event))) (engine_new 10000) = Some example_event"
  by (simp add: accepted_def example_wake_def example_event_def example_file_def example_device_def push_event_new_def
    admit_def admit_marked_def is_keyed_def engine_new_def suppressor_new_def wanted_by_any_def wants_def dev_mode_def
    device_push_default_def prefs_default_def Let_def)

theorem session_is_throttled_witness:
  "sorted_wrt (\<lambda>a b. a + max 10000 1 \<le> b) (map fst (filter (\<lambda>(_, b). ba_session b = ''s'')
     (snd (engine_run [example_wake 0 (Some (MsgEvent example_event)), example_wake 10000 None] (engine_new 10000)))))"
  using session_is_throttled [of "[example_wake 0 (Some (MsgEvent example_event)), example_wake 10000 None]" 10000 "''s''"]
  by (simp add: example_wake_def)

theorem accepted_event_is_sent_witness:
  "\<exists>(t, b) \<in> set (snd (engine_run [example_wake 0 (Some (MsgEvent example_event)), example_wake 10000 None] (engine_new 10000))).
     ba_session b = ''s'' \<and> ''tool:1'' \<in> ev_key ` set (ba_events b) \<and> t \<le> 10000"
proof -
  have s: "sorted (map wk_now ([] @ example_wake 0 (Some (MsgEvent example_event)) # [example_wake 10000 None]))"
    by (simp add: example_wake_def)
  have a: "accepted (example_wake 0 (Some (MsgEvent example_event))) (fst (engine_run [] (engine_new 10000))) = Some example_event"
    using example_accepted by simp
  have v: "example_wake 10000 None \<in> set [example_wake 10000 None]"
    "wk_now (example_wake 0 (Some (MsgEvent example_event))) + max 10000 1 \<le> wk_now (example_wake 10000 None)"
    by (simp_all add: example_wake_def)
  from accepted_event_is_sent [OF s a v] show ?thesis
    by (auto simp: example_wake_def example_event_def push_event_new_def split_def)
qed

theorem suppressor_remembers_newest_witness:
  "snd (admit 0 example_event False (eg_suppressor (fst (engine_run [] (engine_new 10000)))))"
  using suppressor_remembers_newest [of "[]" 10000]
  by (simp add: Let_def example_event_def push_event_new_def is_keyed_def)

theorem details_stay_private_witness:
  "render_notification None ''s'' [example_event\<lparr>ev_detail := Some ''secret''\<rparr>] False
     = render_notification None ''s'' [example_event] False"
  by (rule details_stay_private) (simp_all add: without_detail_def)

definition example_summary :: "session_status \<Rightarrow> session_summary" where
  "example_summary st = \<lparr>ss_id = ''s'', ss_name = [], ss_project_name = [], ss_status = st, ss_waiting_for = None,
     ss_last_message = None, ss_last_error = None\<rparr>"

theorem finished_turn_is_measured_witness:
  "filter (\<lambda>e. ev_kind e = PkFinished) (snd (observe_summary (example_summary Idle) 41000
     (observe_run [(0, example_summary Idle), (1000, example_summary Working), (5000, example_summary Waiting)] [])))
   = [finished_event (example_summary Idle) 41000 1000]"
  using finished_turn_is_measured [of "[(0, example_summary Idle), (1000, example_summary Working),
    (5000, example_summary Waiting)]" "example_summary Idle" 41000]
  by (simp add: example_summary_def busy_tail_def busy_def)

end
