(* ===== verification/PushSafety.thy ===== *)
theory PushSafety
  imports PushProofs
begin

text \<open>
  Who is sent a notification and over which endpoint, and the invariant of the stored subscriptions over every
  run of the service's operations.
\<close>

section \<open>Delivery\<close>

lemma send_one_request:
  "send_one os sub n topic = (Some r, out) \<Longrightarrow>
     rq_endpoint r = sb_endpoint sub \<and> (\<exists>u. os_parse_url os (trim (sb_endpoint sub)) = Some u \<and> accepted_url u)"
  by (auto simp: send_one_def build_request_def validate_endpoint_exact split: sum.splits option.splits if_splits)

lemma send_to_requests:
  assumes "r \<in> set (fst (snd (send_to os instant subs n topic sv)))"
  shows "\<exists>s \<in> set subs. rq_endpoint r = sb_endpoint s
    \<and> (\<exists>u. os_parse_url os (trim (sb_endpoint s)) = Some u \<and> accepted_url u)"
proof -
  from assms obtain s where "s \<in> set subs" "fst (send_one os s n topic) = Some r"
    by (auto simp: send_to_def Let_def optional_list_def split_def split: option.splits)
  then show ?thesis using send_one_request [of os s n topic r "snd (send_one os s n topic)"] by (auto simp: prod_eq_iff)
qed

lemma deliver_each_sent:
  "(dev, n, r) \<in> set (snd (deliver_each os at name session topic ts sv)) \<Longrightarrow>
     \<exists>t \<in> set ts. tg_device t = dev \<and> device_active (mo_devices (at dev)) dev
       \<and> \<not> is_foreground (mo_now (at dev)) dev (mo_presence (at dev))
       \<and> n = render_notification name session (tg_events t) (tg_show_details t)
       \<and> (\<exists>s \<in> set (tg_subs t). rq_endpoint r = sb_endpoint s
            \<and> (\<exists>u. os_parse_url os (trim (sb_endpoint s)) = Some u \<and> accepted_url u))"
proof (induction ts arbitrary: sv)
  case (Cons t ts)
  from Cons.prems consider "(dev, n, r) \<in> set (snd (deliver_target os at name session topic t sv))"
    | "(dev, n, r) \<in> set (snd (deliver_each os at name session topic ts (fst (deliver_target os at name session topic t sv))))"
    by (auto simp: split_def Let_def)
  then show ?case
  proof cases
    case 1
    then have "tg_device t = dev \<and> device_active (mo_devices (at dev)) dev
      \<and> \<not> is_foreground (mo_now (at dev)) dev (mo_presence (at dev))
      \<and> n = render_notification name session (tg_events t) (tg_show_details t)
      \<and> r \<in> set (fst (snd (send_to os (mo_instant (at dev)) (tg_subs t) n (Some topic) sv)))"
      by (auto simp: deliver_target_def Let_def split_def split: if_splits)
    then show ?thesis using send_to_requests by fastforce
  next
    case 2
    then show ?thesis using Cons.IH by fastforce
  qed
qed simp

lemma target_origin:
  "t \<in> set (snd (targets es now instant sv)) \<Longrightarrow>
     \<exists>d. (tg_device t, d) \<in> set (pl_devices (sv_data sv)) \<and> tg_show_details t = pf_show_details (dv_prefs d)
       \<and> tg_events t = filter (\<lambda>e. wants d e now) es \<and> tg_events t \<noteq> []
       \<and> tg_subs t = filter (not_limited instant (sv_health sv)) (dv_subscriptions d)"
  by (auto simp: targets_def picked_def Let_def split: if_splits)

lemma device_active_iff:
  "device_active ds i \<longleftrightarrow> (\<exists>r. find (\<lambda>r. dr_id r = i) (ds_devices ds) = Some r \<and> \<not> dr_revoked r)"
  by (auto simp: device_active_def ds_get_def ds_info_def split: option.splits)

text \<open>C12: A push goes only where it may. When a request leaves for a device, the device was paired and not revoked
  at that moment and did not have the app on screen; the request goes to a subscription the device stored, at an
  https endpoint of one of the four push services, that is not under a rate limit; and its text is
  that of exactly the events of the batch that are still pending and that the device wants, at
  least one, with their details only if the device asked for them.\<close>

theorem push_goes_where_it_may:
  assumes "(dev, n, r) \<in> set (snd (deliver_batch os sha pending session now instant at b sv))"
  shows "(\<exists>rec \<in> set (ds_devices (mo_devices (at dev))). dr_id rec = dev \<and> \<not> dr_revoked rec)
    \<and> \<not> is_foreground (mo_now (at dev)) dev (mo_presence (at dev))
    \<and> (\<exists>d. (dev, d) \<in> set (pl_devices (sv_data sv))
         \<and> (\<exists>s \<in> set (dv_subscriptions d). rq_endpoint r = sb_endpoint s \<and> not_limited instant (sv_health sv) s
              \<and> (\<exists>u. os_parse_url os (trim (sb_endpoint s)) = Some u \<and> accepted_url u))
         \<and> (let es = filter (\<lambda>e. still_pending pending e \<and> wants d e now) (ba_events b)
            in es \<noteq> [] \<and> n = render_notification (map_option display_name session) (ba_session b) es
                 (pf_show_details (dv_prefs d))))"
proof -
  let ?es = "filter (still_pending pending) (ba_events b)"
  from assms obtain sv' ts where t: "targets ?es now instant sv = (sv', ts)"
    and d: "(dev, n, r) \<in> set (snd (deliver_each os at (map_option display_name session) (ba_session b)
      (topic_for sha (ba_session b)) ts sv'))"
    by (auto simp: deliver_batch_def Let_def split: if_splits prod.splits)
  from deliver_each_sent [OF d] obtain t s where t1: "t \<in> set ts" "tg_device t = dev"
    and a: "device_active (mo_devices (at dev)) dev" "\<not> is_foreground (mo_now (at dev)) dev (mo_presence (at dev))"
    and n: "n = render_notification (map_option display_name session) (ba_session b) (tg_events t) (tg_show_details t)"
    and s: "s \<in> set (tg_subs t)" "rq_endpoint r = sb_endpoint s"
      "\<exists>u. os_parse_url os (trim (sb_endpoint s)) = Some u \<and> accepted_url u" by blast
  from target_origin [of t ?es now instant sv] t t1 obtain dv where dv: "(dev, dv) \<in> set (pl_devices (sv_data sv))"
    "tg_show_details t = pf_show_details (dv_prefs dv)" "tg_events t = filter (\<lambda>e. wants dv e now) ?es"
    "tg_events t \<noteq> []" "tg_subs t = filter (not_limited instant (sv_health sv)) (dv_subscriptions dv)" by auto
  have es: "tg_events t = filter (\<lambda>e. still_pending pending e \<and> wants dv e now) (ba_events b)"
    unfolding dv(3) by (simp add: conj_commute)
  have "\<exists>rec \<in> set (ds_devices (mo_devices (at dev))). dr_id rec = dev \<and> \<not> dr_revoked rec"
    using a(1) by (auto simp: device_active_iff dest!: find_Some_mem)
  moreover have "s \<in> set (dv_subscriptions dv)" "not_limited instant (sv_health sv) s" using s(1) dv(5) by auto
  ultimately show ?thesis using a(2) dv(1,2,4) s(2,3) n es unfolding Let_def by (intro conjI exI [of _ dv]) auto
qed

section \<open>The stored subscriptions\<close>

text \<open>The bounds of a device, and that no endpoint is held twice.\<close>

definition device_ok :: "(str \<Rightarrow> bool) \<Rightarrow> device_push \<Rightarrow> bool" where
  "device_ok P d \<longleftrightarrow> length (dv_subscriptions d) \<le> MAX_SUBSCRIPTIONS_PER_DEVICE
     \<and> distinct (map sb_endpoint (dv_subscriptions d)) \<and> (\<forall>s \<in> set (dv_subscriptions d). P (sb_endpoint s))
     \<and> length (dv_sessions d) \<le> MAX_SESSION_MODES \<and> length (dv_turn_finished d) \<le> MAX_TURN_ONCE"

definition file_ok :: "(str \<Rightarrow> bool) \<Rightarrow> push_file \<Rightarrow> bool" where
  "file_ok P f \<longleftrightarrow> hm_wf (pl_devices f)
     \<and> (\<forall>i d. (i, d) \<in> set (pl_devices f) \<longrightarrow> device_ok P d)
     \<and> (\<forall>i j d d' e. (i, d) \<in> set (pl_devices f) \<longrightarrow> (j, d') \<in> set (pl_devices f)
          \<longrightarrow> has_endpoint e d \<longrightarrow> has_endpoint e d' \<longrightarrow> i = j)"

lemma has_endpoint_iff: "has_endpoint e d \<longleftrightarrow> e \<in> sb_endpoint ` set (dv_subscriptions d)"
  by (auto simp: has_endpoint_def list_ex_iff)

text \<open>A change of every device that only takes subscriptions and one-shots away keeps the invariant, and so does
  leaving devices out.\<close>

lemma file_ok_shrink:
  assumes "file_ok P f" "hm_wf m"
    and sub: "\<And>i d. (i, d) \<in> set m \<Longrightarrow> device_ok P d
      \<and> (\<exists>d'. (i, d') \<in> set (pl_devices f) \<and> set (dv_subscriptions d) \<subseteq> set (dv_subscriptions d'))"
  shows "file_ok P (f\<lparr>pl_devices := m\<rparr>)"
proof -
  have "i = j" if m: "(i, d) \<in> set m" "(j, d') \<in> set m" "has_endpoint e d" "has_endpoint e d'" for i j d d' e
  proof -
    from sub [OF m(1)] obtain c where c: "(i, c) \<in> set (pl_devices f)" "set (dv_subscriptions d) \<subseteq> set (dv_subscriptions c)"
      by blast
    from sub [OF m(2)] obtain c' where c': "(j, c') \<in> set (pl_devices f)"
      "set (dv_subscriptions d') \<subseteq> set (dv_subscriptions c')" by blast
    have "has_endpoint e c" "has_endpoint e c'" using c c' m(3,4) by (auto simp: has_endpoint_iff)
    with c c' assms(1) show ?thesis unfolding file_ok_def by blast
  qed
  then show ?thesis using assms(2) sub unfolding file_ok_def by simp
qed

lemma file_ok_get: "file_ok P f \<Longrightarrow> (i, d) \<in> set (pl_devices f) \<Longrightarrow> device_ok P d"
  by (auto simp: file_ok_def)

lemma file_ok_wf: "file_ok P f \<Longrightarrow> hm_wf (pl_devices f)"
  by (simp add: file_ok_def)

lemma file_ok_retain:
  assumes "file_ok P f" shows "file_ok P (f\<lparr>pl_devices := hm_retain Q (pl_devices f)\<rparr>)"
  by (rule file_ok_shrink [OF assms]) (use assms in \<open>auto simp: hm_retain_def file_ok_wf intro: file_ok_get
    distinct_map_filter\<close>)

lemma file_ok_prune: "file_ok P f \<Longrightarrow> file_ok P (prune_empty f)"
  unfolding prune_empty_def by (rule file_ok_retain)

lemma file_ok_map:
  assumes "file_ok P f" "\<And>d. device_ok P d \<Longrightarrow> device_ok P (g d)"
    and "\<And>d. set (dv_subscriptions (g d)) \<subseteq> set (dv_subscriptions d)"
  shows "file_ok P (f\<lparr>pl_devices := hm_map g (pl_devices f)\<rparr>)"
proof (rule file_ok_shrink [OF assms(1)])
  show "hm_wf (hm_map g (pl_devices f))" using file_ok_wf [OF assms(1)] by simp
  fix i d assume "(i, d) \<in> set (hm_map g (pl_devices f))"
  then obtain c where c: "(i, c) \<in> set (pl_devices f)" "d = g c" by (auto simp: hm_map_def)
  then show "device_ok P d \<and> (\<exists>d'. (i, d') \<in> set (pl_devices f) \<and> set (dv_subscriptions d) \<subseteq> set (dv_subscriptions d'))"
    using assms(2) [OF file_ok_get [OF assms(1) c(1)]] assms(3) [of c] by blast
qed

text \<open>A device whose subscriptions become others of its own.\<close>

lemma mem_put:
  assumes "hm_wf m"
  shows "(j, c) \<in> set (hm_put i d m) \<longleftrightarrow> (if j = i then c = d else (j, c) \<in> set m)"
  unfolding hm_mem_get [OF hm_wf_put [OF assms]] hm_mem_get [OF assms] update_conv fun_upd_apply by auto

lemma file_ok_put:
  assumes ok: "file_ok P f" and d: "device_ok P d"
    and own: "\<And>e j d'. has_endpoint e d \<Longrightarrow> (j, d') \<in> set (pl_devices f) \<Longrightarrow> has_endpoint e d' \<Longrightarrow> j = i"
  shows "file_ok P (f\<lparr>pl_devices := hm_put i d (pl_devices f)\<rparr>)"
proof -
  let ?m = "hm_put i d (pl_devices f)"
  note mem = mem_put [OF file_ok_wf [OF ok]]
  have old: "j = k" if "(j, c) \<in> set (pl_devices f)" "(k, c') \<in> set (pl_devices f)" "has_endpoint e c" "has_endpoint e c'"
    for j k c c' e using that ok unfolding file_ok_def by blast
  have "j = k" if m: "(j, c) \<in> set ?m" "(k, c') \<in> set ?m" and e: "has_endpoint e c" "has_endpoint e c'" for j k c c' e
  proof (cases "j = i"; cases "k = i")
    assume "j = i" "k \<noteq> i"
    then show ?thesis using m e own [of e k c'] by (simp add: mem)
  next
    assume "j \<noteq> i" "k = i"
    then show ?thesis using m e own [of e j c] by (simp add: mem)
  next
    assume "j \<noteq> i" "k \<noteq> i"
    then show ?thesis using m by (intro old [OF _ _ e]) (simp_all add: mem)
  qed simp
  moreover have "device_ok P c" if "(j, c) \<in> set ?m" for j c
    using that d file_ok_get [OF ok, of j c] by (auto simp: mem split: if_splits)
  moreover have "hm_wf ?m" by (rule hm_wf_put [OF file_ok_wf [OF ok]])
  ultimately show ?thesis unfolding file_ok_def by simp
qed

lemma device_ok_default: "device_ok P device_push_default"
  by (simp add: device_ok_def device_push_default_def)

lemma device_or_default_cases:
  assumes "hm_wf (pl_devices f)"
  obtains "(i, device_or_default i f) \<in> set (pl_devices f)"
    | "device_or_default i f = device_push_default" "\<And>d. (i, d) \<notin> set (pl_devices f)"
proof (cases "hm_get (pl_devices f) i")
  case None
  then have "(i, d) \<notin> set (pl_devices f)" for d using assms by (auto dest: map_of_is_SomeI)
  moreover have "device_or_default i f = device_push_default" using None by (simp add: device_or_default_def)
  ultimately show ?thesis by (rule that(2) [rotated])
next
  case (Some d)
  then have "(i, d) \<in> set (pl_devices f)" by (rule map_of_SomeD)
  then show ?thesis using that(1) Some by (simp add: device_or_default_def)
qed

lemma device_or_default_ok: "file_ok P f \<Longrightarrow> device_ok P (device_or_default i f)"
  by (cases rule: device_or_default_cases [OF file_ok_wf, of P f i]) (auto simp: device_ok_default intro: file_ok_get)

lemma device_or_default_endpoint:
  assumes "file_ok P f" "has_endpoint e (device_or_default i f)" "(j, d) \<in> set (pl_devices f)" "has_endpoint e d"
  shows "j = i"
proof (cases rule: device_or_default_cases [OF file_ok_wf [OF assms(1)], of i])
  case 1
  then show ?thesis using assms unfolding file_ok_def by blast
next
  case 2
  then show ?thesis using assms(2) by (simp add: has_endpoint_def device_push_default_def)
qed

section \<open>The operations of the store\<close>

lemma drop_oldest_sub:
  "set (drop_oldest subs) \<subseteq> set subs" "distinct (map sb_endpoint subs) \<Longrightarrow> distinct (map sb_endpoint (drop_oldest subs))"
  by (simp_all add: drop_oldest_def set_remove_first distinct_map_remove_first)

lemma evict_subs_sub:
  "set (fst (evict_subs subs n)) \<subseteq> set subs
   \<and> (distinct (map sb_endpoint subs) \<longrightarrow> distinct (map sb_endpoint (fst (evict_subs subs n))))
   \<and> length (fst (evict_subs subs n)) \<le> MAX_SUBSCRIPTIONS_PER_DEVICE"
proof (induction subs n rule: evict_subs.induct)
  case (1 subs n)
  then show ?case using drop_oldest_sub [of subs] by (subst (1 2 3) evict_subs.simps) auto
qed

lemma detach_sub:
  "set (dv_subscriptions (detach e d)) \<subseteq> set (dv_subscriptions d)" "device_ok P d \<Longrightarrow> device_ok P (detach e d)"
  "device_ok P d \<Longrightarrow> \<not> has_endpoint e (detach e d)"
proof -
  show sub: "set (dv_subscriptions (detach e d)) \<subseteq> set (dv_subscriptions d)"
    by (simp add: detach_def set_remove_first)
  show "device_ok P (detach e d)" if "device_ok P d"
    using that sub length_remove_first [of "\<lambda>s. sb_endpoint s = e" "dv_subscriptions d"]
      distinct_map_remove_first [of sb_endpoint "dv_subscriptions d" "\<lambda>s. sb_endpoint s = e"]
    by (auto simp: device_ok_def detach_def split: if_splits)
  have "e \<notin> sb_endpoint ` set (remove_first (\<lambda>s. sb_endpoint s = e) xs)" if "distinct (map sb_endpoint xs)"
    for xs :: "subscription list"
    using that by (induction xs) auto
  then show "\<not> has_endpoint e (detach e d)" if "device_ok P d"
    using that by (simp add: has_endpoint_iff detach_def device_ok_def)
qed

lemma without_endpoint_sub:
  "set (dv_subscriptions (without_endpoint e d)) \<subseteq> set (dv_subscriptions d)"
  "device_ok P d \<Longrightarrow> device_ok P (without_endpoint e d)"
  by (auto simp: device_ok_def without_endpoint_def intro: distinct_map_filter order_trans [OF length_filter_le])

lemma subscribe_ok:
  assumes f: "file_ok P f" and P: "P (sb_endpoint sub)"
  shows "file_ok P (fst (pl_subscribe device sub now f))"
proof -
  let ?e = "sb_endpoint sub"
  define f1 where "f1 = f\<lparr>pl_devices := hm_map (detach ?e) (pl_devices f)\<rparr>"
  have f1: "file_ok P f1" unfolding f1_def by (rule file_ok_map [OF f]) (auto simp: detach_sub dest: subsetD [OF detach_sub(1)])
  have gone: "\<not> has_endpoint ?e d" if "(i, d) \<in> set (pl_devices f1)" for i d
    using that detach_sub(3) [OF file_ok_get [OF f]] by (auto simp: f1_def hm_map_def)
  let ?dev = "device_or_default device f1"
  have dev: "device_ok P ?dev" by (rule device_or_default_ok [OF f1])
  have new: "\<not> has_endpoint ?e ?dev"
    by (cases rule: device_or_default_cases [OF file_ok_wf [OF f1], of device])
      (auto dest: gone simp: has_endpoint_def device_push_default_def)
  obtain s where s: "sb_endpoint s = ?e" and
    sub: "fst (pl_subscribe device sub now f) = prune_empty (f1\<lparr>pl_devices := hm_put device
      (?dev\<lparr>dv_subscriptions := fst (evict_subs (dv_subscriptions ?dev @ [s]) 0)\<rparr>) (pl_devices f1)\<rparr>)"
    by (rule that [of "sub\<lparr>sb_created_at := _, sb_updated_at := now\<rparr>"]) (simp_all add: pl_subscribe_def Let_def split_def f1_def)
  let ?subs = "fst (evict_subs (dv_subscriptions ?dev @ [s]) 0)"
  have "distinct (map sb_endpoint (dv_subscriptions ?dev @ [s]))"
    using dev new by (auto simp: device_ok_def has_endpoint_iff s)
  with evict_subs_sub [of "dv_subscriptions ?dev @ [s]" 0]
  have subs: "set ?subs \<subseteq> set (dv_subscriptions ?dev @ [s])" "distinct (map sb_endpoint ?subs)"
    "length ?subs \<le> MAX_SUBSCRIPTIONS_PER_DEVICE" by blast+
  have "device_ok P (?dev\<lparr>dv_subscriptions := ?subs\<rparr>)"
    using dev subs P s by (auto simp: device_ok_def)
  moreover have "j = device" if "has_endpoint x (?dev\<lparr>dv_subscriptions := ?subs\<rparr>)" "(j, d) \<in> set (pl_devices f1)"
    "has_endpoint x d" for x j d
  proof -
    have "has_endpoint x ?dev \<or> x = ?e" using that(1) subs(1) s by (auto simp: has_endpoint_iff)
    then show ?thesis using that(2,3) gone [OF that(2)] device_or_default_endpoint [OF f1] by blast
  qed
  ultimately show ?thesis unfolding sub by (intro file_ok_prune file_ok_put [OF f1])
qed

lemma unsubscribe_ok:
  assumes "file_ok P f" shows "file_ok P (fst (pl_unsubscribe device e f))"
proof (cases "hm_get (pl_devices f) device")
  case None
  then show ?thesis using assms by (simp add: pl_unsubscribe_def file_ok_prune)
next
  case (Some d)
  then have d: "(device, d) \<in> set (pl_devices f)" by (rule map_of_SomeD)
  have "file_ok P (f\<lparr>pl_devices := hm_put device (without_endpoint e d) (pl_devices f)\<rparr>)"
  proof (rule file_ok_put [OF assms])
    show "device_ok P (without_endpoint e d)" by (rule without_endpoint_sub(2) [OF file_ok_get [OF assms d]])
    fix x j d' assume "has_endpoint x (without_endpoint e d)" "(j, d') \<in> set (pl_devices f)" "has_endpoint x d'"
    moreover have "has_endpoint x d" using calculation(1) without_endpoint_sub(1) [of e d] by (auto simp: has_endpoint_iff)
    ultimately show "j = device" using assms d unfolding file_ok_def by blast
  qed
  then show ?thesis using Some by (simp add: pl_unsubscribe_def file_ok_prune)
qed

lemma remove_endpoint_ok: "file_ok P f \<Longrightarrow> file_ok P (fst (pl_remove_endpoint e f))"
  by (simp add: pl_remove_endpoint_def Let_def)
    (intro file_ok_prune file_ok_map, auto simp: without_endpoint_sub dest: subsetD [OF without_endpoint_sub(1)])

lemma drop_device_ok: "file_ok P f \<Longrightarrow> file_ok P (fst (pl_drop_device device f))"
  by (simp add: pl_drop_device_def) (rule file_ok_shrink, auto simp: file_ok_wf distinct_hm_del set_hm_del intro: file_ok_get)

lemma patch_device_ok:
  assumes "device_ok P d" "patch_device pt now d = Inr d'"
  shows "device_ok P d' \<and> dv_subscriptions d' = dv_subscriptions d"
  using assms by (auto simp: patch_device_def device_ok_def split: sum.splits if_splits)

lemma apply_patch_ok:
  assumes "file_ok P f" shows "file_ok P (fst (pl_apply_patch device pt now f))"
proof (cases "patch_device pt now (device_or_default device f)")
  case (Inr d)
  note d = patch_device_ok [OF device_or_default_ok [OF assms] this]
  have "file_ok P (f\<lparr>pl_devices := hm_put device d (pl_devices f)\<rparr>)"
  proof (rule file_ok_put [OF assms])
    fix x j d' assume "has_endpoint x d" "(j, d') \<in> set (pl_devices f)" "has_endpoint x d'"
    then show "j = device" using d device_or_default_endpoint [OF assms, of x device j d'] by (simp add: has_endpoint_iff)
  qed (use d in blast)
  then show ?thesis using Inr by (simp add: pl_apply_patch_def file_ok_prune)
qed (use assms in \<open>simp add: pl_apply_patch_def\<close>)

lemma length_fold_hm_del: "length (fold hm_del ks m) \<le> length m"
  by (induction ks arbitrary: m) (auto intro: order_trans length_hm_del_le)

lemma consume_ok: "file_ok P f \<Longrightarrow> file_ok P (f\<lparr>pl_devices := hm_map (consume_once es now) (pl_devices f)\<rparr>)"
  by (rule file_ok_map) (auto simp: consume_once_def device_ok_def intro: order_trans [OF length_fold_hm_del])

lemma sanitize_ok:
  assumes "file_ok Q f"
  shows "file_ok (\<lambda>e. Q e) (fst (pl_sanitize key now valid f))"
proof -
  have "file_ok Q (f\<lparr>pl_devices := hm_map (sanitize_device c now valid) (pl_devices f)\<rparr>)" for c
    by (rule file_ok_map [OF assms])
      (auto simp: sanitize_device_def device_ok_def hm_retain_def Let_def intro: distinct_map_filter
        order_trans [OF length_filter_le] split: if_splits)
  from file_ok_retain [OF this] show ?thesis
    by (simp add: pl_sanitize_def Let_def file_ok_def)
qed

section \<open>Runs of the service\<close>

text \<open>Everything that changes the service: the routes, a delivery, and the revocation of a device.\<close>

datatype service_op =
    OpSubscribe str str str str "str option" "str \<Rightarrow> lookup_result" int
  | OpUnsubscribe str str
  | OpPrefs str prefs_patch int
  | OpTest nat str
  | OpDeliver store "session_summary option" int nat "str \<Rightarrow> moment" batch
  | OpForget str
  | OpPublicUrl "str option"

fun service_step :: "outside \<Rightarrow> (nat list \<Rightarrow> str) \<Rightarrow> str \<Rightarrow> (str \<Rightarrow> str) \<Rightarrow> service_op \<Rightarrow> push_service \<Rightarrow> push_service"
where
  "service_step os encode key sha (OpSubscribe device endpoint p256dh auth server_key lookup now) sv =
     fst (sv_subscribe os encode key lookup device endpoint p256dh auth server_key now sv)"
| "service_step os encode key sha (OpUnsubscribe device endpoint) sv = fst (sv_unsubscribe os device endpoint sv)"
| "service_step os encode key sha (OpPrefs device pt now) sv = fst (sv_update_prefs device pt now sv)"
| "service_step os encode key sha (OpTest instant device) sv = fst (send_test os instant device sv)"
| "service_step os encode key sha (OpDeliver pending session now instant at b) sv =
     fst (deliver_batch os sha pending session now instant at b sv)"
| "service_step os encode key sha (OpForget device) sv = forget_device device sv"
| "service_step os encode key sha (OpPublicUrl u) sv = set_public_url (os_parse_url os) u sv"

definition checked_endpoint :: "outside \<Rightarrow> str \<Rightarrow> bool" where
  "checked_endpoint os e \<longleftrightarrow> (\<exists>raw u. os_parse_url os raw = Some u \<and> accepted_url u \<and> ur_text u = e)"

abbreviation service_ok :: "outside \<Rightarrow> push_service \<Rightarrow> bool" where
  "service_ok os sv \<equiv> file_ok (checked_endpoint os) (sv_data sv)"

lemma record_outcome_ok: "service_ok os sv \<Longrightarrow> service_ok os (record_outcome instant e outcome sv)"
  by (cases outcome)
    (auto simp: record_outcome_def Let_def clear_health_def set_health_def remove_subscription_def intro: remove_endpoint_ok)

lemma record_all_ok:
  "service_ok os sv \<Longrightarrow> service_ok os (foldl (\<lambda>sv (s, _, outcome). record_outcome instant (sb_endpoint s) outcome sv) sv rs)"
  by (induction rs arbitrary: sv) (auto simp: record_outcome_ok split_def)

lemma send_to_ok: "service_ok os sv \<Longrightarrow> service_ok os (fst (send_to os instant subs n topic sv))"
  using record_all_ok [of os sv instant] by (simp add: send_to_def Let_def)

lemma forget_device_ok: "service_ok os sv \<Longrightarrow> service_ok os (forget_device device sv)"
  by (simp add: forget_device_def Let_def drop_device_ok)

lemma deliver_target_ok: "service_ok os sv \<Longrightarrow> service_ok os (fst (deliver_target os at name session topic t sv))"
  by (auto simp: deliver_target_def Let_def split_def forget_device_ok send_to_ok)

lemma deliver_each_ok: "service_ok os sv \<Longrightarrow> service_ok os (fst (deliver_each os at name session topic ts sv))"
  by (induction ts arbitrary: sv) (auto simp: split_def Let_def deliver_target_ok)

lemma service_step_ok:
  assumes "service_ok os sv" shows "service_ok os (service_step os encode key sha x sv)"
proof (cases x)
  case (OpSubscribe device endpoint p256dh auth server_key lookup now)
  have "file_ok (checked_endpoint os) (fst (pl_subscribe device sub now (sv_data sv)))"
    if "os_parse_url os raw = Some u" "accepted_url u" "sb_endpoint sub = ur_text u" for raw u sub
    using that by (intro subscribe_ok [OF assms]) (auto simp: checked_endpoint_def)
  then show ?thesis using assms
    by (auto simp: OpSubscribe sv_subscribe_def Let_def split_def clear_health_def validate_endpoint_exact
      split: sum.splits option.splits)
next
  case (OpDeliver pending session now instant at b)
  have "service_ok os (fst (targets es now instant sv))" for es
    using assms by (simp add: targets_def consume_ok)
  then show ?thesis using assms by (auto simp: OpDeliver deliver_batch_def Let_def split_def deliver_each_ok)
next
  case (OpPrefs device pt now)
  obtain f r where p: "pl_apply_patch device pt now (sv_data sv) = (f, r)" by (cases "pl_apply_patch device pt now (sv_data sv)")
  then have "file_ok (checked_endpoint os) f" using apply_patch_ok [OF assms, of device pt now] by simp
  then show ?thesis using assms by (cases r) (simp_all add: OpPrefs sv_update_prefs_def p)
next
  case (OpUnsubscribe device endpoint)
  then show ?thesis using unsubscribe_ok [OF assms, of device]
    by (simp add: sv_unsubscribe_def Let_def split_def clear_health_def)
next
  case (OpTest instant device)
  have "service_ok os (sv\<lparr>sv_last_test := l\<rparr>)" for l using assms by simp
  from send_to_ok [OF this] assms show ?thesis by (simp add: OpTest send_test_def Let_def split_def)
next
  case (OpForget device)
  then show ?thesis by (simp add: forget_device_ok [OF assms])
next
  case (OpPublicUrl u)
  then show ?thesis using assms by (simp add: set_public_url_def)
qed

text \<open>C16: Whatever sequence of requests, deliveries and revocations the service has seen, a device has at most five
  subscriptions, 500 session modes and 50 one-shots, no endpoint is stored twice, be it under one device
  or under two, and every stored endpoint is the canonical form of an accepted URL.\<close>

theorem stored_subscriptions_are_bounded:
  assumes "sv = fold (service_step os encode key sha) ops push_service_new"
  shows "(\<forall>(i, d) \<in> set (pl_devices (sv_data sv)).
      length (dv_subscriptions d) \<le> 5 \<and> length (dv_sessions d) \<le> 500 \<and> length (dv_turn_finished d) \<le> 50
      \<and> distinct (map sb_endpoint (dv_subscriptions d))
      \<and> (\<forall>s \<in> set (dv_subscriptions d). \<exists>raw u. os_parse_url os raw = Some u \<and> accepted_url u \<and> ur_text u = sb_endpoint s))
    \<and> (\<forall>(i, d) \<in> set (pl_devices (sv_data sv)). \<forall>(j, d') \<in> set (pl_devices (sv_data sv)). \<forall>e.
        has_endpoint e d \<and> has_endpoint e d' \<longrightarrow> i = j)"
proof -
  have "service_ok os (fold (service_step os encode key sha) ops sv)" if "service_ok os sv" for sv
    using that by (induction ops arbitrary: sv) (simp_all add: service_step_ok)
  moreover have "service_ok os push_service_new" by (simp add: push_service_new_def push_file_default_def file_ok_def)
  ultimately have ok: "file_ok (checked_endpoint os) (sv_data sv)" by (simp add: assms)
  show ?thesis
  proof (intro conjI ballI; clarify)
    fix i d assume "(i, d) \<in> set (pl_devices (sv_data sv))"
    from file_ok_get [OF ok this] show "length (dv_subscriptions d) \<le> 5 \<and> length (dv_sessions d) \<le> 500
      \<and> length (dv_turn_finished d) \<le> 50 \<and> distinct (map sb_endpoint (dv_subscriptions d))
      \<and> (\<forall>s \<in> set (dv_subscriptions d). \<exists>raw u. os_parse_url os raw = Some u \<and> accepted_url u \<and> ur_text u = sb_endpoint s)"
      by (simp add: device_ok_def checked_endpoint_def MAX_SUBSCRIPTIONS_PER_DEVICE_def MAX_SESSION_MODES_def
        MAX_TURN_ONCE_def)
  next
    fix i d j d' e assume "(i, d) \<in> set (pl_devices (sv_data sv))" "(j, d') \<in> set (pl_devices (sv_data sv))"
      "has_endpoint e d" "has_endpoint e d'"
    then show "i = j" using ok unfolding file_ok_def by blast
  qed
qed

section \<open>Witnesses\<close>

definition example_url :: url where
  "example_url = \<lparr>ur_text = ''https://fcm.googleapis.com/x'', ur_scheme = ''https'', ur_username = [], ur_password = None,
     ur_fragment = None, ur_port = None, ur_host = Some ''fcm.googleapis.com''\<rparr>"

definition example_outside :: outside where
  "example_outside = \<lparr>os_parse_url = (\<lambda>_. Some example_url), os_uri_ok = (\<lambda>_. True),
     os_decode = (\<lambda>_. Some (replicate 16 0)), os_on_curve = (\<lambda>_. True), os_encrypt = (\<lambda>_ _ _. Inr ''c''),
     os_answer = (\<lambda>_. Answer 201 None)\<rparr>"

definition example_service :: push_service where
  "example_service = push_service_new\<lparr>sv_data := example_file\<rparr>"

definition example_moment :: moment where
  "example_moment = \<lparr>mo_devices = (store_load True (Some [device_record_default\<lparr>dr_id := ''d''\<rparr>]) None 30),
     mo_presence = [], mo_now = 0, mo_instant = 0\<rparr>"

lemma example_accepted_url: "accepted_url example_url"
proof -
  have "valid_dns_name ''fcm.googleapis.com''"
    by (simp add: valid_dns_name_def label_ok_def is_ascii_lower_def is_ascii_digit_def byte_def starts_with_def ends_with_def)
  then show ?thesis by (simp add: accepted_url_def example_url_def)
qed

lemma length_trim: "length (trim s) \<le> length s"
  using trim_end_prefix [of "trim_start s"] length_trim_start [of s]
  by (metis le_add1 length_append order_trans trim_def)

lemma example_send:
  "send_one example_outside (hd (dv_subscriptions example_device)) n topic
     = (Some \<lparr>rq_endpoint = ''https://fcm.googleapis.com/x'', rq_body = ''c'', rq_ttl = no_ttl_secs n,
         rq_urgency = no_urgency n, rq_topic = topic\<rparr>, Delivered)"
proof -
  have "validate_endpoint (os_parse_url example_outside) ''https://fcm.googleapis.com/x'' = Inr example_url"
    using example_accepted_url length_trim [of "''https://fcm.googleapis.com/x''"]
    by (simp add: validate_endpoint_exact example_outside_def MAX_ENDPOINT_LEN_def)
  then show ?thesis
    by (simp add: send_one_def example_device_def build_request_def example_outside_def outcome_of_def)
qed

theorem push_goes_where_it_may_witness:
  "\<exists>n r. (''d'', n, r) \<in> set (snd (deliver_batch example_outside (\<lambda>s. s) store_new None 0 0 (\<lambda>_. example_moment)
       \<lparr>ba_session = ''s'', ba_events = [example_event]\<rparr> example_service))
     \<and> n = render_notification None ''s'' [example_event] False"
proof -
  let ?b = "\<lparr>ba_session = ''s'', ba_events = [example_event]\<rparr>"
  let ?out = "snd (deliver_batch example_outside (\<lambda>s. s) store_new None 0 0 (\<lambda>_. example_moment) ?b example_service)"
  have p: "still_pending store_new example_event" "wants example_device example_event 0"
    by (simp_all add: still_pending_def example_event_def push_event_new_def wants_def example_device_def dev_mode_def
      device_push_default_def prefs_default_def Let_def)
  have act: "device_active (mo_devices example_moment) ''d''"
    by (simp add: device_active_iff example_moment_def store_load_def device_record_default_def)
  have fg: "\<not> is_foreground (mo_now example_moment) ''d'' (mo_presence example_moment)"
    by (simp add: is_foreground_def presence_get_def example_moment_def)
  have "\<exists>n r. (''d'', n, r) \<in> set ?out"
    using p act fg example_send
    by (simp add: deliver_batch_def targets_def picked_def example_service_def example_file_def push_service_new_def
      Let_def deliver_target_def send_to_def split_def optional_list_def not_limited_def)
      (simp add: example_device_def)
  then obtain n r where nr: "(''d'', n, r) \<in> set ?out" by blast
  from push_goes_where_it_may [OF nr] have "n = render_notification None ''s'' [example_event] False"
    using p by (auto simp: Let_def example_service_def example_file_def push_service_new_def example_device_def
      device_push_default_def prefs_default_def)
  with nr show ?thesis by blast
qed

theorem stored_subscriptions_are_bounded_witness:
  "list_all (\<lambda>(i, d). length (dv_subscriptions d) \<le> 5 \<and> distinct (map sb_endpoint (dv_subscriptions d)))
     (pl_devices (sv_data (fold (service_step example_outside (\<lambda>_. ''k'') ''v'' (\<lambda>s. s))
     [OpPrefs ''d'' \<lparr>pt_permission = Some False, pt_question = None, pt_plan = None, pt_finished = None, pt_failed = None,
        pt_claude = None, pt_idle = None, pt_show_details = None, pt_sessions = None, pt_turn_finished = None\<rparr> 0]
     push_service_new)))"
  using stored_subscriptions_are_bounded [OF refl, of example_outside "\<lambda>_. ''k''" "''v''" "\<lambda>s. s"
    "[OpPrefs ''d'' \<lparr>pt_permission = Some False, pt_question = None, pt_plan = None, pt_finished = None, pt_failed = None,
        pt_claude = None, pt_idle = None, pt_show_details = None, pt_sessions = None, pt_turn_finished = None\<rparr> 0]"]
  by (force simp: list_all_iff)

end
