(* ===== verification/Spec2Isabelle.thy ===== *)
theory Spec2Isabelle
  imports Ids Operations RateLimit Danger HookProofs PairingSafety PendingProofs VtProofs PushSafety
begin

text \<open>
  A model of the server side of Mother Claude, a desktop application (Tauri, Rust, under
  \<open>src/src-tauri/src\<close>) that shows the Claude Code sessions of a computer and lets the owner, from that
  computer or from a paired device, watch them, talk to them and answer their permission prompts.

  \<^bold>\<open>How the program works.\<close> A session asks for a decision (a tool wants to run, a question, a plan). The
  prompt reaches the server through one of three channels: the hooks of Claude Code
  (\<open>server/hooks/machine.rs\<close>), the stream-json control of owned sessions, or the bridge host of an SDK
  program (\<open>bridge/\<close>). The server raises it as a \<open>pending item\<close> (\<open>pending.rs\<close>), after deciding itself whether
  it is dangerous (\<open>pending/danger.rs\<close>); every client sees it; the first valid answer of a caller with the
  right to give it (\<open>server/context.rs\<close>) is sent to the raiser. Clients are told apart by transport and
  headers (\<open>server/context.rs\<close>) and by their tokens (\<open>server/auth.rs\<close>), and slowed down when they fail to
  authenticate (\<open>server/ratelimit.rs\<close>). A phone or tablet becomes a paired device (\<open>server/devices.rs\<close>) by
  redeeming a code shown on the Mac (\<open>server/pairing.rs\<close>); outside the home network the owner first types
  the digits the device shows. Connected clients are registered in a hub (\<open>server/ws.rs\<close>).
  Programs that use the bridge read a log of events by cursor (\<open>bridge/events.rs\<close>) and start operations
  (\<open>bridge/ops.rs\<close>). Every identifier in a request is checked before it becomes part of a path
  (\<open>claude/ids.rs\<close>). What happens to the sessions (a prompt, a finished turn, a failure) also goes to the paired
  devices as web push notifications (\<open>server/push.rs\<close>): events pass the engine, which drops repeated ones and
  collects those of one session, and are sent to the subscriptions of the devices that want them and have not
  the app on screen.

  \<^bold>\<open>Which theory models what.\<close>
  \<^item> \<open>Prelude\<close>: the maps of the model (association lists with the interface of \<open>HashMap\<close>), the locale of
    machines with an invariant (\<open>invariant_machine\<close>), lemmas on lists and sums. \<open>RustText\<close>, \<open>RustPath\<close>,
    \<open>RustNet\<close>, \<open>Json\<close>: what the code uses of \<open>str\<close> (strings are lists of UTF-8 bytes), \<open>Path\<close>,
    \<open>IpAddr\<close> and \<open>serde_json::Value\<close>. \<open>AddrParse\<close>: the text parsers of \<open>std::net\<close>.
  \<^item> \<open>Errors\<close>: \<open>server/error.rs\<close> and \<open>bridge/error.rs\<close>, the error values every fallible operation returns.
  \<^item> \<open>Ids\<close>: \<open>claude/ids.rs\<close>. Accepted ids are single path components; safe relative paths stay under
    their root; block paths print and parse back.
  \<^item> \<open>EventLog\<close>, \<open>Operations\<close>: \<open>bridge/events.rs\<close> and \<open>bridge/ops.rs\<close>. The log keeps the longest suffix of
    its history within its caps; reads have no gap; an operation finishes exactly once; the registry keeps
    its caps and its indexes agree with its operations.
  \<^item> \<open>RateLimit\<close>: \<open>server/ratelimit.rs\<close>. Blocks outlive every flood, tables and pools stay bounded.
  \<^item> \<open>PendingModel\<close>: the pending part of \<open>claude/model.rs\<close>. \<open>Danger\<close>: \<open>pending/danger.rs\<close>, the classifier of
    dangerous tool calls and exact descriptions of what it accepts.
  \<^item> \<open>Context\<close>: \<open>server/context.rs\<close>, who a caller is and which rights it has, from its socket and headers.
  \<^item> \<open>Pending\<close>, \<open>PendingAnswers\<close>, \<open>PendingFlow\<close>: \<open>pending.rs\<close>, the decision store, the suggestions, questions
    and permission results, and the flow that raises, answers and withdraws. \<open>PendingProofs\<close>: its theorems.
  \<^item> \<open>Tokens\<close>, \<open>Auth\<close>: \<open>server/auth.rs\<close> and the middleware of \<open>server/context.rs\<close>, the tokens a request can
    present, the principal they earn and the guards of the routes. \<open>Devices\<close>: \<open>server/devices.rs\<close> and
    \<open>server/devices/audit.rs\<close>, the store of paired devices and the audit ring. \<open>Hub\<close>: the registry of
    clients, subscriptions and presence of \<open>server/ws.rs\<close>. \<open>DeviceProofs\<close>: which credential earns which
    principal, and that a revoked device stays out. \<open>AddrShow\<close>: how addresses are printed.
  \<^item> \<open>PairModel\<close>, \<open>Pairing\<close>: \<open>server/pairing.rs\<close>, codes and requests, the exchange, polls, approval and
    denial. \<open>PairingProofs\<close>: the steps of the program on the pairing state, its invariant, and the simulation
    of the life cycle of each request (locale \<open>simulation\<close> of \<open>Prelude\<close>). \<open>PairingSafety\<close>: what follows for
    runs: tokens, contested requests, bounds, codes that are redeemed once, requests that end.
  \<^item> \<open>Relay\<close>: \<open>server/hooks/relay.rs\<close>, the text by which messages of the user are relayed to a session.
    \<open>HookMachine\<close>, \<open>HookProofs\<close>: \<open>server/hooks/machine.rs\<close>, the hub of hook sessions (queues of relayed
    messages, waiters, interrupts, held prompts), its invariants over all interleavings of hook events,
    polls, cancellations and departures.
  \<^item> \<open>Vt\<close>, \<open>VtProofs\<close>: \<open>claude/control/vt.rs\<close>, the terminal screen on which the output of a background
    session is replayed before it is shown. A function of the model is \<open>None\<close> where the code panics, and the sums the
    code forms wrap around at the width of \<open>usize\<close>; the theorems say when nothing panics, and that no
    control character leaves the screen.
  \<^item> \<open>PushEngine\<close>: \<open>server/push/engine.rs\<close>, the events, the suppressor of repeated ones, the coalescer that lets
    one batch of a session leave per window, who wants what, and the tracker that makes events of session
    summaries. \<open>PushStore\<close>: \<open>server/push/store.rs\<close>, subscriptions and preferences of the devices. \<open>PushEndpoint\<close>:
    \<open>server/push/endpoint.rs\<close>, which URLs and addresses a push may go to. \<open>PushPayload\<close>: \<open>server/push/payload.rs\<close>,
    the text of notifications. \<open>PushService\<close>: \<open>server/push.rs\<close>, the loop of the engine, the choice of targets, the
    outcomes of sends and the routes. \<open>PushProofs\<close>: accepted events are sent and sessions are throttled, over any
    run of the loop; what a notification can say. \<open>PushSafety\<close>: the invariant of the stored subscriptions over
    any operations, and where a push can go.

  \<^bold>\<open>Conventions.\<close> An operation under a lock is one function from the old state to the new one; where the code
  lets go of the lock in between (\<open>respond\<close>, the reads of the log, the exchange of a code), the model takes what other tasks do
  meanwhile as an argument. Times are arguments, instants are naturals, milliseconds since the epoch are
  integers. A oneshot channel is a number; whether its receiver is alive is an argument, what was sent is
  recorded. \<open>canonicalize\<close>, SHA-256, random ids, the serialiser and the directory of the application are
  parameters, the random bytes of a call a record. Sequence numbers (\<open>u64\<close>) are naturals: they grow by one per event. Loops are structural
  recursions or folds, so that every function of the model is total; no fuel is used. The text of notifications
  and of the terminal is a list of code points, other strings are UTF-8 bytes.

  \<^bold>\<open>Not modelled\<close> (see also the manifest): sockets, TLS and route tables; files and processes; the
  Angular client. Planned next: the hook endpoints, activity, web push, the control protocol, usage and
  aggregation.
\<close>

end
